(* ===== verification/Straw_Prelude.thy ===== *)
theory Straw_Prelude
  imports Main "HOL-Library.Word"
begin

unbundle bit_operations_syntax

text \<open>
  The shared vocabulary of the development: machine integers at the widths the Rust
  sources use, byte buffers, the outcome type of a Rust function (a value, an error
  returned through \<open>Result\<close>, or a panic), in-place updates of byte slices, and big-endian
  integers. The lemmas collected in \<open>res_simps\<close> and \<open>buf_simps\<close> carry the component
  proofs.
\<close>

named_theorems res_simps \<open>elimination of chained fallible calls\<close>
named_theorems buf_simps \<open>lengths and contents of byte buffers\<close>

section \<open>Types\<close>

type_synonym u8 = "8 word"
type_synonym u16 = "16 word"
type_synonym u32 = "32 word"
type_synonym u64 = "64 word"
type_synonym u128 = "128 word"
type_synonym bytes = "u8 list"

text \<open>
  The outcome of a Rust function of type \<open>Result<T, E>\<close>: \<open>Ok\<close>, \<open>Err\<close>, or the abnormal
  outcome \<open>Panic\<close> (an \<open>unwrap\<close> of an error, an index out of range).
\<close>

datatype ('e, 'a) res = Ok 'a | Err 'e | Panic

text \<open>The question-mark operator: continue on \<open>Ok\<close>, propagate everything else.\<close>

fun and_then :: "('e, 'a) res \<Rightarrow> ('a \<Rightarrow> ('e, 'b) res) \<Rightarrow> ('e, 'b) res" where
  "and_then (Ok x) f = f x"
| "and_then (Err e) f = Err e"
| "and_then Panic f = Panic"

text \<open>\<open>Result::unwrap\<close> and \<open>Result::expect\<close>: an error becomes a panic.\<close>

fun unwrap :: "('e, 'a) res \<Rightarrow> ('f, 'a) res" where
  "unwrap (Ok x) = Ok x"
| "unwrap (Err e) = Panic"
| "unwrap Panic = Panic"

text \<open>\<open>Result::map_err\<close>.\<close>

fun map_err :: "('e \<Rightarrow> 'f) \<Rightarrow> ('e, 'a) res \<Rightarrow> ('f, 'a) res" where
  "map_err f (Ok x) = Ok x"
| "map_err f (Err e) = Err (f e)"
| "map_err f Panic = Panic"

text \<open>\<open>Option::ok_or\<close>.\<close>

definition ok_or :: "'e \<Rightarrow> 'a option \<Rightarrow> ('e, 'a) res" where
  "ok_or e r = (case r of None \<Rightarrow> Err e | Some x \<Rightarrow> Ok x)"

lemma and_then_eq_Ok [res_simps]:
  "and_then r f = Ok y \<longleftrightarrow> (\<exists>x. r = Ok x \<and> f x = Ok y)"
  by (cases r) auto

lemma and_then_eq_Err [res_simps]:
  "and_then r f = Err e \<longleftrightarrow> r = Err e \<or> (\<exists>x. r = Ok x \<and> f x = Err e)"
  by (cases r) auto

lemma and_then_eq_Panic [res_simps]:
  "and_then r f = Panic \<longleftrightarrow> r = Panic \<or> (\<exists>x. r = Ok x \<and> f x = Panic)"
  by (cases r) auto

lemma unwrap_eq_Ok [res_simps]: "unwrap r = Ok x \<longleftrightarrow> r = Ok x"
  by (cases r) auto

lemma unwrap_eq_Err [res_simps]: "unwrap r = Err e \<longleftrightarrow> False"
  by (cases r) auto

lemma unwrap_eq_Panic [res_simps]: "unwrap r = Panic \<longleftrightarrow> (\<forall>x. r \<noteq> Ok x)"
  by (cases r) auto

lemma map_err_eq_Ok [res_simps]: "map_err f r = Ok x \<longleftrightarrow> r = Ok x"
  by (cases r) auto

lemma map_err_eq_Err [res_simps]: "map_err f r = Err e \<longleftrightarrow> (\<exists>d. r = Err d \<and> e = f d)"
  by (cases r) auto

lemma map_err_eq_Panic [res_simps]: "map_err f r = Panic \<longleftrightarrow> r = Panic"
  by (cases r) auto

lemma ok_or_eq_Ok [res_simps]: "ok_or e r = Ok x \<longleftrightarrow> r = Some x"
  by (cases r) (auto simp: ok_or_def)

lemma ok_or_eq_Err [res_simps]: "ok_or e r = Err d \<longleftrightarrow> r = None \<and> d = e"
  by (cases r) (auto simp: ok_or_def)

lemma ok_or_eq_Panic [res_simps]: "ok_or e r = Panic \<longleftrightarrow> False"
  by (cases r) (auto simp: ok_or_def)

section \<open>Byte slices\<close>

text \<open>\<open>buf[i..j]\<close>, for indices the caller has checked.\<close>

definition sub_slice :: "nat \<Rightarrow> nat \<Rightarrow> 'a list \<Rightarrow> 'a list" where
  "sub_slice i j xs = take (j - i) (drop i xs)"

text \<open>\<open>buf[i..i + src.len()].copy_from_slice(src)\<close>.\<close>

definition write_at :: "nat \<Rightarrow> 'a list \<Rightarrow> 'a list \<Rightarrow> 'a list" where
  "write_at i src xs = take i xs @ src @ drop (i + length src) xs"

lemma length_sub_slice [buf_simps]: "length (sub_slice i j xs) = min (j - i) (length xs - i)"
  by (simp add: sub_slice_def)

lemma length_write_at [buf_simps]:
  "i + length src \<le> length xs \<Longrightarrow> length (write_at i src xs) = length xs"
  by (simp add: write_at_def)

lemma nth_write_at [buf_simps]:
  assumes "i + length src \<le> length xs" "k < length xs"
  shows "write_at i src xs ! k =
    (if i \<le> k \<and> k < i + length src then src ! (k - i) else xs ! k)"
  using assms by (auto simp: write_at_def nth_append min_def)

lemma nth_sub_slice [buf_simps]:
  assumes "k < j - i" "i + k < length xs"
  shows "sub_slice i j xs ! k = xs ! (i + k)"
  using assms by (simp add: sub_slice_def)

lemma sub_slice_append_left [buf_simps]: "j \<le> length xs \<Longrightarrow> sub_slice i j (xs @ ys) = sub_slice i j xs"
  by (cases "i \<le> length xs") (simp_all add: sub_slice_def)

lemma sub_slice_eqI:
  assumes "length xs = length ys"
    and "\<And>k. i \<le> k \<Longrightarrow> k < j \<Longrightarrow> k < length xs \<Longrightarrow> xs ! k = ys ! k"
  shows "sub_slice i j xs = sub_slice i j ys"
  by (rule nth_equalityI) (use assms in \<open>auto simp: buf_simps\<close>)

lemma sub_slice_write_at_same [buf_simps]:
  assumes "i + length src \<le> length xs" "j = i + length src"
  shows "sub_slice i j (write_at i src xs) = src"
  using assms by (simp add: sub_slice_def write_at_def)

lemma sub_slice_write_at_disjoint [buf_simps]:
  assumes "k + length src \<le> length xs" "j \<le> k \<or> k + length src \<le> i"
  shows "sub_slice i j (write_at k src xs) = sub_slice i j xs"
  by (rule sub_slice_eqI) (use assms in \<open>auto simp: buf_simps\<close>)

section \<open>Big-endian integers\<close>

text \<open>
  The value of a big-endian byte string and the \<open>n\<close>-byte big-endian encoding of a number:
  \<open>from_be_bytes\<close> and \<open>to_be_bytes\<close> of the Rust integer types, at every width.
\<close>

fun be_val :: "bytes \<Rightarrow> nat" where
  "be_val [] = 0"
| "be_val (b # bs) = unat b * 256 ^ length bs + be_val bs"

fun nat_be :: "nat \<Rightarrow> nat \<Rightarrow> bytes" where
  "nat_be 0 x = []"
| "nat_be (Suc n) x = nat_be n (x div 256) @ [word_of_nat x]"

definition be16 :: "u16 \<Rightarrow> bytes" where
  "be16 w = nat_be 2 (unat w)"

definition from_be16 :: "u8 \<Rightarrow> u8 \<Rightarrow> u16" where
  "from_be16 a b = word_of_nat (be_val [a, b])"

definition be32 :: "u32 \<Rightarrow> bytes" where
  "be32 w = nat_be 4 (unat w)"

definition from_be32 :: "u8 \<Rightarrow> u8 \<Rightarrow> u8 \<Rightarrow> u8 \<Rightarrow> u32" where
  "from_be32 a b c d = word_of_nat (be_val [a, b, c, d])"

lemma unat_u8_less [simp]: "unat (b :: u8) < 256"
  using unsigned_less [of b, where ?'a = nat] by simp

lemma unat_u8_le [simp]: "unat (b :: u8) \<le> 255"
  using unat_u8_less [of b] by linarith

lemma unat_u16_less [simp]: "unat (w :: u16) < 65536"
  using unsigned_less [of w, where ?'a = nat] by simp

lemma unat_u32_less [simp]: "unat (w :: u32) < 4294967296"
  using unsigned_less [of w, where ?'a = nat] by simp

lemma be_val_append: "be_val (xs @ ys) = be_val xs * 256 ^ length ys + be_val ys"
  by (induction xs) (simp_all add: algebra_simps power_add)

lemma be_val_bound: "be_val bs < 256 ^ length bs"
proof (induction bs)
  case (Cons b bs)
  have "unat b * 256 ^ length bs + be_val bs < (unat b + 1) * 256 ^ length bs"
    using Cons.IH by simp
  also have "\<dots> \<le> 256 * 256 ^ length bs"
    using unat_u8_less [of b] by (intro mult_right_mono) auto
  finally show ?case by simp
qed simp

lemma length_nat_be [simp, buf_simps]: "length (nat_be n x) = n"
  by (induction n arbitrary: x) simp_all

lemma be_val_nat_be: "be_val (nat_be n x) = x mod 256 ^ n"
proof (induction n arbitrary: x)
  case (Suc n)
  have "be_val (nat_be (Suc n) x) = (x div 256 mod 256 ^ n) * 256 + x mod 256"
    by (simp add: be_val_append Suc.IH unat_of_nat)
  also have "\<dots> = x mod (256 * 256 ^ n)"
    by (simp add: mod_mult2_eq)
  finally show ?case by simp
qed simp

lemma nat_be_be_val: "nat_be (length bs) (be_val bs) = bs"
proof (induction bs rule: rev_induct)
  case (snoc b bs)
  have "word_of_nat (be_val bs * 256 + unat b) = (b :: u8)"
    by (simp add: word_unat_eq_iff unat_of_nat del: of_nat_add of_nat_mult)
  moreover have "(be_val bs * 256 + unat b) div 256 = be_val bs"
    using unat_u8_less [of b] by simp
  ultimately show ?case
    using snoc.IH by (simp add: be_val_append)
qed simp

lemma length_be16 [simp, buf_simps]: "length (be16 w) = 2"
  by (simp add: be16_def)

lemma length_be32 [simp, buf_simps]: "length (be32 w) = 4"
  by (simp add: be32_def)

lemma be_val_be16 [simp]: "be_val (be16 w) = unat w"
  using unat_u16_less [of w] by (simp add: be16_def be_val_nat_be)

lemma be_val_be32 [simp]: "be_val (be32 w) = unat w"
  using unat_u32_less [of w] by (simp add: be32_def be_val_nat_be)

lemma unat_word_of_nat: "n < 2 ^ LENGTH('a) \<Longrightarrow> unat (word_of_nat n :: 'a::len word) = n"
  by (simp add: unat_of_nat)

lemma unat_from_be16: "unat (from_be16 a b) = unat a * 256 + unat b"
proof -
  have "be_val [a, b] < 2 ^ LENGTH(16)"
    using be_val_bound [of "[a, b]"] by simp
  from unat_word_of_nat [OF this] show ?thesis by (simp add: from_be16_def)
qed

lemma unat_from_be32:
  "unat (from_be32 a b c d) = unat a * 16777216 + unat b * 65536 + unat c * 256 + unat d"
proof -
  have "be_val [a, b, c, d] < 2 ^ LENGTH(32)"
    using be_val_bound [of "[a, b, c, d]"] by simp
  from unat_word_of_nat [OF this] show ?thesis by (simp add: from_be32_def)
qed

lemma unat_ucast_u8: "unat (ucast (w :: 'a::len word) :: u8) = unat w mod 256"
  by (simp add: unsigned_ucast_eq take_bit_eq_mod)

lemma unat_drop_bit: "unat (drop_bit n (w :: 'a::len word)) = unat w div 2 ^ n"
proof -
  have "unat (drop_bit n w) = drop_bit n (unat w)"
    by (simp add: unsigned_drop_bit_eq take_bit_nat_eq_self)
  also have "\<dots> = unat w div 2 ^ n"
    by (rule drop_bit_eq_div)
  finally show ?thesis .
qed

lemma unat_ucast_up:
  "LENGTH('a) \<le> LENGTH('b) \<Longrightarrow> unat (ucast (w :: 'a::len word) :: 'b::len word) = unat w"
  by (simp add: unsigned_ucast_eq take_bit_nat_eq_self less_le_trans [OF unsigned_less])

lemma unat_take_bit: "unat (take_bit n (w :: 'a::len word)) = unat w mod 2 ^ n"
proof -
  have "unat (take_bit n w) = take_bit n (unat w)"
    by (simp add: unsigned_take_bit_eq)
  then show ?thesis by (simp add: take_bit_eq_mod)
qed

lemma unat_push_bit:
  assumes "unat w * 2 ^ n < 2 ^ LENGTH('a)"
  shows "unat (push_bit n (w :: 'a::len word)) = unat w * 2 ^ n"
proof -
  have "unat (push_bit n w) = take_bit LENGTH('a) (push_bit n (unat w))"
    by (simp add: unsigned_push_bit_eq)
  then show ?thesis
    using assms by (simp add: push_bit_eq_mult take_bit_nat_eq_self)
qed

text \<open>
  Shifting a word left and or-ing a value into the freed low bits is an addition, the way
  the sources assemble integers from bytes and set flags above a field.
\<close>

lemma or_shift_add:
  fixes a b :: "'a::len word"
  assumes "unat b < 2 ^ n"
  shows "push_bit n a OR b = push_bit n a + b"
proof -
  have "take_bit n b = b"
    using assms by (simp add: word_unat_eq_iff unat_take_bit)
  then have low: "m < n" if "bit b m" for m
    using that by (metis bit_take_bit_iff)
  have "push_bit n a AND b = 0"
    by (rule bit_eqI) (auto simp: bit_simps dest: low)
  then show ?thesis by (simp add: disjunctive_add_eq_or)
qed

lemma unat_shift_or:
  fixes a b :: "'a::len word"
  assumes "unat b < 2 ^ n" "unat a * 2 ^ n + unat b < 2 ^ LENGTH('a)"
  shows "unat (push_bit n a OR b) = unat a * 2 ^ n + unat b"
proof -
  have "unat (push_bit n a) = unat a * 2 ^ n"
    using assms(2) by (intro unat_push_bit) linarith
  then show ?thesis
    using assms by (simp add: or_shift_add unat_word_ariths)
qed

lemma unat_add_1:
  fixes a b :: "'a::len word"
  assumes "unat a < unat b"
  shows "unat (a + 1) = unat a + 1"
proof -
  have "unat a + 1 < 2 ^ LENGTH('a)" using assms unsigned_less [of b, where ?'a = nat] by linarith
  then show ?thesis by (simp add: unat_word_ariths)
qed

section \<open>Checked arithmetic\<close>

text \<open>\<open>checked_add\<close> and \<open>saturating_add\<close> of the unsigned integer types.\<close>

definition checked_add :: "'a::len word \<Rightarrow> 'a word \<Rightarrow> 'a word option" where
  "checked_add a b = (if unat a + unat b < 2 ^ LENGTH('a) then Some (a + b) else None)"

definition saturating_add :: "'a::len word \<Rightarrow> 'a word \<Rightarrow> 'a word" where
  "saturating_add a b = (if unat a + unat b < 2 ^ LENGTH('a) then a + b else - 1)"

lemma checked_add_Some: "checked_add a b = Some c \<longleftrightarrow> unat c = unat a + unat b"
proof
  assume "unat c = unat a + unat b"
  moreover have "unat c < 2 ^ LENGTH('a)" by (rule unsigned_less)
  ultimately show "checked_add a b = Some c"
    by (simp add: checked_add_def word_unat_eq_iff unat_word_ariths)
qed (auto simp: checked_add_def unat_word_ariths split: if_splits)

lemma checked_add_None: "checked_add a b = None \<longleftrightarrow> 2 ^ LENGTH('a) \<le> unat a + unat (b :: 'a::len word)"
  by (auto simp: checked_add_def not_less)

section \<open>Iteration of hash maps\<close>

text \<open>
  The order in which a \<open>HashMap\<close> or \<open>DashMap\<close> is iterated is not determined. It is an argument of
  the functions that iterate, of which every entry, once, in some order, is known.
\<close>

type_synonym ('k, 'v) map_iter = "('k \<rightharpoonup> 'v) \<Rightarrow> ('k \<times> 'v) list"

definition hash_iter :: "('k, 'v) map_iter \<Rightarrow> bool" where
  "hash_iter iter \<longleftrightarrow> (\<forall>m. finite (dom m) \<longrightarrow> set (iter m) = {(k, v). m k = Some v} \<and> distinct (map fst (iter m)))"

text \<open>An iteration in ascending order of the keys.\<close>

definition sorted_iter :: "('k::linorder, 'v) map_iter" where
  "sorted_iter m = map (\<lambda>k. (k, the (m k))) (sorted_list_of_set (dom m))"

lemma hash_iter_sorted: "hash_iter sorted_iter"
  by (force simp: hash_iter_def sorted_iter_def comp_def)

end
