(* ===== verification/Net_Types.thy ===== *)
theory Net_Types
  imports Straw_Prelude
begin

unbundle bit_operations_syntax

text \<open>
  The address types of \<open>std::net\<close> that every component uses, with the classification
  predicates the sources call, and the interface of the \<open>ipnet\<close> crate. The crate is not part
  of the repository, so its functions are the fields of a record the model takes as an
  argument; the locale \<open>ipnet\<close> states the documented behaviour the code relies on, and is
  interpreted on a reference implementation of CIDR prefixes.
\<close>

section \<open>Addresses\<close>

type_synonym ipv4 = u32
type_synonym ipv6 = u128

datatype ip_addr = V4 ipv4 | V6 ipv6

datatype sock_addr = SocketAddr (sa_ip: ip_addr) (sa_port: u16)

fun is_ipv4 :: "ip_addr \<Rightarrow> bool" where
  "is_ipv4 (V4 a) = True"
| "is_ipv4 (V6 a) = False"

definition octets4 :: "ipv4 \<Rightarrow> bytes" where
  "octets4 a = nat_be 4 (unat a)"

definition octets6 :: "ipv6 \<Rightarrow> bytes" where
  "octets6 a = nat_be 16 (unat a)"

definition of_octets4 :: "bytes \<Rightarrow> ipv4" where
  "of_octets4 bs = word_of_nat (be_val bs)"

definition of_octets6 :: "bytes \<Rightarrow> ipv6" where
  "of_octets6 bs = word_of_nat (be_val bs)"

fun ip_octets :: "ip_addr \<Rightarrow> bytes" where
  "ip_octets (V4 a) = octets4 a"
| "ip_octets (V6 a) = octets6 a"

text \<open>The number an address stands for, within its family.\<close>

fun ip_val :: "ip_addr \<Rightarrow> nat" where
  "ip_val (V4 a) = unat a"
| "ip_val (V6 a) = unat a"

lemma unat_u128_less [simp]: "unat (w :: u128) < 340282366920938463463374607431768211456"
  using unsigned_less [of w, where ?'a = nat] by simp

lemma length_octets4 [simp, buf_simps]: "length (octets4 a) = 4"
  by (simp add: octets4_def)

lemma length_octets6 [simp, buf_simps]: "length (octets6 a) = 16"
  by (simp add: octets6_def)

lemma of_octets4_octets4 [simp]: "of_octets4 (octets4 a) = a"
  using unat_u32_less [of a] by (simp add: of_octets4_def octets4_def be_val_nat_be)

lemma of_octets6_octets6 [simp]: "of_octets6 (octets6 a) = a"
  using unat_u128_less [of a] by (simp add: of_octets6_def octets6_def be_val_nat_be)

lemma octets4_of_octets4: "length bs = 4 \<Longrightarrow> octets4 (of_octets4 bs) = bs"
  using be_val_bound [of bs] nat_be_be_val [of bs]
  by (simp add: of_octets4_def octets4_def unat_word_of_nat)

lemma octets6_of_octets6: "length bs = 16 \<Longrightarrow> octets6 (of_octets6 bs) = bs"
  using be_val_bound [of bs] nat_be_be_val [of bs]
  by (simp add: of_octets6_def octets6_def unat_word_of_nat)

text \<open>
  \<open>IpAddr\<close> derives its order: every IPv4 address comes before every IPv6 address, and
  within a family the octets compare lexicographically, which is numeric order.
\<close>

instantiation ip_addr :: linorder
begin

fun less_eq_ip_addr :: "ip_addr \<Rightarrow> ip_addr \<Rightarrow> bool" where
  "less_eq_ip_addr (V4 a) (V4 b) = (a \<le> b)"
| "less_eq_ip_addr (V4 a) (V6 b) = True"
| "less_eq_ip_addr (V6 a) (V4 b) = False"
| "less_eq_ip_addr (V6 a) (V6 b) = (a \<le> b)"

definition less_ip_addr :: "ip_addr \<Rightarrow> ip_addr \<Rightarrow> bool" where
  "less_ip_addr a b \<longleftrightarrow> a \<le> b \<and> \<not> b \<le> a"

instance
proof
  fix x y z :: ip_addr
  show "x < y \<longleftrightarrow> x \<le> y \<and> \<not> y \<le> x" by (simp add: less_ip_addr_def)
  show "x \<le> x" by (cases x) simp_all
  show "x \<le> y \<Longrightarrow> y \<le> z \<Longrightarrow> x \<le> z" by (cases x; cases y; cases z) auto
  show "x \<le> y \<Longrightarrow> y \<le> x \<Longrightarrow> x = y" by (cases x; cases y) auto
  show "x \<le> y \<or> y \<le> x" by (cases x; cases y) auto
qed

end

lemma less_ip_addr_simps [simp]:
  "V4 a < V4 b \<longleftrightarrow> a < b" "V6 c < V6 d \<longleftrightarrow> c < d" "V4 a < V6 d" "\<not> V6 c < V4 b"
  by (auto simp: less_ip_addr_def)

lemma ip_le_iff_val:
  "is_ipv4 a = is_ipv4 b \<Longrightarrow> a \<le> b \<longleftrightarrow> ip_val a \<le> ip_val b"
  by (cases a; cases b) (simp_all add: word_le_nat_alt)

lemma ip_less_iff_val:
  "is_ipv4 a = is_ipv4 b \<Longrightarrow> a < b \<longleftrightarrow> ip_val a < ip_val b"
  by (auto simp: less_ip_addr_def ip_le_iff_val)

lemma ip_eq_iff_val:
  "is_ipv4 a = is_ipv4 b \<Longrightarrow> a = b \<longleftrightarrow> ip_val a = ip_val b"
  by (cases a; cases b) (simp_all add: word_unat_eq_iff)

subsection \<open>Three-way comparison\<close>

text \<open>
  \<open>std::cmp::Ordering\<close>, \<open>then_with\<close>, the lexicographic comparison of slices, and the stable
  \<open>sort_by\<close>.
\<close>

datatype ordering = Less | Equal | Greater

fun then_with :: "ordering \<Rightarrow> ordering \<Rightarrow> ordering" where
  "then_with Equal c = c"
| "then_with Less c = Less"
| "then_with Greater c = Greater"

definition cmp :: "'a::linorder \<Rightarrow> 'a \<Rightarrow> ordering" where
  "cmp a b = (if a < b then Less else if a = b then Equal else Greater)"

fun cmp_slice :: "bytes \<Rightarrow> bytes \<Rightarrow> ordering" where
  "cmp_slice [] [] = Equal"
| "cmp_slice [] (y # ys) = Less"
| "cmp_slice (x # xs) [] = Greater"
| "cmp_slice (x # xs) (y # ys) = then_with (cmp x y) (cmp_slice xs ys)"

fun insert_by :: "('a \<Rightarrow> 'a \<Rightarrow> ordering) \<Rightarrow> 'a \<Rightarrow> 'a list \<Rightarrow> 'a list" where
  "insert_by c x [] = [x]"
| "insert_by c x (y # ys) = (if c x y = Greater then y # insert_by c x ys else x # y # ys)"

definition sort_by :: "('a \<Rightarrow> 'a \<Rightarrow> ordering) \<Rightarrow> 'a list \<Rightarrow> 'a list" where
  "sort_by c xs = foldr (insert_by c) xs []"

lemma cmp_Greater: "cmp a b = Greater \<longleftrightarrow> b < a"
  by (auto simp: cmp_def)

lemma sort_by_key:
  assumes "\<And>x y. c x y = Greater \<longleftrightarrow> f y < f x"
  shows "sort_by c xs = sort_key f xs"
proof -
  have "insert_by c x ys = insort_key f x ys" for x ys
    by (induction ys) (auto simp: assms not_less)
  then have "insert_by c = insort_key f" by (intro ext)
  then show ?thesis by (simp add: sort_by_def sort_key_def)
qed

lemma cmp_slice_be_val:
  "length xs = length ys \<Longrightarrow> cmp_slice xs ys = cmp (be_val xs) (be_val ys)"
proof (induction xs ys rule: list_induct2)
  case (Cons x xs y ys)
  have "unat a * 256 ^ length xs + be_val as < unat b * 256 ^ length xs + be_val bs"
    if "unat a < unat b" "length as = length xs" for a b :: u8 and as bs
  proof -
    have "unat a * 256 ^ length xs + be_val as < Suc (unat a) * 256 ^ length xs"
      using be_val_bound [of as] that by simp
    also have "\<dots> \<le> unat b * 256 ^ length xs" using that by (intro mult_le_mono1) simp
    finally show ?thesis by linarith
  qed
  from this [of x y xs ys] this [of y x ys xs] Cons show ?case
    by (cases x y rule: linorder_cases) (auto simp: cmp_def word_less_nat_alt)
qed (simp add: cmp_def)

subsection \<open>Classification\<close>

text \<open>The predicates of \<open>Ipv4Addr\<close> and \<open>Ipv6Addr\<close>; \<open>segment0\<close> is \<open>segments()[0]\<close>.\<close>

definition is_unspecified4 :: "ipv4 \<Rightarrow> bool" where
  "is_unspecified4 a \<longleftrightarrow> a = 0"

definition is_loopback4 :: "ipv4 \<Rightarrow> bool" where
  "is_loopback4 a \<longleftrightarrow> drop_bit 24 a = 127"

definition is_link_local4 :: "ipv4 \<Rightarrow> bool" where
  "is_link_local4 a \<longleftrightarrow> drop_bit 16 a = 0xA9FE"

definition is_broadcast4 :: "ipv4 \<Rightarrow> bool" where
  "is_broadcast4 a \<longleftrightarrow> a = 0xFFFFFFFF"

definition is_multicast4 :: "ipv4 \<Rightarrow> bool" where
  "is_multicast4 a \<longleftrightarrow> drop_bit 28 a = 0xE"

definition is_private4 :: "ipv4 \<Rightarrow> bool" where
  "is_private4 a \<longleftrightarrow>
     drop_bit 24 a = 10 \<or> drop_bit 20 a = 0xAC1 \<or> drop_bit 16 a = 0xC0A8"

definition is_unspecified6 :: "ipv6 \<Rightarrow> bool" where
  "is_unspecified6 a \<longleftrightarrow> a = 0"

definition is_loopback6 :: "ipv6 \<Rightarrow> bool" where
  "is_loopback6 a \<longleftrightarrow> a = 1"

definition is_multicast6 :: "ipv6 \<Rightarrow> bool" where
  "is_multicast6 a \<longleftrightarrow> drop_bit 120 a = 0xFF"

definition segment0 :: "ipv6 \<Rightarrow> u16" where
  "segment0 a = ucast (drop_bit 112 a)"

fun is_unspecified :: "ip_addr \<Rightarrow> bool" where
  "is_unspecified (V4 a) = is_unspecified4 a"
| "is_unspecified (V6 a) = is_unspecified6 a"

fun is_loopback :: "ip_addr \<Rightarrow> bool" where
  "is_loopback (V4 a) = is_loopback4 a"
| "is_loopback (V6 a) = is_loopback6 a"

section \<open>The interface of the ipnet crate\<close>

text \<open>
  \<open>Ipv4Net\<close> and \<open>Ipv6Net\<close> are an address with a prefix length (their accessors \<open>addr\<close> and
  \<open>prefix_len\<close>), \<open>IpNet\<close> is either. Every computed operation is a field of the record.
\<close>

datatype ipv4_net = Ipv4Net (addr4: ipv4) (plen4: u8)
datatype ipv6_net = Ipv6Net (addr6: ipv6) (plen6: u8)
datatype ip_net = NetV4 ipv4_net | NetV6 ipv6_net

fun net_prefix_len :: "ip_net \<Rightarrow> u8" where
  "net_prefix_len (NetV4 n) = plen4 n"
| "net_prefix_len (NetV6 n) = plen6 n"

fun net_is_v4 :: "ip_net \<Rightarrow> bool" where
  "net_is_v4 (NetV4 n) = True"
| "net_is_v4 (NetV6 n) = False"

fun net_addr :: "ip_net \<Rightarrow> ip_addr" where
  "net_addr (NetV4 n) = V4 (addr4 n)"
| "net_addr (NetV6 n) = V6 (addr6 n)"

record ipnet_api =
  v4_network :: "ipv4_net \<Rightarrow> ipv4"
  v4_broadcast :: "ipv4_net \<Rightarrow> ipv4"
  v4_contains :: "ipv4_net \<Rightarrow> ipv4 \<Rightarrow> bool"
  v6_network :: "ipv6_net \<Rightarrow> ipv6"
  v6_contains :: "ipv6_net \<Rightarrow> ipv6 \<Rightarrow> bool"
  net_new :: "ip_addr \<Rightarrow> u8 \<Rightarrow> ip_net option"
  net_trunc :: "ip_net \<Rightarrow> ip_net"
  net_network :: "ip_net \<Rightarrow> ip_addr"
  net_broadcast :: "ip_net \<Rightarrow> ip_addr"
  net_contains :: "ip_net \<Rightarrow> ip_addr \<Rightarrow> bool"
  v4_subnets :: "ipv4 \<Rightarrow> ipv4 \<Rightarrow> ipv4_net list"
  v6_subnets :: "ipv6 \<Rightarrow> ipv6 \<Rightarrow> ipv6_net list"

text \<open>A prefix is valid when its length does not exceed the width of its family.\<close>

fun net_bits :: "ip_net \<Rightarrow> nat" where
  "net_bits (NetV4 n) = 32"
| "net_bits (NetV6 n) = 128"

definition net_valid :: "ip_net \<Rightarrow> bool" where
  "net_valid n \<longleftrightarrow> unat (net_prefix_len n) \<le> net_bits n"

text \<open>First and last number of the block of \<open>2 ^ k\<close> numbers that holds \<open>v\<close>.\<close>

definition block_base :: "nat \<Rightarrow> nat \<Rightarrow> nat" where
  "block_base k v = v div 2 ^ k * 2 ^ k"

definition block_top :: "nat \<Rightarrow> nat \<Rightarrow> nat" where
  "block_top k v = block_base k v + (2 ^ k - 1)"

definition host_bits :: "ip_net \<Rightarrow> nat" where
  "host_bits n = net_bits n - unat (net_prefix_len n)"

locale ipnet =
  fixes api :: ipnet_api
  assumes network_v4: "net_network api (NetV4 m) = V4 (v4_network api m)"
    and network_v6: "net_network api (NetV6 m') = V6 (v6_network api m')"
    and network_val: "net_valid n \<Longrightarrow>
      ip_val (net_network api n) = block_base (host_bits n) (ip_val (net_addr n))"
    and broadcast_family: "is_ipv4 (net_broadcast api n) = net_is_v4 n"
    and broadcast_v4: "net_broadcast api (NetV4 m) = V4 (v4_broadcast api m)"
    and broadcast_val: "net_valid n \<Longrightarrow>
      ip_val (net_broadcast api n) = block_top (host_bits n) (ip_val (net_addr n))"
    and contains_v4: "net_contains api (NetV4 m) (V4 a4) = v4_contains api m a4"
    and contains_v6: "net_contains api (NetV6 m') (V6 a6) = v6_contains api m' a6"
    and contains_iff: "net_valid n \<Longrightarrow> net_contains api n a \<longleftrightarrow>
      is_ipv4 a = net_is_v4 n \<and> net_network api n \<le> a \<and> a \<le> net_broadcast api n"
    and new_v4: "net_new api (V4 a4) l =
      (if unat l \<le> 32 then Some (NetV4 (Ipv4Net a4 l)) else None)"
    and new_v6: "net_new api (V6 a6) l =
      (if unat l \<le> 128 then Some (NetV6 (Ipv6Net a6 l)) else None)"
    and trunc_len: "net_prefix_len (net_trunc api n) = net_prefix_len n"
    and trunc_addr: "net_addr (net_trunc api n) = net_network api n"
    and subnets_v4: "s4 \<le> e4 \<Longrightarrow>
      (\<exists>m \<in> set (v4_subnets api s4 e4). v4_contains api m a4) \<longleftrightarrow> s4 \<le> a4 \<and> a4 \<le> e4"
    and subnets_v6: "s6 \<le> e6 \<Longrightarrow>
      (\<exists>m \<in> set (v6_subnets api s6 e6). v6_contains api m a6) \<longleftrightarrow> s6 \<le> a6 \<and> a6 \<le> e6"
    and subnets_valid_v4: "m \<in> set (v4_subnets api s4 e4) \<Longrightarrow> net_valid (NetV4 m)"
    and subnets_valid_v6: "m' \<in> set (v6_subnets api s6 e6) \<Longrightarrow> net_valid (NetV6 m')"

lemma block_le: "block_base k v \<le> v" "v \<le> block_top k v"
proof -
  show "block_base k v \<le> v" by (simp add: block_base_def)
  have "v = block_base k v + v mod 2 ^ k" by (simp add: block_base_def div_mult_mod_eq)
  moreover have "v mod 2 ^ k < 2 ^ k" by simp
  ultimately show "v \<le> block_top k v" unfolding block_top_def by linarith
qed

lemma block_member_iff:
  "block_base k v \<le> x \<and> x \<le> block_top k v \<longleftrightarrow> x div 2 ^ k = v div 2 ^ k"
proof
  assume a: "block_base k v \<le> x \<and> x \<le> block_top k v"
  have "(v div 2 ^ k) * 2 ^ k \<le> x" using a by (simp add: block_base_def)
  moreover have "x < Suc (v div 2 ^ k) * 2 ^ k"
  proof -
    have "(1::nat) \<le> 2 ^ k" by simp
    then show ?thesis using a unfolding block_base_def block_top_def mult_Suc by linarith
  qed
  ultimately show "x div 2 ^ k = v div 2 ^ k"
    by (simp add: div_nat_eqI mult.commute)
next
  assume "x div 2 ^ k = v div 2 ^ k"
  then show "block_base k v \<le> x \<and> x \<le> block_top k v"
    using block_le [where k = k and v = x] by (simp add: block_base_def block_top_def)
qed

text \<open>Blocks are nested or disjoint.\<close>

lemma block_nested:
  assumes "j \<le> k" and "x div 2 ^ j = v div 2 ^ j"
  shows "x div 2 ^ k = v div (2 ^ k :: nat)"
proof -
  have "x div 2 ^ k = x div 2 ^ j div 2 ^ (k - j)" for x :: nat
    using assms(1) by (simp add: div_mult2_eq [symmetric] flip: power_add)
  then show ?thesis using assms(2) by simp
qed

context ipnet
begin

lemma contains_block:
  assumes "net_valid n"
  shows "net_contains api n a \<longleftrightarrow> is_ipv4 a = net_is_v4 n \<and>
    ip_val a div 2 ^ host_bits n = ip_val (net_addr n) div 2 ^ host_bits n"
proof -
  have fam: "is_ipv4 (net_network api n) = net_is_v4 n"
    by (cases n) (simp_all add: network_v4 network_v6)
  show ?thesis
    using assms fam
    by (auto simp: contains_iff ip_le_iff_val broadcast_family network_val broadcast_val
      block_member_iff [symmetric])
qed

lemma contains_family: "net_valid n \<Longrightarrow> net_contains api n a \<Longrightarrow> is_ipv4 a = net_is_v4 n"
  by (simp add: contains_iff)

lemma trunc_family: "net_is_v4 (net_trunc api n) = net_is_v4 n"
  using trunc_addr [of n] by (cases n; cases "net_trunc api n") (simp_all add: network_v4 network_v6)

lemma trunc_valid: "net_valid n \<Longrightarrow> net_valid (net_trunc api n)"
  using trunc_family [of n] trunc_len [of n]
  by (cases n; cases "net_trunc api n") (simp_all add: net_valid_def)

lemma trunc_host_bits: "host_bits (net_trunc api n) = host_bits n"
  using trunc_family [of n] trunc_len [of n]
  by (cases n; cases "net_trunc api n") (simp_all add: host_bits_def)

lemma trunc_contains:
  assumes "net_valid n"
  shows "net_contains api (net_trunc api n) a = net_contains api n a"
  using assms by (simp add: contains_block trunc_valid trunc_family trunc_host_bits trunc_addr
    network_val block_base_def)

lemma contains_addr: "net_valid n \<Longrightarrow> net_contains api n (net_addr n)"
  by (cases n) (simp_all add: contains_block)

lemma new_valid:
  "net_new api a l = Some n \<Longrightarrow> net_valid n \<and> net_addr n = a \<and> net_prefix_len n = l"
  by (cases a) (auto simp: new_v4 new_v6 net_valid_def split: if_splits)

text \<open>Two prefixes share an address iff one of them contains the other's base address.\<close>

lemma overlap_iff:
  assumes "net_valid m" "net_valid n"
  shows "(\<exists>a. net_contains api m a \<and> net_contains api n a) \<longleftrightarrow>
    net_contains api m (net_network api n) \<or> net_contains api n (net_network api m)"
proof -
  have base: "net_contains api k (net_network api k)" if "net_valid k" for k
    using contains_addr [OF trunc_valid [OF that]] that by (simp add: trunc_addr trunc_contains)
  have big: "net_contains api m (net_network api n)"
    if "net_valid m" "net_valid n" "host_bits n \<le> host_bits m"
      "net_contains api m a" "net_contains api n a" for m n a
    using that base [of n] block_nested [OF that(3), of "ip_val (net_network api n)" "ip_val a"]
    by (simp add: contains_block)
  show ?thesis
  proof
    assume "\<exists>a. net_contains api m a \<and> net_contains api n a"
    then obtain a where a: "net_contains api m a" "net_contains api n a" by auto
    show "net_contains api m (net_network api n) \<or> net_contains api n (net_network api m)"
    proof (cases "host_bits n \<le> host_bits m")
      case True
      then show ?thesis using big [OF assms True a] by simp
    next
      case False
      then have "host_bits m \<le> host_bits n" by simp
      then show ?thesis using big [OF assms(2,1) _ a(2,1)] by simp
    qed
  next
    assume "net_contains api m (net_network api n) \<or> net_contains api n (net_network api m)"
    then show "\<exists>a. net_contains api m a \<and> net_contains api n a"
      using base [OF assms(1)] base [OF assms(2)] by auto
  qed
qed

lemma v4_contains_iff:
  assumes "unat (plen4 m) \<le> 32"
  shows "v4_contains api m a \<longleftrightarrow> v4_network api m \<le> a \<and> a \<le> v4_broadcast api m"
  using contains_iff [of "NetV4 m" "V4 a"] assms
  by (simp add: net_valid_def contains_v4 network_v4 broadcast_v4)

lemma v4_network_unat:
  assumes "unat (plen4 m) \<le> 32"
  shows "unat (v4_network api m) = block_base (32 - unat (plen4 m)) (unat (addr4 m))"
  using network_val [of "NetV4 m"] assms by (simp add: net_valid_def network_v4 host_bits_def)

lemma v4_broadcast_unat:
  assumes "unat (plen4 m) \<le> 32"
  shows "unat (v4_broadcast api m) = block_top (32 - unat (plen4 m)) (unat (addr4 m))"
  using broadcast_val [of "NetV4 m"] assms by (simp add: net_valid_def broadcast_v4 host_bits_def)

lemma v6_contains_block:
  assumes "unat (plen6 m) \<le> 128"
  shows "v6_contains api m a \<longleftrightarrow>
    unat a div 2 ^ (128 - unat (plen6 m)) = unat (addr6 m) div 2 ^ (128 - unat (plen6 m))"
  using contains_block [of "NetV6 m" "V6 a"] assms
  by (simp add: net_valid_def contains_v6 host_bits_def)

lemma v6_network_unat:
  assumes "unat (plen6 m) \<le> 128"
  shows "unat (v6_network api m) = block_base (128 - unat (plen6 m)) (unat (addr6 m))"
  using network_val [of "NetV6 m"] assms by (simp add: net_valid_def network_v6 host_bits_def)

end

end
