(* ===== verification/Buf_Reader.thy ===== *)
theory Buf_Reader
  imports Net_Types
begin

text \<open>
  The error types of \<open>src/src/error.rs\<close> and the reading side of the \<open>Buf\<close> interface: a
  decoder takes the unread bytes and returns its outcome together with the bytes it left
  unread, also when it fails. The collection \<open>reader_simps\<close> computes chained reads.
\<close>

named_theorems reader_simps \<open>evaluation of chained reads\<close>

section \<open>Errors\<close>

datatype decode_error =
    Underflow
  | InvalidIpVersion u8
  | InvalidPrefixLength u8 u8
  | InvalidVarInt
  | BufferTooShort nat nat
  | TrailingBytes nat

datatype forwarding_error =
    MalformedPacket
  | SourceAddressViolation ip_addr
  | TtlExpired
  | LinkLocalDrop
  | MtuExceeded
  | NoRoute
  | NotAllowed ip_addr
  | Congested
  | RateLimited

section \<open>Actions\<close>

text \<open>
  Fallible code that changes a state, as a function of the state: the outcome and the state
  afterwards, which an error or a panic leaves as it was at that point. \<open>rbind\<close> is the sequence
  of two statements with the question-mark operator between them.
\<close>

type_synonym ('s, 'e, 'a) action = "'s \<Rightarrow> ('e, 'a) res \<times> 's"
type_synonym ('e, 'a) reader = "(bytes, 'e, 'a) action"

definition rret :: "'a \<Rightarrow> ('s, 'e, 'a) action" where
  "rret x s = (Ok x, s)"

definition rfail :: "'e \<Rightarrow> ('s, 'e, 'a) action" where
  "rfail e s = (Err e, s)"

definition rbind :: "('s, 'e, 'a) action \<Rightarrow> ('a \<Rightarrow> ('s, 'e, 'b) action) \<Rightarrow> ('s, 'e, 'b) action" where
  "rbind m f s = (case m s of
      (Ok x, rest) \<Rightarrow> f x rest
    | (Err e, rest) \<Rightarrow> (Err e, rest)
    | (Panic, rest) \<Rightarrow> (Panic, rest))"

text \<open>An outcome computed without touching the state.\<close>

definition rlift :: "('e, 'a) res \<Rightarrow> ('s, 'e, 'a) action" where
  "rlift r s = (r, s)"

text \<open>Reading a component of the state, and updating it.\<close>

definition peek :: "('s \<Rightarrow> 'a) \<Rightarrow> ('s, 'e, 'a) action" where
  "peek f s = (Ok (f s), s)"

definition upd :: "('s \<Rightarrow> 's) \<Rightarrow> ('s, 'e, unit) action" where
  "upd f s = (Ok (), f s)"

text \<open>A call whose error the caller inspects instead of propagating it.\<close>

definition attempt :: "('s, 'e, 'a) action \<Rightarrow> ('s, 'f, ('e, 'a) res) action" where
  "attempt m s = (case m s of
      (Ok x, s') \<Rightarrow> (Ok (Ok x), s')
    | (Err e, s') \<Rightarrow> (Ok (Err e), s')
    | (Panic, s') \<Rightarrow> (Panic, s'))"

section \<open>Readers\<close>

text \<open>A decoder is an action on the bytes not yet read.\<close>

text \<open>\<open>if buf.remaining() < n { return Err(e) }\<close>, with \<open>has_remaining\<close> as the case \<open>n = 1\<close>.\<close>

definition need :: "nat \<Rightarrow> 'e \<Rightarrow> ('e, unit) reader" where
  "need n e bs = (if length bs < n then (Err e, bs) else (Ok (), bs))"

text \<open>The same check when the error reports how many bytes were left.\<close>

definition need_avail :: "nat \<Rightarrow> (nat \<Rightarrow> 'e) \<Rightarrow> ('e, unit) reader" where
  "need_avail n e bs = (if length bs < n then (Err (e (length bs)), bs) else (Ok (), bs))"

text \<open>\<open>Buf::get_u8\<close>, \<open>Buf::copy_to_bytes\<close> and \<open>Buf::copy_to_slice\<close> panic past the end.\<close>

definition get_u8 :: "('e, u8) reader" where
  "get_u8 bs = (case bs of [] \<Rightarrow> (Panic, []) | b # rest \<Rightarrow> (Ok b, rest))"

definition copy_to_bytes :: "nat \<Rightarrow> ('e, bytes) reader" where
  "copy_to_bytes n bs =
     (if length bs < n then (Panic, bs) else (Ok (take n bs), drop n bs))"

lemma rret_simp [reader_simps]: "rret x bs = (Ok x, bs)"
  by (simp add: rret_def)

lemma rfail_simp [reader_simps]: "rfail e bs = (Err e, bs)"
  by (simp add: rfail_def)

lemma rlift_simp [reader_simps]: "rlift r bs = (r, bs)"
  by (simp add: rlift_def)

lemma rbind_Ok: "m bs = (Ok x, rest) \<Longrightarrow> rbind m f bs = f x rest"
  by (simp add: rbind_def)

lemma rbind_basic [reader_simps]:
  "rbind (rret x) f s = f x s"
  "rbind (rfail e) f s = (Err e, s)"
  "rbind (rlift r) f s = (case r of Ok x \<Rightarrow> f x s | Err e \<Rightarrow> (Err e, s) | Panic \<Rightarrow> (Panic, s))"
  "rbind (peek p) g s = g (p s) s"
  "rbind (upd u) h s = h () (u s)"
  "rbind (rbind m m') f s = rbind m (\<lambda>x. rbind (m' x) f) s"
  by (simp_all add: rbind_def rret_def rfail_def rlift_def peek_def upd_def split: res.split prod.split)

lemma rbind_prim [reader_simps]:
  "rbind (need n e) g bs = (if length bs < n then (Err e, bs) else g () bs)"
  "rbind (need_avail n e') g bs = (if length bs < n then (Err (e' (length bs)), bs) else g () bs)"
  "rbind get_u8 h (b # bs) = h b bs"
  "rbind (copy_to_bytes n) k bs =
    (if length bs < n then (Panic, bs) else k (take n bs) (drop n bs))"
  by (simp_all add: rbind_def need_def need_avail_def get_u8_def copy_to_bytes_def)

lemma rbind_eq_Ok:
  "rbind m f bs = (Ok y, rest) \<longleftrightarrow> (\<exists>x mid. m bs = (Ok x, mid) \<and> f x mid = (Ok y, rest))"
  by (auto simp: rbind_def split: prod.splits res.splits)

lemma need_simp [reader_simps]: "n \<le> length bs \<Longrightarrow> need n e bs = (Ok (), bs)"
  by (simp add: need_def)

lemma need_eq_Ok: "need n e bs = (Ok u, rest) \<longleftrightarrow> n \<le> length bs \<and> rest = bs"
  by (auto simp: need_def)

lemma need_avail_eq_Ok: "need_avail n e bs = (Ok u, rest) \<longleftrightarrow> n \<le> length bs \<and> rest = bs"
  by (auto simp: need_avail_def)

lemma get_u8_Cons [reader_simps]: "get_u8 (b # bs) = (Ok b, bs)"
  by (simp add: get_u8_def)

lemma get_u8_eq_Ok: "get_u8 bs = (Ok b, rest) \<longleftrightarrow> bs = b # rest"
  by (auto simp: get_u8_def split: list.splits)

lemma copy_to_bytes_append [reader_simps]:
  "length xs = n \<Longrightarrow> copy_to_bytes n (xs @ rest) = (Ok xs, rest)"
  by (simp add: copy_to_bytes_def)

lemma copy_to_bytes_eq_Ok:
  "copy_to_bytes n bs = (Ok xs, rest) \<longleftrightarrow> bs = xs @ rest \<and> length xs = n"
  by (auto simp: copy_to_bytes_def)

lemmas reader_elims = rbind_eq_Ok need_eq_Ok need_avail_eq_Ok get_u8_eq_Ok copy_to_bytes_eq_Ok

text \<open>
  A decoder that never panics: the bounds checks of the source come before every read. Each
  rule below lets the absence of panics be read off the structure of a decoder.
\<close>

definition no_panic :: "('s, 'e, 'a) action \<Rightarrow> bool" where
  "no_panic m \<longleftrightarrow> (\<forall>bs. fst (m bs) \<noteq> Panic)"

lemma no_panicD: "no_panic m \<Longrightarrow> m bs \<noteq> (Panic, rest)"
  unfolding no_panic_def by (metis fst_conv)

lemma no_panic_rret [intro]: "no_panic (rret x)"
  by (simp add: no_panic_def rret_def)

lemma no_panic_rfail [intro]: "no_panic (rfail e)"
  by (simp add: no_panic_def rfail_def)

lemma no_panic_need [intro]: "no_panic (need n e)"
  by (simp add: no_panic_def need_def)

lemma no_panic_rlift [intro]: "r \<noteq> Panic \<Longrightarrow> no_panic (rlift r)"
  by (simp add: no_panic_def rlift_def)

lemma no_panic_rbind [intro]: "no_panic m \<Longrightarrow> (\<And>x. no_panic (f x)) \<Longrightarrow> no_panic (rbind m f)"
  unfolding no_panic_def rbind_def by (auto split: prod.splits res.splits) (metis fst_conv)+

lemma no_panic_if [intro]: "no_panic m \<Longrightarrow> no_panic n \<Longrightarrow> no_panic (if b then m else n)"
  by simp

lemma no_panic_need_get [intro]:
  "(\<And>x. no_panic (f x)) \<Longrightarrow> no_panic (rbind (need 1 e) (\<lambda>_. rbind get_u8 f))"
  unfolding no_panic_def rbind_def need_def get_u8_def
  by (auto split: list.splits)

lemma no_panic_need_copy [intro]:
  "(\<And>x. no_panic (f x)) \<Longrightarrow> no_panic (rbind (need n e) (\<lambda>_. rbind (copy_to_bytes n) f))"
  unfolding no_panic_def rbind_def need_def copy_to_bytes_def by auto

lemma no_panic_need_avail_copy [intro]:
  "(\<And>x. no_panic (f x)) \<Longrightarrow> no_panic (rbind (need_avail n e) (\<lambda>_. rbind (copy_to_bytes n) f))"
  unfolding no_panic_def rbind_def need_avail_def copy_to_bytes_def by auto

section \<open>Lists of items\<close>

text \<open>
  The loop \<open>while payload.has_remaining() { items.push(decode(&mut payload)?) }\<close> that three
  capsule payloads share. It recurses only while the item decoder makes progress; an item
  decoder that consumes nothing would loop forever, and is given the outcome \<open>Panic\<close> here
  (no decoder of the program does).
\<close>

function decode_items :: "('e, 'a) reader \<Rightarrow> bytes \<Rightarrow> ('e, 'a list) res" where
  "decode_items dec payload =
     (if payload = [] then Ok []
      else (case dec payload of
          (Ok x, rest) \<Rightarrow>
            (if length rest < length payload
             then and_then (decode_items dec rest) (\<lambda>xs. Ok (x # xs)) else Panic)
        | (Err e, _) \<Rightarrow> Err e
        | (Panic, _) \<Rightarrow> Panic))"
  by pat_completeness auto
termination by (relation "measure (\<lambda>(dec, payload). length payload)") auto

declare decode_items.simps [simp del]

text \<open>
  The interface of an item codec: an encoder, a decoder and the well-formed items, with the
  one law that decoding an encoded item returns it and leaves what follows it unread.
\<close>

locale item_codec =
  fixes enc :: "'a \<Rightarrow> ('e, bytes) res"
    and dec :: "('e, 'a) reader"
    and wf :: "'a \<Rightarrow> bool"
  assumes enc_dec: "wf x \<Longrightarrow> \<exists>bs. enc x = Ok bs \<and> bs \<noteq> [] \<and> (\<forall>rest. dec (bs @ rest) = (Ok x, rest))"

text \<open>An encoder loop \<open>for item in items { encode(item, buf) }\<close>.\<close>

fun encode_items :: "('a \<Rightarrow> ('e, bytes) res) \<Rightarrow> 'a list \<Rightarrow> ('e, bytes) res" where
  "encode_items enc [] = Ok []"
| "encode_items enc (x # xs) =
     and_then (enc x) (\<lambda>b. and_then (encode_items enc xs) (\<lambda>bs. Ok (b @ bs)))"

context item_codec
begin

lemma items_roundtrip:
  "list_all wf xs \<Longrightarrow> \<exists>bs. encode_items enc xs = Ok bs \<and> decode_items dec bs = Ok xs"
proof (induction xs)
  case Nil
  then show ?case by (simp add: decode_items.simps)
next
  case (Cons x xs)
  then obtain b bs where b: "enc x = Ok b" "b \<noteq> []" "\<And>rest. dec (b @ rest) = (Ok x, rest)"
    and bs: "encode_items enc xs = Ok bs" "decode_items dec bs = Ok xs"
    using enc_dec [of x] by auto
  then have "decode_items dec (b @ bs) = Ok (x # xs)"
    by (simp add: decode_items.simps [of dec "b @ bs"])
  then show ?case using b bs by simp
qed

end

lemma decode_items_no_panic:
  assumes "no_panic dec" and "\<And>s x rest. dec s = (Ok x, rest) \<Longrightarrow> length rest < length s"
  shows "decode_items dec payload \<noteq> Panic"
proof (induction "length payload" arbitrary: payload rule: less_induct)
  case less
  show ?case
  proof (cases "dec payload")
    case (Pair r rest)
    then have "length rest < length payload" if "r = Ok x" for x using assms(2) that by blast
    moreover have "r \<noteq> Panic" using Pair no_panicD [OF assms(1)] by auto
    ultimately show ?thesis
      using Pair less by (subst decode_items.simps) (auto simp: and_then_eq_Panic split: res.split)
  qed
qed

text \<open>A codec whose items also report the number of bytes their encoding takes.\<close>

fun sum_lens :: "('a \<Rightarrow> ('e, nat) res) \<Rightarrow> 'a list \<Rightarrow> ('e, nat) res" where
  "sum_lens len [] = Ok 0"
| "sum_lens len (x # xs) = and_then (len x) (\<lambda>n. and_then (sum_lens len xs) (\<lambda>m. Ok (n + m)))"

locale sized_codec = item_codec enc dec wf
  for enc :: "'a \<Rightarrow> ('e, bytes) res" and dec and wf +
  fixes len :: "'a \<Rightarrow> ('e, nat) res"
  assumes enc_len: "wf x \<Longrightarrow> enc x = Ok bs \<Longrightarrow> len x = Ok (length bs)"
begin

lemma items_len:
  "list_all wf xs \<Longrightarrow> encode_items enc xs = Ok bs \<Longrightarrow> sum_lens len xs = Ok (length bs)"
  by (induction xs arbitrary: bs) (auto simp: and_then_eq_Ok enc_len)

end

end
