(* ===== verification/Varint.thy ===== *)
theory Varint
  imports Buf_Reader
begin

unbundle bit_operations_syntax

text \<open>
  QUIC variable-length integers, \<open>src/src/capsule/codec.rs\<close>: the encoder, the decoder with
  its bounds checks, and the length function, at 64-bit width.
\<close>

section \<open>Definitions\<close>

definition VARINT_MAX :: u64 where
  "VARINT_MAX = 0x3FFFFFFFFFFFFFFF"

definition varint_len :: "u64 \<Rightarrow> (decode_error, nat) res" where
  "varint_len val =
     (if val \<le> 63 then Ok 1
      else if val \<le> 16383 then Ok 2
      else if val \<le> 1073741823 then Ok 4
      else if val \<le> VARINT_MAX then Ok 8
      else Err InvalidVarInt)"

text \<open>The loop \<open>for _ in 1..len { val = (val << 8) | buf.get_u8() as u64 }\<close>.\<close>

fun read_more :: "nat \<Rightarrow> u64 \<Rightarrow> ('e, u64) reader" where
  "read_more 0 val = rret val"
| "read_more (Suc n) val = rbind get_u8 (\<lambda>b. read_more n (push_bit 8 val OR ucast b))"

definition read_varint :: "(decode_error, u64) reader" where
  "read_varint =
     rbind (need 1 Underflow) (\<lambda>_.
     rbind get_u8 (\<lambda>first.
       let len = (2 :: nat) ^ unat (drop_bit 6 first) in
       rbind (need (len - 1) Underflow) (\<lambda>_.
         read_more (len - 1) (ucast (first AND 0x3F)))))"

definition write_varint :: "u64 \<Rightarrow> (decode_error, bytes) res" where
  "write_varint val = and_then (varint_len val) (\<lambda>len.
     if len = 1 then Ok [ucast val]
     else if len = 2 then Ok [0x40 OR ucast (drop_bit 8 val), ucast val]
     else if len = 4 then
       Ok [0x80 OR ucast (drop_bit 24 val), ucast (drop_bit 16 val), ucast (drop_bit 8 val),
           ucast val]
     else if len = 8 then
       Ok [0xC0 OR ucast (drop_bit 56 val), ucast (drop_bit 48 val), ucast (drop_bit 40 val),
           ucast (drop_bit 32 val), ucast (drop_bit 24 val), ucast (drop_bit 16 val),
           ucast (drop_bit 8 val), ucast val]
     else Panic)"

section \<open>Reading\<close>

lemma unat_shift_in:
  fixes v :: u64
  assumes "unat v < 72057594037927936"
  shows "unat (push_bit 8 v OR ucast (b :: u8)) = unat v * 256 + unat b"
proof -
  have "unat v * 256 + unat b < 18446744073709551616" using assms unat_u8_less [of b] by linarith
  then show ?thesis
    using unat_shift_or [of "ucast b" 8 v] by (simp add: unat_ucast_up)
qed

lemma read_more_append:
  assumes "length bs = n" "unat w = unat v * 256 ^ n + be_val bs"
  shows "read_more n v (bs @ rest) = (Ok w, rest)"
  using assms
proof (induction n arbitrary: v bs)
  case 0
  then show ?case by (simp add: reader_simps word_unat_eq_iff)
next
  case (Suc n)
  then obtain b cs where bs: "bs = b # cs" "length cs = n" by (cases bs) auto
  have "unat v * 256 \<le> unat v * 256 ^ Suc n" by simp
  also have "\<dots> \<le> unat w" using Suc(3) by linarith
  finally have "unat v < 72057594037927936" using unsigned_less [of w, where ?'a = nat] by simp
  then have v: "unat (push_bit 8 v OR ucast b) = unat v * 256 + unat b" by (rule unat_shift_in)
  have "unat w = unat (push_bit 8 v OR ucast b) * 256 ^ n + be_val cs"
    using Suc.prems bs v by (simp add: algebra_simps)
  from Suc.IH [OF bs(2) this] show ?case using bs(1) by (simp add: reader_simps)
qed

text \<open>The value a varint of these bytes has: the first byte without its length tag.\<close>

lemma and_3F: "unat (b AND 0x3F :: u8) = unat b mod 64"
proof -
  have "b AND 0x3F = take_bit 6 b" by (simp add: take_bit_eq_mask mask_eq_exp_minus_1)
  then show ?thesis by (simp add: unat_take_bit)
qed

lemma tag_less: "unat (drop_bit 6 (b :: u8)) < 4"
  using unat_u8_less [of b] by (simp add: unat_drop_bit less_mult_imp_div_less)

definition tail_len :: "u8 \<Rightarrow> nat" where
  "tail_len b = 2 ^ unat (drop_bit 6 b) - 1"

definition varint_val :: "u8 \<Rightarrow> bytes \<Rightarrow> nat" where
  "varint_val b bs = unat b mod 64 * 256 ^ length bs + be_val bs"

lemma tail_len_cases: "tail_len b \<in> {0, 1, 3, 7}"
proof -
  have "unat (drop_bit 6 b) \<in> {0, 1, 2, 3}" using tag_less [of b] by auto
  then show ?thesis by (auto simp: tail_len_def)
qed

lemma varint_val_bound:
  assumes "length bs \<le> 7"
  shows "varint_val b bs < 2 ^ 62"
proof -
  have "varint_val b bs < (unat b mod 64 + 1) * 256 ^ length bs"
    using be_val_bound [of bs] by (simp add: varint_val_def)
  also have "\<dots> \<le> 64 * 256 ^ length bs"
    by (intro mult_le_mono1) (simp add: Suc_le_eq)
  also have "\<dots> \<le> 64 * 256 ^ (7::nat)"
    by (intro mult_le_mono2 power_increasing assms) simp
  finally show ?thesis by simp
qed

lemma read_varint_step:
  "read_varint (b # t) =
    (if length t < tail_len b then (Err Underflow, t)
     else read_more (tail_len b) (ucast (b AND 0x3F)) t)"
  by (simp add: read_varint_def reader_simps Let_def tail_len_def)

lemma read_varint_Cons:
  assumes "length bs = tail_len b" "unat w = varint_val b bs"
  shows "read_varint (b # bs @ rest) = (Ok w, rest)"
proof -
  have "read_more (tail_len b) (ucast (b AND 0x3F)) (bs @ rest) = (Ok w, rest)"
    using assms by (intro read_more_append) (simp_all add: unat_ucast_up and_3F varint_val_def)
  then show ?thesis
    using assms by (simp add: read_varint_step)
qed

lemma unat_of_varint_val:
  assumes "length bs = tail_len b"
  shows "unat (word_of_nat (varint_val b bs) :: u64) = varint_val b bs"
proof (rule unat_word_of_nat)
  have "length bs \<le> 7" using tail_len_cases [of b] assms by auto
  from varint_val_bound [OF this, of b] show "varint_val b bs < 2 ^ LENGTH(64)" by simp
qed

lemma read_varint_complete:
  assumes "tail_len b \<le> length t"
  shows "\<exists>v. read_varint (b # t) = (Ok v, drop (tail_len b) t) \<and>
    unat v = varint_val b (take (tail_len b) t)"
proof -
  let ?bs = "take (tail_len b) t"
  have l: "length ?bs = tail_len b" using assms by simp
  from read_varint_Cons [OF l unat_of_varint_val [OF l], of "drop (tail_len b) t"]
    unat_of_varint_val [OF l]
  show ?thesis by simp
qed

lemma read_varint_underflow:
  "read_varint [] = (Err Underflow, [])"
  "length t < tail_len b \<Longrightarrow> read_varint (b # t) = (Err Underflow, t)"
  by (simp_all add: read_varint_step) (simp add: read_varint_def reader_simps)

lemma read_varint_eq_Ok:
  "read_varint s = (Ok v, rest) \<longleftrightarrow>
   (\<exists>b bs. s = b # bs @ rest \<and> length bs = tail_len b \<and> unat v = varint_val b bs)"
proof
  assume a: "read_varint s = (Ok v, rest)"
  obtain b t where s: "s = b # t"
    using a read_varint_underflow(1) by (cases s) auto
  have t: "tail_len b \<le> length t"
    using a s read_varint_underflow(2) [of t b] by (cases "length t < tail_len b") auto
  show "\<exists>b bs. s = b # bs @ rest \<and> length bs = tail_len b \<and> unat v = varint_val b bs"
    using read_varint_complete [OF t] a s t
    by (intro exI [of _ b] exI [of _ "take (tail_len b) t"]) auto
qed (auto simp: read_varint_Cons)

lemma read_varint_max:
  assumes "read_varint s = (Ok v, rest)"
  shows "v \<le> VARINT_MAX"
proof -
  obtain b bs where b: "length bs = tail_len b" "unat v = varint_val b bs"
    using assms by (auto simp: read_varint_eq_Ok)
  have "length bs \<le> 7" using tail_len_cases [of b] b by auto
  then show "v \<le> VARINT_MAX"
    using varint_val_bound [of bs b] b by (simp add: word_le_nat_alt VARINT_MAX_def)
qed

lemma read_varint_shorter: "read_varint s = (Ok v, rest) \<Longrightarrow> length rest < length s"
  by (auto simp: read_varint_eq_Ok)

text \<open>A varint that was read is read the same whatever follows it.\<close>

lemma read_varint_stable:
  "read_varint s = (Ok v, rest) \<Longrightarrow> read_varint (s @ t) = (Ok v, rest @ t)"
  by (force simp: read_varint_eq_Ok)

lemma read_varint_Err: "read_varint s = (Err e, rest) \<Longrightarrow> e = Underflow"
  using read_varint_underflow read_varint_complete
  by (cases s) (simp, metis Pair_inject not_less res.distinct(1) res.inject(2))

lemma no_panic_read_varint [intro]: "no_panic read_varint"
  unfolding no_panic_def
proof
  fix s
  show "fst (read_varint s) \<noteq> Panic"
  proof (cases s)
    case (Cons b t)
    then show ?thesis
      using read_varint_underflow(2) [of t b] read_varint_complete [of b t] by fastforce
  qed (simp add: read_varint_underflow)
qed

section \<open>Writing\<close>

text \<open>A tagged leading byte: the two top bits hold the length, the rest the value.\<close>

lemma tagged_byte:
  assumes "unat x < 64"
  shows "unat (0x40 OR x :: u8) = 64 + unat x" "unat (0x80 OR x :: u8) = 128 + unat x"
    "unat (0xC0 OR x :: u8) = 192 + unat x"
proof -
  have "unat (push_bit 6 c OR x) = unat c * 64 + unat x" if "unat c < 4" for c :: u8
    using unat_shift_or [of x 6 c] assms that by simp
  from this [of 1] this [of 2] this [of 3] show
    "unat (0x40 OR x) = 64 + unat x" "unat (0x80 OR x) = 128 + unat x"
    "unat (0xC0 OR x) = 192 + unat x"
    by simp_all
qed

lemma nat_be_Cons:
  "nat_be (Suc n) x = word_of_nat (x div 256 ^ n) # nat_be n x"
proof (induction n arbitrary: x)
  case (Suc n)
  show ?case
    by (simp only: nat_be.simps(2) [of "Suc n"] Suc.IH [of "x div 256"])
       (simp add: div_mult2_eq)
qed simp

lemma nat_be_numeral:
  "nat_be 1 x = [word_of_nat x]"
  "nat_be 2 x = word_of_nat (x div 256) # nat_be 1 x"
  "nat_be 3 x = word_of_nat (x div 65536) # nat_be 2 x"
  "nat_be 4 x = word_of_nat (x div 16777216) # nat_be 3 x"
  "nat_be 5 x = word_of_nat (x div 4294967296) # nat_be 4 x"
  "nat_be 6 x = word_of_nat (x div 1099511627776) # nat_be 5 x"
  "nat_be 7 x = word_of_nat (x div 281474976710656) # nat_be 6 x"
  "nat_be 8 x = word_of_nat (x div 72057594037927936) # nat_be 7 x"
proof -
  show "nat_be 2 x = word_of_nat (x div 256) # nat_be 1 x" by (simp add: numeral_2_eq_2)
qed (use nat_be_Cons [of 2 x] nat_be_Cons [of 3 x] nat_be_Cons [of 4 x] nat_be_Cons [of 5 x]
    nat_be_Cons [of 6 x] nat_be_Cons [of 7 x] in simp_all)

lemma ucast_drop_bit: "ucast (drop_bit k (v :: u64)) = (word_of_nat (unat v div 2 ^ k) :: u8)"
  by (simp add: word_unat_eq_iff unat_ucast_u8 unat_drop_bit unat_of_nat)

lemma tail_len_alt: "tail_len b = 2 ^ (unat b div 64) - 1"
  by (simp add: tail_len_def unat_drop_bit)

lemma tagged_tail:
  assumes "unat x < 64"
  shows "tail_len x = 0" "tail_len (0x40 OR x) = 1" "tail_len (0x80 OR x) = 3"
    "tail_len (0xC0 OR x) = 7"
proof -
  have "(64 + unat x) div 64 = 1" "(128 + unat x) div 64 = 2" "(192 + unat x) div 64 = 3"
    using assms by linarith+
  then show "tail_len x = 0" "tail_len (0x40 OR x) = 1" "tail_len (0x80 OR x) = 3"
    "tail_len (0xC0 OR x) = 7"
    using assms by (simp_all add: tail_len_alt tagged_byte)
qed

lemma tagged_val:
  assumes "unat x < 64"
  shows "varint_val x bs = be_val (x # bs)" "varint_val (0x40 OR x) bs = be_val (x # bs)"
    "varint_val (0x80 OR x) bs = be_val (x # bs)" "varint_val (0xC0 OR x) bs = be_val (x # bs)"
proof -
  have "(k * 64 + unat x) mod 64 = unat x" for k using assms by simp
  from this [of 1] this [of 2] this [of 3]
  show "varint_val x bs = be_val (x # bs)" "varint_val (0x40 OR x) bs = be_val (x # bs)"
    "varint_val (0x80 OR x) bs = be_val (x # bs)" "varint_val (0xC0 OR x) bs = be_val (x # bs)"
    using assms by (simp_all add: varint_val_def tagged_byte)
qed

text \<open>The untagged bytes the encoder emits are the big-endian digits of the value.\<close>

lemma digits:
  "[ucast val] = nat_be 1 (unat (val :: u64))"
  "[ucast (drop_bit 8 val), ucast val] = nat_be 2 (unat val)"
  "[ucast (drop_bit 24 val), ucast (drop_bit 16 val), ucast (drop_bit 8 val), ucast val]
    = nat_be 4 (unat val)"
  "[ucast (drop_bit 56 val), ucast (drop_bit 48 val), ucast (drop_bit 40 val),
    ucast (drop_bit 32 val), ucast (drop_bit 24 val), ucast (drop_bit 16 val),
    ucast (drop_bit 8 val), ucast val] = nat_be 8 (unat val)"
  by (simp_all add: nat_be_numeral ucast_drop_bit)

lemma be_val_digits: "x < 256 ^ n \<Longrightarrow> be_val (nat_be n x) = x"
  by (simp add: be_val_nat_be)

lemma write_varint_props:
  assumes "val \<le> VARINT_MAX"
  shows "\<exists>b bs. write_varint val = Ok (b # bs) \<and> varint_len val = Ok (Suc (length bs)) \<and>
    length bs = tail_len b \<and> unat val = varint_val b bs"
proof -
  let ?d = "\<lambda>k. ucast (drop_bit k val) :: u8"
  have top: "unat (?d k) < 64" if "unat val < 64 * 2 ^ k" for k
    using that by (simp add: unat_ucast_u8 unat_drop_bit less_mult_imp_div_less mod_less)
  consider "val \<le> 63" | "\<not> val \<le> 63" "val \<le> 16383"
    | "\<not> val \<le> 16383" "val \<le> 1073741823" | "\<not> val \<le> 1073741823" by blast
  then show ?thesis
  proof cases
    case 1
    then have "unat val < 64" by (simp add: word_le_nat_alt)
    with top [of 0] show ?thesis
      using 1 digits(1) [of val] be_val_digits [of "unat val" 1]
      by (simp add: write_varint_def varint_len_def tagged_tail tagged_val)
  next
    case 2
    then have "unat val < 16384" by (simp add: word_le_nat_alt)
    with top [of 8] show ?thesis
      using 2 digits(2) [of val] be_val_digits [of "unat val" 2]
      by (simp add: write_varint_def varint_len_def tagged_tail tagged_val)
  next
    case 3
    then have "unat val < 1073741824" "\<not> val \<le> 63" by (simp_all add: word_le_nat_alt)
    with top [of 24] show ?thesis
      using 3 digits(3) [of val] be_val_digits [of "unat val" 4]
      by (simp add: write_varint_def varint_len_def tagged_tail tagged_val)
  next
    case 4
    then have "unat val < 4611686018427387904" "\<not> val \<le> 63" "\<not> val \<le> 16383"
      using assms by (simp_all add: word_le_nat_alt VARINT_MAX_def)
    with top [of 56] show ?thesis
      using 4 assms digits(4) [of val] be_val_digits [of "unat val" 8]
      by (simp add: write_varint_def varint_len_def tagged_tail tagged_val)
  qed
qed

lemma write_varint_too_big:
  "\<not> val \<le> VARINT_MAX \<Longrightarrow> write_varint val = Err InvalidVarInt \<and> varint_len val = Err InvalidVarInt"
proof -
  assume big: "\<not> val \<le> VARINT_MAX"
  have "\<not> val \<le> c" if "c \<le> VARINT_MAX" for c using big that order_trans by blast
  then have "varint_len val = Err InvalidVarInt"
    using big by (simp add: varint_len_def VARINT_MAX_def)
  then show ?thesis by (simp add: write_varint_def)
qed

lemma write_varint_Ok:
  "val \<le> VARINT_MAX \<Longrightarrow> \<exists>bs. write_varint val = Ok bs \<and> varint_len val = Ok (length bs) \<and>
    bs \<noteq> [] \<and> (\<forall>rest. read_varint (bs @ rest) = (Ok val, rest))"
  using write_varint_props [of val] by (force simp: read_varint_Cons)

interpretation varint: item_codec write_varint read_varint "\<lambda>v. v \<le> VARINT_MAX"
  by unfold_locales (use write_varint_Ok in blast)

section \<open>Properties\<close>

text \<open>
  Every integer up to \<open>VARINT_MAX\<close> is encoded to as many bytes as \<open>varint_len\<close> says, and
  decoding these bytes returns it and leaves what follows unread; every larger integer is
  refused with \<open>InvalidVarInt\<close>.
\<close>

theorem varint_roundtrip:
  "if val \<le> VARINT_MAX
   then \<exists>bs. write_varint val = Ok bs \<and> varint_len val = Ok (length bs) \<and>
     (\<forall>rest. read_varint (bs @ rest) = (Ok val, rest))
   else write_varint val = Err InvalidVarInt \<and> varint_len val = Err InvalidVarInt"
  using write_varint_Ok [of val] write_varint_too_big [of val] by auto

text \<open>
  \<open>varint_len\<close> is the length of the shortest encoding: whatever bytes \<open>read_varint\<close> accepts
  for a value, at least that many were consumed.
\<close>

lemma varint_shortest:
  assumes "read_varint s = (Ok v, rest)"
  shows "\<exists>n. varint_len v = Ok n \<and> n + length rest \<le> length s"
proof -
  obtain b bs where s: "s = b # bs @ rest" "length bs = tail_len b" "unat v = varint_val b bs"
    using assms by (auto simp: read_varint_eq_Ok)
  have "varint_val b bs < (unat b mod 64 + 1) * 256 ^ length bs"
    using be_val_bound [of bs] by (simp add: varint_val_def)
  also have "\<dots> \<le> 64 * 256 ^ length bs" by (intro mult_le_mono1) (simp add: Suc_le_eq)
  finally have "unat v < 64 * 256 ^ length bs" using s by simp
  moreover have "length bs \<in> {0, 1, 3, 7}" using tail_len_cases [of b] s by simp
  ultimately show ?thesis
    using s by (auto simp: varint_len_def word_le_nat_alt VARINT_MAX_def)
qed

lemma varint_shortest_witness:
  "\<exists>n. varint_len 5 = Ok n \<and> n + length [7 :: u8] \<le> length [0x40 :: u8, 5, 7]"
  by (rule varint_shortest)
     (simp add: read_varint_eq_Ok tail_len_alt varint_val_def exI [of _ "0x40"] exI [of _ "[5]"])

end
