(* ===== verification/Capsule.thy ===== *)
theory Capsule
  imports Varint "HOL-Library.Product_Lexorder"
begin

text \<open>
  The CONNECT-IP capsules of \<open>src/src/capsule\<close>: the three payloads with their encoders and
  decoders, the envelope, the stream reassembly of \<open>CapsuleBuffer\<close>, and the range arithmetic
  of ROUTE_ADVERTISEMENT (\<open>IpAddressRange::contains\<close>, \<open>merge_ranges\<close>).
\<close>

section \<open>Data\<close>

definition CAPSULE_ADDRESS_ASSIGN :: u64 where "CAPSULE_ADDRESS_ASSIGN = 1"
definition CAPSULE_ADDRESS_REQUEST :: u64 where "CAPSULE_ADDRESS_REQUEST = 2"
definition CAPSULE_ROUTE_ADVERTISEMENT :: u64 where "CAPSULE_ROUTE_ADVERTISEMENT = 3"

record assigned_address =
  aa_request_id :: u64
  aa_ip_version :: u8
  aa_ip_address :: ip_addr
  aa_prefix_length :: u8

record address_assign =
  assigned_addresses :: "assigned_address list"

record requested_address =
  ra_request_id :: u64
  ra_ip_version :: u8
  ra_ip_address :: ip_addr
  ra_prefix_length :: u8

record address_request =
  requested_addresses :: "requested_address list"

record ip_address_range =
  ir_ip_version :: u8
  ir_start_ip :: ip_addr
  ir_end_ip :: ip_addr
  ir_ip_protocol :: u8

record route_advertisement =
  ip_address_ranges :: "ip_address_range list"

datatype capsule =
    CapAddressAssign address_assign
  | CapAddressRequest address_request
  | CapRouteAdvertisement route_advertisement
  | CapUnknown u64 bytes

section \<open>Addresses and prefix lengths\<close>

definition decode_ip_address :: "u8 \<Rightarrow> (decode_error, ip_addr) reader" where
  "decode_ip_address ip_version =
     (if ip_version = 4 then
        rbind (need_avail 4 (\<lambda>avail. BufferTooShort 4 avail)) (\<lambda>_.
        rbind (copy_to_bytes 4) (\<lambda>octets. rret (V4 (of_octets4 octets))))
      else if ip_version = 6 then
        rbind (need_avail 16 (\<lambda>avail. BufferTooShort 16 avail)) (\<lambda>_.
        rbind (copy_to_bytes 16) (\<lambda>octets. rret (V6 (of_octets6 octets))))
      else rfail (InvalidIpVersion ip_version))"

definition validate_prefix_length :: "u8 \<Rightarrow> u8 \<Rightarrow> (decode_error, unit) res" where
  "validate_prefix_length ip_version prefix_len =
     (if ip_version = 4 then
        (if prefix_len > 32 then Err (InvalidPrefixLength ip_version prefix_len) else Ok ())
      else if ip_version = 6 then
        (if prefix_len > 128 then Err (InvalidPrefixLength ip_version prefix_len) else Ok ())
      else Err (InvalidIpVersion ip_version))"

section \<open>ADDRESS_ASSIGN\<close>

definition decode_assigned_address :: "(decode_error, assigned_address) reader" where
  "decode_assigned_address =
     rbind read_varint (\<lambda>request_id.
     rbind (need 1 Underflow) (\<lambda>_. rbind get_u8 (\<lambda>ip_version.
     rbind (decode_ip_address ip_version) (\<lambda>ip_address.
     rbind (need 1 Underflow) (\<lambda>_. rbind get_u8 (\<lambda>prefix_length.
     rbind (rlift (validate_prefix_length ip_version prefix_length)) (\<lambda>_.
     rret \<lparr>aa_request_id = request_id, aa_ip_version = ip_version,
           aa_ip_address = ip_address, aa_prefix_length = prefix_length\<rparr>)))))))"

definition encode_assigned_address :: "assigned_address \<Rightarrow> (decode_error, bytes) res" where
  "encode_assigned_address addr =
     and_then (unwrap (write_varint (aa_request_id addr))) (\<lambda>id.
       Ok (id @ [aa_ip_version addr] @ ip_octets (aa_ip_address addr) @ [aa_prefix_length addr]))"

definition assigned_address_len :: "assigned_address \<Rightarrow> (decode_error, nat) res" where
  "assigned_address_len addr =
     (let ip_len = (if aa_ip_version addr = 4 then 4 else 16) in
      and_then (unwrap (varint_len (aa_request_id addr))) (\<lambda>n. Ok (n + 1 + ip_len + 1)))"

definition assign_decode :: "bytes \<Rightarrow> (decode_error, address_assign) res" where
  "assign_decode payload =
     and_then (decode_items decode_assigned_address payload)
       (\<lambda>xs. Ok \<lparr>assigned_addresses = xs\<rparr>)"

definition assign_payload_len :: "address_assign \<Rightarrow> (decode_error, nat) res" where
  "assign_payload_len c = sum_lens assigned_address_len (assigned_addresses c)"

definition assign_encode :: "address_assign \<Rightarrow> (decode_error, bytes) res" where
  "assign_encode c =
     and_then (assign_payload_len c) (\<lambda>payload_len.
     and_then (unwrap (write_varint CAPSULE_ADDRESS_ASSIGN)) (\<lambda>t.
     and_then (unwrap (write_varint (word_of_nat payload_len))) (\<lambda>l.
     and_then (encode_items encode_assigned_address (assigned_addresses c)) (\<lambda>p.
       Ok (t @ l @ p)))))"

section \<open>ADDRESS_REQUEST\<close>

definition decode_requested_address :: "(decode_error, requested_address) reader" where
  "decode_requested_address =
     rbind read_varint (\<lambda>request_id.
     rbind (if request_id = 0 then rfail InvalidVarInt else rret ()) (\<lambda>_.
     rbind (need 1 Underflow) (\<lambda>_. rbind get_u8 (\<lambda>ip_version.
     rbind (decode_ip_address ip_version) (\<lambda>ip_address.
     rbind (need 1 Underflow) (\<lambda>_. rbind get_u8 (\<lambda>prefix_length.
     rbind (rlift (validate_prefix_length ip_version prefix_length)) (\<lambda>_.
     rret \<lparr>ra_request_id = request_id, ra_ip_version = ip_version,
           ra_ip_address = ip_address, ra_prefix_length = prefix_length\<rparr>))))))))"

definition encode_requested_address :: "requested_address \<Rightarrow> (decode_error, bytes) res" where
  "encode_requested_address addr =
     and_then (unwrap (write_varint (ra_request_id addr))) (\<lambda>id.
       Ok (id @ [ra_ip_version addr] @ ip_octets (ra_ip_address addr) @ [ra_prefix_length addr]))"

definition requested_address_len :: "requested_address \<Rightarrow> (decode_error, nat) res" where
  "requested_address_len addr =
     (let ip_len = (if ra_ip_version addr = 4 then 4 else 16) in
      and_then (unwrap (varint_len (ra_request_id addr))) (\<lambda>n. Ok (n + 1 + ip_len + 1)))"

definition request_decode :: "bytes \<Rightarrow> (decode_error, address_request) res" where
  "request_decode payload =
     and_then (decode_items decode_requested_address payload)
       (\<lambda>xs. if xs = [] then Err Underflow else Ok \<lparr>requested_addresses = xs\<rparr>)"

definition request_encode :: "address_request \<Rightarrow> (decode_error, bytes) res" where
  "request_encode c =
     and_then (sum_lens requested_address_len (requested_addresses c)) (\<lambda>payload_len.
     and_then (unwrap (write_varint CAPSULE_ADDRESS_REQUEST)) (\<lambda>t.
     and_then (unwrap (write_varint (word_of_nat payload_len))) (\<lambda>l.
     and_then (encode_items encode_requested_address (requested_addresses c)) (\<lambda>p.
       Ok (t @ l @ p)))))"

section \<open>ROUTE_ADVERTISEMENT\<close>

fun cmp_ip_addr :: "ip_addr \<Rightarrow> ip_addr \<Rightarrow> ordering" where
  "cmp_ip_addr (V4 a) (V4 b) = cmp_slice (octets4 a) (octets4 b)"
| "cmp_ip_addr (V6 a) (V6 b) = cmp_slice (octets6 a) (octets6 b)"
| "cmp_ip_addr (V4 a) (V6 b) = Less"
| "cmp_ip_addr (V6 a) (V4 b) = Greater"

definition cmp_ranges :: "ip_address_range \<Rightarrow> ip_address_range \<Rightarrow> ordering" where
  "cmp_ranges a b =
     then_with (then_with (cmp (ir_ip_version a) (ir_ip_version b))
                          (cmp (ir_ip_protocol a) (ir_ip_protocol b)))
               (cmp_ip_addr (ir_start_ip a) (ir_start_ip b))"

definition sort_ranges :: "ip_address_range list \<Rightarrow> ip_address_range list" where
  "sort_ranges = sort_by cmp_ranges"

definition decode_ip_address_range :: "(decode_error, ip_address_range) reader" where
  "decode_ip_address_range =
     rbind (need 1 Underflow) (\<lambda>_. rbind get_u8 (\<lambda>ip_version.
     rbind (decode_ip_address ip_version) (\<lambda>start_ip.
     rbind (decode_ip_address ip_version) (\<lambda>end_ip.
     rbind (if cmp_ip_addr start_ip end_ip = Greater then rfail InvalidVarInt else rret ()) (\<lambda>_.
     rbind (need 1 Underflow) (\<lambda>_. rbind get_u8 (\<lambda>ip_protocol.
     rret \<lparr>ir_ip_version = ip_version, ir_start_ip = start_ip, ir_end_ip = end_ip,
           ir_ip_protocol = ip_protocol\<rparr>)))))))"

definition encode_ip_address_range :: "ip_address_range \<Rightarrow> (decode_error, bytes) res" where
  "encode_ip_address_range r =
     Ok ([ir_ip_version r] @ ip_octets (ir_start_ip r) @ ip_octets (ir_end_ip r) @
         [ir_ip_protocol r])"

definition ip_address_range_len :: "ip_address_range \<Rightarrow> (decode_error, nat) res" where
  "ip_address_range_len r =
     (let ip_len = (if ir_ip_version r = 4 then 4 else 16) in Ok (1 + ip_len + ip_len + 1))"

text \<open>The derived order of \<open>IpAddressRange\<close>, and the key RFC 9484 orders ranges by.\<close>

definition derived_key :: "ip_address_range \<Rightarrow> u8 \<times> ip_addr \<times> ip_addr \<times> u8" where
  "derived_key r = (ir_ip_version r, ir_start_ip r, ir_end_ip r, ir_ip_protocol r)"

definition rfc_key :: "ip_address_range \<Rightarrow> u8 \<times> u8 \<times> ip_addr" where
  "rfc_key r = (ir_ip_version r, ir_ip_protocol r, ir_start_ip r)"

text \<open>The loop over \<open>windows(2)\<close> of \<open>RouteAdvertisement::decode\<close>.\<close>

fun windows_ok :: "ip_address_range list \<Rightarrow> bool" where
  "windows_ok (a # b # rs) \<longleftrightarrow>
     \<not> (derived_key a \<ge> derived_key b \<and> rfc_key a \<ge> rfc_key b) \<and> windows_ok (b # rs)"
| "windows_ok rs \<longleftrightarrow> True"

definition route_decode :: "bytes \<Rightarrow> (decode_error, route_advertisement) res" where
  "route_decode payload =
     and_then (decode_items decode_ip_address_range payload)
       (\<lambda>xs. if windows_ok xs then Ok \<lparr>ip_address_ranges = xs\<rparr> else Err InvalidVarInt)"

definition route_encode :: "route_advertisement \<Rightarrow> (decode_error, bytes) res" where
  "route_encode c =
     (let sorted = sort_ranges (ip_address_ranges c) in
      and_then (sum_lens ip_address_range_len sorted) (\<lambda>payload_len.
      and_then (unwrap (write_varint CAPSULE_ROUTE_ADVERTISEMENT)) (\<lambda>t.
      and_then (unwrap (write_varint (word_of_nat payload_len))) (\<lambda>l.
      and_then (encode_items encode_ip_address_range sorted) (\<lambda>p.
        Ok (t @ l @ p))))))"

section \<open>The envelope and the stream buffer\<close>

definition decode_payload :: "u64 \<Rightarrow> bytes \<Rightarrow> (decode_error, capsule) res" where
  "decode_payload capsule_type payload =
     (if capsule_type = CAPSULE_ADDRESS_ASSIGN then
        and_then (assign_decode payload) (\<lambda>c. Ok (CapAddressAssign c))
      else if capsule_type = CAPSULE_ADDRESS_REQUEST then
        and_then (request_decode payload) (\<lambda>c. Ok (CapAddressRequest c))
      else if capsule_type = CAPSULE_ROUTE_ADVERTISEMENT then
        and_then (route_decode payload) (\<lambda>c. Ok (CapRouteAdvertisement c))
      else Ok (CapUnknown capsule_type payload))"

definition decode_capsule :: "(decode_error, capsule) reader" where
  "decode_capsule =
     rbind read_varint (\<lambda>capsule_type.
     rbind read_varint (\<lambda>capsule_length.
     rbind (need_avail (unat capsule_length) (\<lambda>avail. BufferTooShort (unat capsule_length) avail)) (\<lambda>_.
     rbind (copy_to_bytes (unat capsule_length)) (\<lambda>payload.
     rlift (decode_payload capsule_type payload)))))"

fun encode_capsule :: "capsule \<Rightarrow> (decode_error, bytes) res" where
  "encode_capsule (CapAddressAssign c) = assign_encode c"
| "encode_capsule (CapAddressRequest c) = request_encode c"
| "encode_capsule (CapRouteAdvertisement c) = route_encode c"
| "encode_capsule (CapUnknown type_id data) =
     and_then (unwrap (write_varint type_id)) (\<lambda>t.
     and_then (unwrap (write_varint (word_of_nat (length data)))) (\<lambda>l.
       Ok (t @ l @ data)))"

record capsule_buffer =
  cb_buf :: bytes

definition cb_new :: capsule_buffer where
  "cb_new = \<lparr>cb_buf = []\<rparr>"

text \<open>A chunk is any \<open>Buf\<close>: a sequence of contiguous pieces.\<close>

fun cb_push :: "bytes list \<Rightarrow> capsule_buffer \<Rightarrow> capsule_buffer" where
  "cb_push [] b = b"
| "cb_push (piece # chunk) b = cb_push chunk (b\<lparr>cb_buf := cb_buf b @ piece\<rparr>)"

definition next_capsule ::
    "capsule_buffer \<Rightarrow> (decode_error, capsule option) res \<times> capsule_buffer" where
  "next_capsule b = (case read_varint (cb_buf b) of
      (Ok _, view) \<Rightarrow> (case read_varint view of
          (Ok capsule_length, view) \<Rightarrow>
            (if length view < unat capsule_length then (Ok None, b)
             else (case decode_capsule (cb_buf b) of
                 (r, rest) \<Rightarrow> (and_then r (\<lambda>c. Ok (Some c)), b\<lparr>cb_buf := rest\<rparr>)))
        | _ \<Rightarrow> (Ok None, b))
    | _ \<Rightarrow> (Ok None, b))"

section \<open>Addresses on the wire\<close>

text \<open>The version byte of an address, and the well-formed items.\<close>

fun version_of :: "ip_addr \<Rightarrow> u8" where
  "version_of (V4 a) = 4"
| "version_of (V6 a) = 6"

fun max_prefix :: "ip_addr \<Rightarrow> u8" where
  "max_prefix (V4 a) = 32"
| "max_prefix (V6 a) = 128"

definition wf_assigned :: "assigned_address \<Rightarrow> bool" where
  "wf_assigned a \<longleftrightarrow> aa_request_id a \<le> VARINT_MAX \<and>
     aa_ip_version a = version_of (aa_ip_address a) \<and>
     aa_prefix_length a \<le> max_prefix (aa_ip_address a)"

definition wf_requested :: "requested_address \<Rightarrow> bool" where
  "wf_requested a \<longleftrightarrow> ra_request_id a \<le> VARINT_MAX \<and> ra_request_id a \<noteq> 0 \<and>
     ra_ip_version a = version_of (ra_ip_address a) \<and>
     ra_prefix_length a \<le> max_prefix (ra_ip_address a)"

definition wf_range :: "ip_address_range \<Rightarrow> bool" where
  "wf_range r \<longleftrightarrow> ir_ip_version r = version_of (ir_start_ip r) \<and>
     is_ipv4 (ir_start_ip r) = is_ipv4 (ir_end_ip r) \<and> ir_start_ip r \<le> ir_end_ip r"

lemma decode_ip_address_octets [reader_simps]:
  "rbind (decode_ip_address (version_of a)) f (ip_octets a @ rest) = f a rest"
  by (cases a) (simp_all add: decode_ip_address_def reader_simps)

lemma decode_ip_address_version:
  "decode_ip_address v s = (Ok a, rest) \<longleftrightarrow> v = version_of a \<and> s = ip_octets a @ rest"
proof
  assume "decode_ip_address v s = (Ok a, rest)"
  then show "v = version_of a \<and> s = ip_octets a @ rest"
    by (auto simp: decode_ip_address_def reader_elims rret_def rfail_def octets4_of_octets4
      octets6_of_octets6 split: if_splits)
next
  assume "v = version_of a \<and> s = ip_octets a @ rest"
  then show "decode_ip_address v s = (Ok a, rest)"
    by (cases a) (simp_all add: decode_ip_address_def reader_simps)
qed

lemma no_panic_decode_ip_address [intro]: "no_panic (decode_ip_address v)"
  unfolding decode_ip_address_def by auto

lemma validate_prefix_length_Ok:
  "validate_prefix_length (version_of a) l = Ok () \<longleftrightarrow> l \<le> max_prefix a"
  by (cases a) (auto simp: validate_prefix_length_def)

lemma validate_prefix_length_no_panic: "validate_prefix_length v l \<noteq> Panic"
  by (simp add: validate_prefix_length_def)

lemma cmp_ip_addr_Greater: "cmp_ip_addr a b = Greater \<longleftrightarrow> b < a"
  by (cases a; cases b)
     (auto simp: cmp_slice_be_val cmp_Greater octets4_def octets6_def be_val_nat_be
       less_ip_addr_def word_le_nat_alt not_le)

section \<open>The three item codecs\<close>

lemma assigned_roundtrip:
  assumes "wf_assigned a"
  shows "\<exists>bs. encode_assigned_address a = Ok bs \<and> bs \<noteq> [] \<and>
    (\<forall>rest. decode_assigned_address (bs @ rest) = (Ok a, rest)) \<and>
    assigned_address_len a = Ok (length bs)"
proof -
  from assms obtain i where i: "write_varint (aa_request_id a) = Ok i"
      "varint_len (aa_request_id a) = Ok (length i)"
      "\<And>rest. read_varint (i @ rest) = (Ok (aa_request_id a), rest)"
    using write_varint_Ok [of "aa_request_id a"] by (auto simp: wf_assigned_def)
  have l: "length (ip_octets (aa_ip_address a)) = (if aa_ip_version a = 4 then 4 else 16)"
    using assms by (cases "aa_ip_address a") (simp_all add: wf_assigned_def)
  have "validate_prefix_length (version_of (aa_ip_address a)) (aa_prefix_length a) = Ok ()"
    using assms by (simp add: validate_prefix_length_Ok wf_assigned_def)
  then show ?thesis
    using assms i l
    by (cases a) (simp add: encode_assigned_address_def decode_assigned_address_def assigned_address_len_def
        wf_assigned_def reader_simps rbind_Ok [where m = read_varint, OF i(3)] Let_def)
qed

interpretation assigned: sized_codec
  encode_assigned_address decode_assigned_address wf_assigned assigned_address_len
  by unfold_locales (use assigned_roundtrip in fastforce)+

lemma requested_roundtrip:
  assumes "wf_requested a"
  shows "\<exists>bs. encode_requested_address a = Ok bs \<and> bs \<noteq> [] \<and>
    (\<forall>rest. decode_requested_address (bs @ rest) = (Ok a, rest)) \<and>
    requested_address_len a = Ok (length bs)"
proof -
  from assms obtain i where i: "write_varint (ra_request_id a) = Ok i"
      "varint_len (ra_request_id a) = Ok (length i)"
      "\<And>rest. read_varint (i @ rest) = (Ok (ra_request_id a), rest)"
    using write_varint_Ok [of "ra_request_id a"] by (auto simp: wf_requested_def)
  have l: "length (ip_octets (ra_ip_address a)) = (if ra_ip_version a = 4 then 4 else 16)"
    using assms by (cases "ra_ip_address a") (simp_all add: wf_requested_def)
  have "validate_prefix_length (version_of (ra_ip_address a)) (ra_prefix_length a) = Ok ()"
    using assms by (simp add: validate_prefix_length_Ok wf_requested_def)
  then show ?thesis
    using assms i l
    by (cases a) (simp add: encode_requested_address_def decode_requested_address_def
        requested_address_len_def wf_requested_def reader_simps rbind_Ok [where m = read_varint, OF i(3)]
        Let_def)
qed

interpretation requested: sized_codec
  encode_requested_address decode_requested_address wf_requested requested_address_len
  by unfold_locales (use requested_roundtrip in fastforce)+

lemma range_roundtrip:
  assumes "wf_range r"
  shows "\<exists>bs. encode_ip_address_range r = Ok bs \<and> bs \<noteq> [] \<and>
    (\<forall>rest. decode_ip_address_range (bs @ rest) = (Ok r, rest)) \<and>
    ip_address_range_len r = Ok (length bs)"
proof -
  have v: "ir_ip_version r = version_of (ir_start_ip r)"
    "version_of (ir_start_ip r) = version_of (ir_end_ip r)"
    using assms by (cases "ir_start_ip r"; cases "ir_end_ip r"; simp add: wf_range_def)+
  have l: "length (ip_octets (ir_start_ip r)) = (if ir_ip_version r = 4 then 4 else 16)"
    "length (ip_octets (ir_end_ip r)) = (if ir_ip_version r = 4 then 4 else 16)"
    using assms by (cases "ir_start_ip r"; cases "ir_end_ip r"; simp add: wf_range_def)+
  have le: "\<not> ir_end_ip r < ir_start_ip r" using assms by (simp add: wf_range_def not_less)
  have "decode_ip_address_range
      (ir_ip_version r # ip_octets (ir_start_ip r) @ ip_octets (ir_end_ip r) @ ir_ip_protocol r # rest)
      = (Ok r, rest)" for rest
    using le by (simp add: decode_ip_address_range_def reader_simps v(1) cmp_ip_addr_Greater)
      (simp add: v(2) reader_simps cmp_ip_addr_Greater, simp add: v)
  then show ?thesis
    using l by (simp add: encode_ip_address_range_def ip_address_range_len_def Let_def)
qed

interpretation range: sized_codec
  encode_ip_address_range decode_ip_address_range wf_range ip_address_range_len
  by unfold_locales (use range_roundtrip in fastforce)+

end
