(* ===== verification/Capsule_Stream.thy ===== *)
theory Capsule_Stream
  imports Capsule
begin

text \<open>
  The correctness of the capsule codec and of the stream reassembly: whole capsules round
  trip, no byte sequence makes a decoder panic, and what a \<open>CapsuleBuffer\<close> yields does not
  depend on how the stream was cut into chunks.
\<close>

section \<open>The receive loops\<close>

text \<open>
  \<open>while let Some(capsule) = capsules.next_capsule()? { ... }\<close>, the loop after every chunk in
  the client, the session handler and the bind handler: the capsules in order, how the loop
  ended (\<open>Ok\<close> when more bytes are needed) and the buffer.
\<close>

definition envelope :: "bytes \<Rightarrow> (u64 \<times> bytes \<times> bytes) option" where
  "envelope s = (case read_varint s of
      (Ok t, v) \<Rightarrow> (case read_varint v of
          (Ok l, w) \<Rightarrow> (if length w < unat l then None
             else Some (t, take (unat l) w, drop (unat l) w))
        | _ \<Rightarrow> None)
    | _ \<Rightarrow> None)"

lemma envelope_eq_Some:
  "envelope s = Some (t, p, rest) \<longleftrightarrow>
   (\<exists>l v. read_varint s = (Ok t, v) \<and> read_varint v = (Ok l, p @ rest) \<and> length p = unat l)"
  by (auto simp: envelope_def split: prod.splits res.splits if_splits)

lemma decode_capsule_envelope:
  "envelope s = Some (t, p, rest) \<Longrightarrow> decode_capsule s = (decode_payload t p, rest)"
  by (auto simp: envelope_eq_Some decode_capsule_def rbind_Ok [where m = read_varint] reader_simps)

lemma next_capsule_envelope:
  "next_capsule b = (case envelope (cb_buf b) of
      None \<Rightarrow> (Ok None, b)
    | Some (t, p, rest) \<Rightarrow> (and_then (decode_payload t p) (\<lambda>c. Ok (Some c)), b\<lparr>cb_buf := rest\<rparr>))"
proof (cases "envelope (cb_buf b)")
  case None
  then show ?thesis
    by (auto simp: next_capsule_def envelope_def split: prod.splits res.splits if_splits)
next
  case (Some e)
  obtain t p rest where e: "e = (t, p, rest)" by (cases e)
  then have "decode_capsule (cb_buf b) = (decode_payload t p, rest)"
    using Some decode_capsule_envelope by simp
  moreover obtain l v where "read_varint (cb_buf b) = (Ok t, v)" "read_varint v = (Ok l, p @ rest)"
      "length p = unat l"
    using Some e by (auto simp: envelope_eq_Some)
  ultimately show ?thesis
    using Some e by (simp add: next_capsule_def)
qed

lemma envelope_shorter: "envelope s = Some (t, p, rest) \<Longrightarrow> length rest < length s"
  by (auto simp: envelope_eq_Some dest!: read_varint_shorter)

lemma envelope_stable:
  assumes "envelope s = Some (t, p, rest)"
  shows "envelope (s @ x) = Some (t, p, rest @ x)"
proof -
  obtain l v where "read_varint s = (Ok t, v)" "read_varint v = (Ok l, p @ rest)" "length p = unat l"
    using assms by (auto simp: envelope_eq_Some)
  then have "read_varint (s @ x) = (Ok t, v @ x)" "read_varint (v @ x) = (Ok l, p @ rest @ x)"
    "length p = unat l"
    using read_varint_stable [of s _ _ x] read_varint_stable [of v _ _ x] by simp_all
  then show ?thesis by (auto simp: envelope_eq_Some)
qed

lemma next_capsule_shorter:
  "next_capsule b = (Ok (Some c), b') \<Longrightarrow> length (cb_buf b') < length (cb_buf b)"
  by (auto simp: next_capsule_envelope and_then_eq_Ok envelope_shorter split: option.splits)

function drain :: "capsule_buffer \<Rightarrow> capsule list \<times> (decode_error, unit) res \<times> capsule_buffer" where
  "drain b = (case next_capsule b of
      (Ok (Some c), b') \<Rightarrow> (case drain b' of (cs, r, b'') \<Rightarrow> (c # cs, r, b''))
    | (Ok None, b') \<Rightarrow> ([], Ok (), b')
    | (Err e, b') \<Rightarrow> ([], Err e, b')
    | (Panic, b') \<Rightarrow> ([], Panic, b'))"
  by pat_completeness auto
termination
  by (relation "measure (\<lambda>b. length (cb_buf b))") (auto dest: next_capsule_shorter [OF sym])

declare drain.simps [simp del]

fun recv_chunks ::
    "bytes list list \<Rightarrow> capsule_buffer \<Rightarrow> capsule list \<times> (decode_error, unit) res \<times> capsule_buffer" where
  "recv_chunks [] b = ([], Ok (), b)"
| "recv_chunks (chunk # chunks) b = (case drain (cb_push chunk b) of
      (cs, Ok _, b') \<Rightarrow> (case recv_chunks chunks b' of (cs', r) \<Rightarrow> (cs @ cs', r))
    | (cs, r, b') \<Rightarrow> (cs, r, b'))"

section \<open>Chunking\<close>

lemma cb_push_concat: "cb_push chunk b = b\<lparr>cb_buf := cb_buf b @ concat chunk\<rparr>"
  by (induction chunk arbitrary: b) simp_all

text \<open>The unfolding of \<open>drain\<close> over envelopes, on the bytes alone.\<close>

lemma drain_None: "envelope (cb_buf b) = None \<Longrightarrow> drain b = ([], Ok (), b)"
  by (simp add: drain.simps [of b] next_capsule_envelope)

lemma drain_Some:
  assumes "envelope (cb_buf b) = Some (t, p, rest)"
  shows "drain b = (case decode_payload t p of
      Ok c \<Rightarrow> (case drain (b\<lparr>cb_buf := rest\<rparr>) of (cs, r, b') \<Rightarrow> (c # cs, r, b'))
    | Err e \<Rightarrow> ([], Err e, b\<lparr>cb_buf := rest\<rparr>)
    | Panic \<Rightarrow> ([], Panic, b\<lparr>cb_buf := rest\<rparr>))"
  using assms by (simp add: drain.simps [of b] next_capsule_envelope split: res.split)

lemma drain_append:
  "drain (b\<lparr>cb_buf := cb_buf b @ x\<rparr>) = (case drain b of
      (cs, Ok _, b') \<Rightarrow> (case drain (b'\<lparr>cb_buf := cb_buf b' @ x\<rparr>) of (cs', r) \<Rightarrow> (cs @ cs', r))
    | (cs, r, b') \<Rightarrow> (cs, r, b'\<lparr>cb_buf := cb_buf b' @ x\<rparr>))"
proof (induction b rule: drain.induct)
  case (1 b)
  show ?case
  proof (cases "envelope (cb_buf b)")
    case None
    then show ?thesis by (simp add: drain_None)
  next
    case (Some e)
    obtain t p rest where e: "e = (t, p, rest)" by (cases e)
    note d = drain_Some [OF Some [unfolded e]]
    have dx: "drain (b\<lparr>cb_buf := cb_buf b @ x\<rparr>) = (case decode_payload t p of
        Ok c \<Rightarrow> (case drain (b\<lparr>cb_buf := rest @ x\<rparr>) of (cs, r, b') \<Rightarrow> (c # cs, r, b'))
      | Err e \<Rightarrow> ([], Err e, b\<lparr>cb_buf := rest @ x\<rparr>)
      | Panic \<Rightarrow> ([], Panic, b\<lparr>cb_buf := rest @ x\<rparr>))"
      using drain_Some [of "b\<lparr>cb_buf := cb_buf b @ x\<rparr>"] envelope_stable [OF Some [unfolded e]]
      by (simp cong: res.case_cong)
    show ?thesis
    proof (cases "decode_payload t p")
      case (Ok c)
      have "next_capsule b = (Ok (Some c), b\<lparr>cb_buf := rest\<rparr>)"
        using Some e Ok by (simp add: next_capsule_envelope)
      from 1 [OF this [symmetric]] have "drain (b\<lparr>cb_buf := rest @ x\<rparr>) =
          (case drain (b\<lparr>cb_buf := rest\<rparr>) of
             (cs, Ok _, b') \<Rightarrow> (case drain (b'\<lparr>cb_buf := cb_buf b' @ x\<rparr>) of (cs', r) \<Rightarrow> (cs @ cs', r))
           | (cs, r, b') \<Rightarrow> (cs, r, b'\<lparr>cb_buf := cb_buf b' @ x\<rparr>))"
        by simp
      then show ?thesis
        using Ok d dx by (simp split: prod.split res.split)
    qed (simp_all add: d dx)
  qed
qed

lemma drain_drained: "drain b = (cs, Ok u, b') \<Longrightarrow> envelope (cb_buf b') = None"
proof (induction b arbitrary: cs rule: drain.induct)
  case (1 b)
  then show ?case
    by (cases "envelope (cb_buf b)")
       (auto simp: drain_None drain_Some next_capsule_envelope split: res.splits prod.splits)
qed

text \<open>What two runs have in common when the second may have read on past an error.\<close>

definition same_run ::
    "capsule list \<times> (decode_error, unit) res \<times> capsule_buffer \<Rightarrow>
     capsule list \<times> (decode_error, unit) res \<times> capsule_buffer \<Rightarrow> bool" where
  "same_run x y \<longleftrightarrow> fst x = fst y \<and> fst (snd x) = fst (snd y) \<and>
     (fst (snd x) = Ok () \<longrightarrow> snd (snd x) = snd (snd y))"

lemma recv_chunks_drain:
  assumes "envelope (cb_buf b) = None"
  shows "same_run (recv_chunks chunks b) (drain (cb_push (concat chunks) b))"
  using assms
proof (induction chunks arbitrary: b)
  case Nil
  then show ?case by (simp add: drain_None same_run_def)
next
  case (Cons chunk chunks)
  let ?b = "cb_push chunk b" and ?x = "concat (concat chunks)"
  have "cb_push (concat (chunk # chunks)) b = ?b\<lparr>cb_buf := cb_buf ?b @ ?x\<rparr>"
    by (simp add: cb_push_concat)
  note app = drain_append [of ?b ?x, folded this]
  obtain cs r b' where d: "drain ?b = (cs, r, b')" by (metis prod_cases3)
  show ?case
  proof (cases r)
    case (Ok u)
    then have "same_run (recv_chunks chunks b') (drain (cb_push (concat chunks) b'))"
      using Cons.IH [of b'] drain_drained [of ?b cs u b'] d by simp
    then show ?thesis
      using d Ok app by (auto simp: same_run_def cb_push_concat split: prod.splits)
  qed (use d app in \<open>simp_all add: same_run_def\<close>)
qed

section \<open>Round trip\<close>

text \<open>The capsules an endpoint may send, and what the peer sees: ranges arrive sorted.\<close>

fun wf_capsule :: "capsule \<Rightarrow> bool" where
  "wf_capsule (CapAddressAssign c) \<longleftrightarrow>
     list_all wf_assigned (assigned_addresses c) \<and> length (assigned_addresses c) < 2 ^ 32"
| "wf_capsule (CapAddressRequest c) \<longleftrightarrow>
     list_all wf_requested (requested_addresses c) \<and> requested_addresses c \<noteq> [] \<and>
     length (requested_addresses c) < 2 ^ 32"
| "wf_capsule (CapRouteAdvertisement c) \<longleftrightarrow>
     list_all wf_range (ip_address_ranges c) \<and> distinct (List.map rfc_key (ip_address_ranges c)) \<and>
     length (ip_address_ranges c) < 2 ^ 32"
| "wf_capsule (CapUnknown t d) \<longleftrightarrow>
     t \<notin> {CAPSULE_ADDRESS_ASSIGN, CAPSULE_ADDRESS_REQUEST, CAPSULE_ROUTE_ADVERTISEMENT} \<and>
     t \<le> VARINT_MAX \<and> length d < 2 ^ 62"

fun as_received :: "capsule \<Rightarrow> capsule" where
  "as_received (CapRouteAdvertisement c) =
     CapRouteAdvertisement \<lparr>ip_address_ranges = sort_key rfc_key (ip_address_ranges c)\<rparr>"
| "as_received c = c"

lemma cmp_ranges_Greater: "cmp_ranges a b = Greater \<longleftrightarrow> rfc_key b < rfc_key a"
  by (cases "ir_ip_version a" "ir_ip_version b" rule: linorder_cases;
      cases "ir_ip_protocol a" "ir_ip_protocol b" rule: linorder_cases)
     (auto simp: cmp_ranges_def rfc_key_def cmp_def cmp_ip_addr_Greater)

lemma sort_ranges_key: "sort_ranges xs = sort_key rfc_key xs"
  unfolding sort_ranges_def by (rule sort_by_key) (rule cmp_ranges_Greater)

lemma windows_ok_sorted:
  "sorted (List.map rfc_key rs) \<Longrightarrow> distinct (List.map rfc_key rs) \<Longrightarrow> windows_ok rs"
  by (induction rs rule: windows_ok.induct) auto

lemma sum_lens_bound:
  assumes "\<And>x n. len x = Ok n \<Longrightarrow> n \<le> k" and "sum_lens len xs = Ok m"
  shows "m \<le> k * length xs"
  using assms
proof (induction xs arbitrary: m)
  case (Cons x xs)
  then obtain n m' where "len x = Ok n" "sum_lens len xs = Ok m'" "m = n + m'"
    by (auto simp: and_then_eq_Ok)
  moreover from this have "n \<le> k" "m' \<le> k * length xs" using Cons by auto
  ultimately show ?case by simp
qed simp

lemma varint_len_bound: "varint_len v = Ok n \<Longrightarrow> n \<le> 8"
  by (auto simp: varint_len_def split: if_splits)

lemma item_len_bounds:
  "assigned_address_len a = Ok n \<Longrightarrow> n \<le> 34"
  "requested_address_len a' = Ok n \<Longrightarrow> n \<le> 34"
  "ip_address_range_len r = Ok n \<Longrightarrow> n \<le> 34"
  by (auto simp: assigned_address_len_def requested_address_len_def ip_address_range_len_def Let_def
    and_then_eq_Ok unwrap_eq_Ok dest!: varint_len_bound split: if_splits)

text \<open>A payload wrapped in its envelope.\<close>

lemma envelope_write:
  assumes "t \<le> VARINT_MAX" "length p < 2 ^ 62"
  shows "\<exists>tb lb. write_varint t = Ok tb \<and> write_varint (word_of_nat (length p)) = Ok lb \<and>
    (\<forall>rest. envelope (tb @ lb @ p @ rest) = Some (t, p, rest))"
proof -
  have u: "unat (word_of_nat (length p) :: u64) = length p"
    using assms(2) by (intro unat_word_of_nat) simp
  then have "(word_of_nat (length p) :: u64) \<le> VARINT_MAX"
    using assms(2) by (simp add: word_le_nat_alt VARINT_MAX_def)
  from write_varint_Ok [OF assms(1)] write_varint_Ok [OF this] obtain tb lb where
    "write_varint t = Ok tb" "\<And>rest. read_varint (tb @ rest) = (Ok t, rest)"
    "write_varint (word_of_nat (length p)) = Ok lb"
    "\<And>rest. read_varint (lb @ rest) = (Ok (word_of_nat (length p)), rest)" by auto
  then show ?thesis using u by (auto simp: envelope_eq_Some)
qed

lemma capsule_types_le: "CAPSULE_ADDRESS_ASSIGN \<le> VARINT_MAX" "CAPSULE_ADDRESS_REQUEST \<le> VARINT_MAX"
  "CAPSULE_ROUTE_ADVERTISEMENT \<le> VARINT_MAX"
  by (simp_all add: CAPSULE_ADDRESS_ASSIGN_def CAPSULE_ADDRESS_REQUEST_def
    CAPSULE_ROUTE_ADVERTISEMENT_def VARINT_MAX_def)

lemma wrap_payload:
  assumes "t \<le> VARINT_MAX" "length p < 2 ^ 62"
  shows "\<exists>bs. and_then (unwrap (write_varint t)) (\<lambda>t.
        and_then (unwrap (write_varint (word_of_nat (length p)))) (\<lambda>l. Ok (t @ l @ p))) = Ok bs \<and>
      (\<forall>rest. envelope (bs @ rest) = Some (t, p, rest))"
  using envelope_write [OF assms] by auto

text \<open>The items of a capsule payload: a sized codec whose items have a bounded size.\<close>

locale capsule_item = sized_codec enc dec wf len
  for enc :: "'a \<Rightarrow> (decode_error, bytes) res" and dec and wf and len +
  assumes len_bound: "len x = Ok n \<Longrightarrow> n \<le> 34"
begin

text \<open>Every capsule encoder has this shape; the result opens to the payload it wrapped.\<close>

lemma sealed_items:
  assumes "list_all wf xs" "length xs < 2 ^ 32" "t \<le> VARINT_MAX"
  shows "\<exists>bs p. and_then (sum_lens len xs) (\<lambda>n.
      and_then (unwrap (write_varint t)) (\<lambda>t.
      and_then (unwrap (write_varint (word_of_nat n))) (\<lambda>l.
      and_then (encode_items enc xs) (\<lambda>p. Ok (t @ l @ p))))) = Ok bs \<and>
    (\<forall>rest. envelope (bs @ rest) = Some (t, p, rest)) \<and> decode_items dec p = Ok xs"
proof -
  obtain p where p: "encode_items enc xs = Ok p" "decode_items dec p = Ok xs"
    using items_roundtrip [OF assms(1)] by auto
  note l = items_len [OF assms(1) p(1)]
  have "length p \<le> 34 * length xs" by (rule sum_lens_bound [OF _ l]) (rule len_bound)
  then have "length p < 2 ^ 62" using assms(2) by simp
  from wrap_payload [OF assms(3) this] p l show ?thesis by auto
qed

end

interpretation assigned: capsule_item
  encode_assigned_address decode_assigned_address wf_assigned assigned_address_len
  by unfold_locales (rule item_len_bounds)

interpretation requested: capsule_item
  encode_requested_address decode_requested_address wf_requested requested_address_len
  by unfold_locales (rule item_len_bounds)

interpretation range: capsule_item
  encode_ip_address_range decode_ip_address_range wf_range ip_address_range_len
  by unfold_locales (rule item_len_bounds)

lemma assign_sealed:
  assumes "wf_capsule (CapAddressAssign a)"
  shows "\<exists>bs t p. assign_encode a = Ok bs \<and> (\<forall>rest. envelope (bs @ rest) = Some (t, p, rest)) \<and>
    decode_payload t p = Ok (CapAddressAssign a)"
proof -
  obtain bs p where bs: "assign_encode a = Ok bs"
      "\<forall>rest. envelope (bs @ rest) = Some (CAPSULE_ADDRESS_ASSIGN, p, rest)"
      "decode_items decode_assigned_address p = Ok (assigned_addresses a)"
    using assigned.sealed_items [of "assigned_addresses a", OF _ _ capsule_types_le(1)]
      assms unfolding assign_encode_def assign_payload_len_def by auto
  then have "decode_payload CAPSULE_ADDRESS_ASSIGN p = Ok (CapAddressAssign a)"
    by (simp add: decode_payload_def assign_decode_def)
  with bs show ?thesis by blast
qed

lemma request_sealed:
  assumes "wf_capsule (CapAddressRequest a)"
  shows "\<exists>bs t p. request_encode a = Ok bs \<and> (\<forall>rest. envelope (bs @ rest) = Some (t, p, rest)) \<and>
    decode_payload t p = Ok (CapAddressRequest a)"
proof -
  obtain bs p where bs: "request_encode a = Ok bs"
      "\<forall>rest. envelope (bs @ rest) = Some (CAPSULE_ADDRESS_REQUEST, p, rest)"
      "decode_items decode_requested_address p = Ok (requested_addresses a)"
    using requested.sealed_items [of "requested_addresses a", OF _ _ capsule_types_le(2)]
      assms unfolding request_encode_def by auto
  then have "decode_payload CAPSULE_ADDRESS_REQUEST p = Ok (CapAddressRequest a)"
    using assms by (simp add: decode_payload_def request_decode_def
      CAPSULE_ADDRESS_ASSIGN_def CAPSULE_ADDRESS_REQUEST_def)
  with bs show ?thesis by blast
qed

lemma route_sealed:
  assumes "wf_capsule (CapRouteAdvertisement a)"
  shows "\<exists>bs t p. route_encode a = Ok bs \<and> (\<forall>rest. envelope (bs @ rest) = Some (t, p, rest)) \<and>
    decode_payload t p = Ok (as_received (CapRouteAdvertisement a))"
proof -
  let ?rs = "sort_key rfc_key (ip_address_ranges a)"
  have wf: "list_all wf_range ?rs" "length ?rs < 2 ^ 32" "distinct (List.map rfc_key ?rs)"
    using assms by (simp_all add: list_all_iff distinct_map)
  obtain bs p where bs: "route_encode a = Ok bs"
      "\<forall>rest. envelope (bs @ rest) = Some (CAPSULE_ROUTE_ADVERTISEMENT, p, rest)"
      "decode_items decode_ip_address_range p = Ok ?rs"
    using range.sealed_items [OF wf(1,2) capsule_types_le(3)]
    unfolding route_encode_def sort_ranges_key Let_def by auto
  then have "decode_payload CAPSULE_ROUTE_ADVERTISEMENT p = Ok (as_received (CapRouteAdvertisement a))"
    using windows_ok_sorted [OF sorted_sort_key wf(3)]
    by (simp add: decode_payload_def route_decode_def CAPSULE_ADDRESS_ASSIGN_def
      CAPSULE_ADDRESS_REQUEST_def CAPSULE_ROUTE_ADVERTISEMENT_def)
  with bs show ?thesis by blast
qed

lemma capsule_sealed:
  assumes "wf_capsule c"
  shows "\<exists>bs t p. encode_capsule c = Ok bs \<and> (\<forall>rest. envelope (bs @ rest) = Some (t, p, rest)) \<and>
    decode_payload t p = Ok (as_received c)"
proof (cases c)
  case (CapUnknown t d)
  then have "t \<le> VARINT_MAX" "length d < 2 ^ 62" using assms by simp_all
  from wrap_payload [OF this] obtain bs where "encode_capsule c = Ok bs"
      "\<forall>rest. envelope (bs @ rest) = Some (t, d, rest)"
    using CapUnknown by auto
  moreover have "decode_payload t d = Ok (as_received c)"
    using CapUnknown assms by (simp add: decode_payload_def)
  ultimately show ?thesis by blast
qed (use assms assign_sealed request_sealed route_sealed in simp_all)

section \<open>Decoders on arbitrary input\<close>

lemma no_panic_items:
  "no_panic decode_assigned_address" "no_panic decode_requested_address"
  "no_panic decode_ip_address_range"
  unfolding decode_assigned_address_def decode_requested_address_def decode_ip_address_range_def
  by (intro no_panic_rbind no_panic_need_get no_panic_if no_panic_rret no_panic_rfail
      no_panic_rlift no_panic_read_varint no_panic_decode_ip_address
      validate_prefix_length_no_panic)+

lemma items_shorter:
  "decode_assigned_address s = (Ok a, rest) \<Longrightarrow> length rest < length s"
  "decode_requested_address s = (Ok a', rest) \<Longrightarrow> length rest < length s"
  "decode_ip_address_range s = (Ok r, rest) \<Longrightarrow> length rest < length s"
  unfolding decode_assigned_address_def decode_requested_address_def decode_ip_address_range_def
  by (auto simp: reader_elims rret_def rfail_def rlift_def decode_ip_address_version
      split: if_splits dest!: read_varint_shorter)

lemma items_wf:
  "decode_assigned_address s = (Ok a, rest) \<Longrightarrow> wf_assigned a"
  "decode_requested_address s = (Ok a', rest) \<Longrightarrow> wf_requested a'"
  unfolding decode_assigned_address_def decode_requested_address_def wf_assigned_def wf_requested_def
  by (auto simp: reader_elims rret_def rfail_def rlift_def decode_ip_address_version
      validate_prefix_length_Ok split: if_splits dest!: read_varint_max)

lemma range_wf: "decode_ip_address_range s = (Ok r, rest) \<Longrightarrow> wf_range r"
proof -
  have same: "version_of a = version_of b \<Longrightarrow> is_ipv4 a = is_ipv4 b" for a b
    by (cases a; cases b) simp_all
  assume "decode_ip_address_range s = (Ok r, rest)"
  then show ?thesis
    unfolding decode_ip_address_range_def wf_range_def
    by (auto simp: reader_elims rret_def rfail_def decode_ip_address_version cmp_ip_addr_Greater
        not_less dest: same split: if_splits)
qed

lemma decode_items_all:
  assumes "\<And>s x rest. dec s = (Ok x, rest) \<Longrightarrow> P x" and "decode_items dec payload = Ok xs"
  shows "list_all P xs"
  using assms(2)
proof (induction "length payload" arbitrary: payload xs rule: less_induct)
  case less
  then show ?case
    by (subst (asm) (2) decode_items.simps)
       (auto simp: and_then_eq_Ok assms(1) split: if_splits prod.splits res.splits)
qed

lemma read_varint_long:
  assumes "8 \<le> length s"
  shows "\<exists>v rest. read_varint s = (Ok v, rest) \<and> length s \<le> length rest + 8"
proof -
  obtain b t where s: "s = b # t" using assms by (cases s) auto
  have "tail_len b \<le> 7" using tail_len_cases [of b] by auto
  then show ?thesis using read_varint_complete [of b t] s assms by fastforce
qed

text \<open>Enough further bytes complete any envelope.\<close>

lemma envelope_completable: "\<exists>x. envelope (s @ x) \<noteq> None"
proof -
  let ?x = "replicate (16 + 2 ^ 62) (0 :: u8)"
  have "8 \<le> length (s @ ?x)" by simp
  from read_varint_long [OF this] obtain t v where
    t: "read_varint (s @ ?x) = (Ok t, v)" "length (s @ ?x) \<le> length v + 8" by blast
  then have lv: "8 + 2 ^ 62 \<le> length v" by simp
  then have "8 \<le> length v" by simp
  from read_varint_long [OF this] obtain l w where
    w: "read_varint v = (Ok l, w)" "length v \<le> length w + 8" by blast
  have "unat l \<le> unat VARINT_MAX" using read_varint_max [OF w(1)] by (simp add: word_le_nat_alt)
  then have "\<not> length w < unat l" using lv w(2) by (simp add: VARINT_MAX_def)
  then show ?thesis using t w by (intro exI [of _ ?x]) (simp add: envelope_def)
qed

lemma decode_payload_no_panic: "decode_payload t p \<noteq> Panic"
  using decode_items_no_panic [OF no_panic_items(1) items_shorter(1)]
    decode_items_no_panic [OF no_panic_items(2) items_shorter(2)]
    decode_items_no_panic [OF no_panic_items(3) items_shorter(3)]
  by (auto simp: decode_payload_def assign_decode_def request_decode_def route_decode_def
    and_then_eq_Panic)

fun well_decoded :: "capsule \<Rightarrow> bool" where
  "well_decoded (CapAddressAssign c) \<longleftrightarrow> list_all wf_assigned (assigned_addresses c)"
| "well_decoded (CapAddressRequest c) \<longleftrightarrow>
     requested_addresses c \<noteq> [] \<and> list_all wf_requested (requested_addresses c)"
| "well_decoded (CapRouteAdvertisement c) \<longleftrightarrow> list_all wf_range (ip_address_ranges c)"
| "well_decoded (CapUnknown t d) \<longleftrightarrow> t \<notin> {1, 2, 3}"

section \<open>Properties\<close>

text \<open>
  C25: a well-formed capsule is encoded without a panic, and decoding the encoding returns it
  (its ranges in the order of the wire) and consumes exactly the encoded bytes, whatever
  follows them.
\<close>

theorem capsule_roundtrip:
  assumes "wf_capsule c"
  shows "\<exists>bs. encode_capsule c = Ok bs \<and> (\<forall>rest. decode_capsule (bs @ rest) = (Ok (as_received c), rest))"
  using capsule_sealed [OF assms] decode_capsule_envelope by fastforce

definition sample_route :: route_advertisement where
  "sample_route = \<lparr>ip_address_ranges =
     [\<lparr>ir_ip_version = 4, ir_start_ip = V4 0x0A000000, ir_end_ip = V4 0x0A0000FF,
       ir_ip_protocol = 0\<rparr>]\<rparr>"

lemma wf_sample_route: "wf_capsule (CapRouteAdvertisement sample_route)"
  by (simp add: sample_route_def wf_range_def)

theorem capsule_roundtrip_witness:
  "wf_capsule (CapRouteAdvertisement sample_route) \<and>
   (\<exists>bs. encode_capsule (CapRouteAdvertisement sample_route) = Ok bs \<and>
     (\<forall>rest. decode_capsule (bs @ rest) = (Ok (CapRouteAdvertisement sample_route), rest)))"
  using capsule_roundtrip [OF wf_sample_route] wf_sample_route by (simp add: sample_route_def)

text \<open>
  C18: what the receive loop yields from a fresh \<open>CapsuleBuffer\<close> does not depend on how the
  stream is cut into chunks and pieces: the same capsules in the same order, the same final
  outcome, and while no error occurred the same unread bytes, also for malformed streams.
\<close>

theorem chunking_invariance:
  assumes "concat (concat chunks) = concat (concat chunks')"
  shows "same_run (recv_chunks chunks cb_new) (recv_chunks chunks' cb_new)"
proof -
  have "envelope (cb_buf cb_new) = None"
    by (simp add: cb_new_def envelope_def read_varint_underflow)
  from recv_chunks_drain [OF this, of chunks] recv_chunks_drain [OF this, of chunks'] show ?thesis
    using assms by (auto simp: cb_push_concat same_run_def)
qed

theorem chunking_invariance_witness:
  "same_run (recv_chunks [[[0]], [[2, 7], [9]]] cb_new) (recv_chunks [[[0, 2, 7, 9]]] cb_new)"
  by (rule chunking_invariance) simp

lemma stream_delivered:
  assumes "list_all wf_capsule cs"
  shows "\<exists>wire. encode_items encode_capsule cs = Ok wire \<and>
    (\<forall>chunks. concat (concat chunks) = wire \<longrightarrow>
       recv_chunks chunks cb_new = (List.map as_received cs, Ok (), cb_new))"
proof -
  have empty: "envelope (cb_buf cb_new) = None"
    by (simp add: cb_new_def envelope_def read_varint_underflow)
  have "\<exists>wire. encode_items encode_capsule cs = Ok wire \<and>
      drain \<lparr>cb_buf = wire\<rparr> = (List.map as_received cs, Ok (), cb_new)"
    using assms
  proof (induction cs)
    case Nil
    then show ?case using drain_None [OF empty] by (simp add: cb_new_def)
  next
    case (Cons c cs)
    then obtain bs t p wire where "encode_capsule c = Ok bs" "encode_items encode_capsule cs = Ok wire"
        "envelope (bs @ wire) = Some (t, p, wire)" "decode_payload t p = Ok (as_received c)"
        "drain \<lparr>cb_buf = wire\<rparr> = (List.map as_received cs, Ok (), cb_new)"
      using capsule_sealed [of c] by auto
    then show ?case using drain_Some [of "\<lparr>cb_buf = bs @ wire\<rparr>" t p wire] by simp
  qed
  then obtain wire where w: "encode_items encode_capsule cs = Ok wire"
      "drain \<lparr>cb_buf = wire\<rparr> = (List.map as_received cs, Ok (), cb_new)" by blast
  have "recv_chunks chunks cb_new = (List.map as_received cs, Ok (), cb_new)"
    if "concat (concat chunks) = wire" for chunks
    using recv_chunks_drain [OF empty, of chunks] that w(2)
    by (cases "recv_chunks chunks cb_new") (auto simp: same_run_def cb_push_concat cb_new_def)
  with w(1) show ?thesis by blast
qed

text \<open>
  C17: a sequence of well-formed capsules written to a stream arrives: whatever the chunking,
  the receiver gets these capsules in order and is left with an empty buffer.
\<close>

theorem stream_delivery:
  assumes "list_all wf_capsule cs"
  shows "\<exists>wire. encode_items encode_capsule cs = Ok wire \<and>
    (\<forall>chunks. concat (concat chunks) = wire \<longrightarrow>
       recv_chunks chunks cb_new = (List.map as_received cs, Ok (), cb_new))"
  by (rule stream_delivered) (fact assms)

theorem stream_delivery_witness:
  "list_all wf_capsule [CapRouteAdvertisement sample_route, CapUnknown 0x2575 [1, 2, 3]] \<and>
   (\<exists>wire. encode_items encode_capsule
       [CapRouteAdvertisement sample_route, CapUnknown 0x2575 [1, 2, 3]] = Ok wire \<and>
     (\<forall>chunks. concat (concat chunks) = wire \<longrightarrow> recv_chunks chunks cb_new =
        (List.map as_received [CapRouteAdvertisement sample_route, CapUnknown 0x2575 [1, 2, 3]],
         Ok (), cb_new)))"
proof -
  have "list_all wf_capsule [CapRouteAdvertisement sample_route, CapUnknown 0x2575 [1, 2, 3]]"
    using wf_sample_route by (simp add: CAPSULE_ADDRESS_ASSIGN_def CAPSULE_ADDRESS_REQUEST_def
      CAPSULE_ROUTE_ADVERTISEMENT_def VARINT_MAX_def)
  from stream_delivery [OF this] this show ?thesis by blast
qed

text \<open>
  C24: \<open>next_capsule\<close> never panics; it waits (returns \<open>None\<close>, the buffer untouched) only when
  some further bytes would make it decide, and it fails only when no further bytes could
  change the failure.
\<close>

theorem next_capsule_waits_or_decides:
  "fst (next_capsule b) \<noteq> Panic \<and>
   (fst (next_capsule b) = Ok None \<longrightarrow> snd (next_capsule b) = b \<and>
      (\<exists>x. fst (next_capsule (b\<lparr>cb_buf := cb_buf b @ x\<rparr>)) \<noteq> Ok None)) \<and>
   (\<forall>e x. fst (next_capsule b) = Err e \<longrightarrow> fst (next_capsule (b\<lparr>cb_buf := cb_buf b @ x\<rparr>)) = Err e)"
proof (cases "envelope (cb_buf b)")
  case None
  obtain x where "envelope (cb_buf b @ x) \<noteq> None" using envelope_completable by blast
  then have "fst (next_capsule (b\<lparr>cb_buf := cb_buf b @ x\<rparr>)) \<noteq> Ok None"
    by (auto simp: next_capsule_envelope and_then_eq_Ok)
  with None show ?thesis by (auto simp: next_capsule_envelope)
next
  case (Some e)
  obtain t p rest where e: "e = (t, p, rest)" by (cases e)
  have "envelope (cb_buf b @ x) = Some (t, p, rest @ x)" for x
    using envelope_stable Some e by blast
  then show ?thesis
    using Some e decode_payload_no_panic [of t p]
    by (auto simp: next_capsule_envelope and_then_eq_Ok and_then_eq_Panic)
qed

theorem next_capsule_waits_or_decides_witness:
  "\<exists>x. fst (next_capsule (cb_new\<lparr>cb_buf := cb_buf cb_new @ x\<rparr>)) \<noteq> Ok None"
proof -
  have "fst (next_capsule cb_new) = Ok None"
    by (simp add: next_capsule_envelope cb_new_def envelope_def read_varint_underflow)
  with next_capsule_waits_or_decides [of cb_new] show ?thesis by blast
qed



end
