(* ===== verification/Ipnet_Reference.thy ===== *)
theory Ipnet_Reference
  imports Net_Types
begin

text \<open>
  A reference implementation of the prefix arithmetic that the \<open>ipnet\<close> crate documents, and
  the proof that it satisfies the laws of the locale \<open>ipnet\<close>. It shows that the laws are
  consistent and gives the witnesses of the other theories a concrete instance.
\<close>

section \<open>Covering a range by blocks\<close>

text \<open>
  The largest aligned block that starts at \<open>s\<close> and ends at or before \<open>e\<close>, found by
  descending from \<open>w\<close> bits, and the greedy cover of \<open>s..e\<close> by such blocks.
\<close>

fun best_block :: "nat \<Rightarrow> nat \<Rightarrow> nat \<Rightarrow> nat" where
  "best_block 0 s e = 0"
| "best_block (Suc k) s e =
     (if s mod 2 ^ Suc k = 0 \<and> s + 2 ^ Suc k \<le> Suc e then Suc k else best_block k s e)"

lemma best_block_fits:
  "s \<le> e \<Longrightarrow> s mod 2 ^ best_block w s e = 0 \<and> s + 2 ^ best_block w s e \<le> Suc e \<and>
    best_block w s e \<le> w"
  by (induction w) auto

function cover :: "nat \<Rightarrow> nat \<Rightarrow> nat \<Rightarrow> (nat \<times> nat) list" where
  "cover w s e =
     (if e < s then []
      else (s, best_block w s e) # cover w (s + 2 ^ best_block w s e) e)"
  by pat_completeness auto
termination
proof (relation "measure (\<lambda>(w, s, e). Suc e - s)")
  fix w s e :: nat
  assume "\<not> e < s"
  then show "((w, s + 2 ^ best_block w s e, e), w, s, e) \<in> measure (\<lambda>(w, s, e). Suc e - s)"
    by (auto intro: diff_less_mono2)
qed simp

declare cover.simps [simp del]

lemma aligned_block:
  assumes "s mod 2 ^ k = (0::nat)"
  shows "block_base k s = s" and "x \<le> block_top k s \<longleftrightarrow> x < s + 2 ^ k"
proof -
  show base: "block_base k s = s" using assms by (simp add: block_base_def mod_0_imp_dvd)
  have "(1::nat) \<le> 2 ^ k" by simp
  then show "x \<le> block_top k s \<longleftrightarrow> x < s + 2 ^ k"
    unfolding block_top_def base by linarith
qed

lemma cover_members:
  "(b, k) \<in> set (cover w s e) \<Longrightarrow> k \<le> w \<and> s \<le> b \<and> b + 2 ^ k \<le> Suc e \<and> b mod 2 ^ k = 0"
proof (induction w s e rule: cover.induct)
  case (1 w s e)
  show ?case
  proof (cases "e < s")
    case True
    then show ?thesis using 1(2) by (simp add: cover.simps)
  next
    case False
    then have "(b, k) = (s, best_block w s e) \<or>
        (b, k) \<in> set (cover w (s + 2 ^ best_block w s e) e)"
      using 1(2) by (simp add: cover.simps [of w s e])
    then show ?thesis
      using 1(1) [OF False] best_block_fits [of s e w] False by auto
  qed
qed

lemma cover_exact:
  "(\<exists>(b, k) \<in> set (cover w s e). b \<le> x \<and> x < b + 2 ^ k) \<longleftrightarrow> s \<le> x \<and> x \<le> e"
proof (induction w s e rule: cover.induct)
  case (1 w s e)
  show ?case
  proof (cases "e < s")
    case True
    then show ?thesis by (auto simp: cover.simps)
  next
    case False
    let ?k = "best_block w s e"
    have "(\<exists>(b, k) \<in> set (cover w s e). b \<le> x \<and> x < b + 2 ^ k) \<longleftrightarrow>
        (s \<le> x \<and> x < s + 2 ^ ?k) \<or> (s + 2 ^ ?k \<le> x \<and> x \<le> e)"
      using False 1 [OF False] by (simp add: cover.simps [of w s e])
    also have "\<dots> \<longleftrightarrow> s \<le> x \<and> x \<le> e"
      using best_block_fits [of s e w] False by auto
    finally show ?thesis .
  qed
qed

section \<open>The reference operations\<close>

definition ref_v4_network :: "ipv4_net \<Rightarrow> ipv4" where
  "ref_v4_network n = word_of_nat (block_base (32 - unat (plen4 n)) (unat (addr4 n)))"

definition ref_v4_broadcast :: "ipv4_net \<Rightarrow> ipv4" where
  "ref_v4_broadcast n = word_of_nat (block_top (32 - unat (plen4 n)) (unat (addr4 n)))"

definition ref_v4_contains :: "ipv4_net \<Rightarrow> ipv4 \<Rightarrow> bool" where
  "ref_v4_contains n a \<longleftrightarrow> ref_v4_network n \<le> a \<and> a \<le> ref_v4_broadcast n"

definition ref_v6_network :: "ipv6_net \<Rightarrow> ipv6" where
  "ref_v6_network n = word_of_nat (block_base (128 - unat (plen6 n)) (unat (addr6 n)))"

definition ref_v6_broadcast :: "ipv6_net \<Rightarrow> ipv6" where
  "ref_v6_broadcast n = word_of_nat (block_top (128 - unat (plen6 n)) (unat (addr6 n)))"

definition ref_v6_contains :: "ipv6_net \<Rightarrow> ipv6 \<Rightarrow> bool" where
  "ref_v6_contains n a \<longleftrightarrow> ref_v6_network n \<le> a \<and> a \<le> ref_v6_broadcast n"

fun ref_new :: "ip_addr \<Rightarrow> u8 \<Rightarrow> ip_net option" where
  "ref_new (V4 a) l = (if unat l \<le> 32 then Some (NetV4 (Ipv4Net a l)) else None)"
| "ref_new (V6 a) l = (if unat l \<le> 128 then Some (NetV6 (Ipv6Net a l)) else None)"

fun ref_trunc :: "ip_net \<Rightarrow> ip_net" where
  "ref_trunc (NetV4 n) = NetV4 (Ipv4Net (ref_v4_network n) (plen4 n))"
| "ref_trunc (NetV6 n) = NetV6 (Ipv6Net (ref_v6_network n) (plen6 n))"

fun ref_network :: "ip_net \<Rightarrow> ip_addr" where
  "ref_network (NetV4 n) = V4 (ref_v4_network n)"
| "ref_network (NetV6 n) = V6 (ref_v6_network n)"

fun ref_broadcast :: "ip_net \<Rightarrow> ip_addr" where
  "ref_broadcast (NetV4 n) = V4 (ref_v4_broadcast n)"
| "ref_broadcast (NetV6 n) = V6 (ref_v6_broadcast n)"

fun ref_contains :: "ip_net \<Rightarrow> ip_addr \<Rightarrow> bool" where
  "ref_contains (NetV4 n) (V4 a) = ref_v4_contains n a"
| "ref_contains (NetV6 n) (V6 a) = ref_v6_contains n a"
| "ref_contains n a = False"

definition ref_v4_subnets :: "ipv4 \<Rightarrow> ipv4 \<Rightarrow> ipv4_net list" where
  "ref_v4_subnets s e =
     List.map (\<lambda>(b, k). Ipv4Net (word_of_nat b) (word_of_nat (32 - k)))
       (cover 32 (unat s) (unat e))"

definition ref_v6_subnets :: "ipv6 \<Rightarrow> ipv6 \<Rightarrow> ipv6_net list" where
  "ref_v6_subnets s e =
     List.map (\<lambda>(b, k). Ipv6Net (word_of_nat b) (word_of_nat (128 - k)))
       (cover 128 (unat s) (unat e))"

definition ref_ipnet :: ipnet_api where
  "ref_ipnet = \<lparr>v4_network = ref_v4_network, v4_broadcast = ref_v4_broadcast,
     v4_contains = ref_v4_contains, v6_network = ref_v6_network,
     v6_contains = ref_v6_contains, net_new = ref_new, net_trunc = ref_trunc,
     net_network = ref_network, net_broadcast = ref_broadcast,
     net_contains = ref_contains, v4_subnets = ref_v4_subnets,
     v6_subnets = ref_v6_subnets\<rparr>"

lemma block_top_bound:
  assumes "v < 2 ^ w" "k \<le> w"
  shows "block_top k v < 2 ^ w"
proof -
  have "v div 2 ^ k < 2 ^ (w - k)"
    using assms by (simp add: less_mult_imp_div_less flip: power_add)
  then have "Suc (v div 2 ^ k) * 2 ^ k \<le> 2 ^ (w - k) * 2 ^ k"
    by (intro mult_le_mono1) simp
  also have "\<dots> = 2 ^ w" using assms(2) by (simp flip: power_add)
  finally have "v div 2 ^ k * 2 ^ k + 2 ^ k \<le> 2 ^ w" by (simp add: add.commute)
  moreover have "(1::nat) \<le> 2 ^ k" by simp
  ultimately show ?thesis unfolding block_top_def block_base_def by linarith
qed

lemma unat_ref_v4:
  "unat (ref_v4_network n) = block_base (32 - unat (plen4 n)) (unat (addr4 n))"
  "unat (ref_v4_broadcast n) = block_top (32 - unat (plen4 n)) (unat (addr4 n))"
proof -
  let ?k = "32 - unat (plen4 n)"
  have v: "unat (addr4 n) < 2 ^ 32" by simp
  have t: "block_top ?k (unat (addr4 n)) < 2 ^ 32" by (rule block_top_bound [OF v]) simp
  have b: "block_base ?k (unat (addr4 n)) < 2 ^ 32" by (rule le_less_trans [OF block_le(1) v])
  show "unat (ref_v4_network n) = block_base ?k (unat (addr4 n))"
    using b by (simp add: ref_v4_network_def unat_word_of_nat)
  show "unat (ref_v4_broadcast n) = block_top ?k (unat (addr4 n))"
    using t by (simp add: ref_v4_broadcast_def unat_word_of_nat)
qed

lemma unat_ref_v6:
  "unat (ref_v6_network n) = block_base (128 - unat (plen6 n)) (unat (addr6 n))"
  "unat (ref_v6_broadcast n) = block_top (128 - unat (plen6 n)) (unat (addr6 n))"
proof -
  let ?k = "128 - unat (plen6 n)"
  have v: "unat (addr6 n) < 2 ^ 128" using unsigned_less [of "addr6 n", where ?'a = nat] by simp
  have t: "block_top ?k (unat (addr6 n)) < 2 ^ 128" by (rule block_top_bound [OF v]) simp
  have b: "block_base ?k (unat (addr6 n)) < 2 ^ 128" by (rule le_less_trans [OF block_le(1) v])
  show "unat (ref_v6_network n) = block_base ?k (unat (addr6 n))"
    using b by (simp add: ref_v6_network_def unat_word_of_nat)
  show "unat (ref_v6_broadcast n) = block_top ?k (unat (addr6 n))"
    using t by (simp add: ref_v6_broadcast_def unat_word_of_nat)
qed

lemma ref_v4_cover_member:
  fixes s e :: u32
  assumes "(b, k) \<in> set (cover 32 (unat s) (unat e))"
  shows "ref_v4_contains (Ipv4Net (word_of_nat b) (word_of_nat (32 - k))) a \<longleftrightarrow>
    b \<le> unat a \<and> unat a < b + 2 ^ k"
proof -
  have c: "k \<le> 32" "b + 2 ^ k \<le> Suc (unat e)" "b mod 2 ^ k = 0"
    using cover_members [OF assms] by auto
  have one: "(1::nat) \<le> 2 ^ k" by simp
  have "b < 4294967296" using c(2) one unat_u32_less [of e] by linarith
  then have "unat (word_of_nat b :: u32) = b" by (simp add: unat_word_of_nat)
  moreover have "unat (word_of_nat (32 - k) :: u8) = 32 - k" by (simp add: unat_word_of_nat)
  ultimately show ?thesis
    using c by (simp add: ref_v4_contains_def word_le_nat_alt unat_ref_v4 aligned_block)
qed

lemma ref_v6_cover_member:
  fixes s e :: u128
  assumes "(b, k) \<in> set (cover 128 (unat s) (unat e))"
  shows "ref_v6_contains (Ipv6Net (word_of_nat b) (word_of_nat (128 - k))) a \<longleftrightarrow>
    b \<le> unat a \<and> unat a < b + 2 ^ k"
proof -
  have c: "k \<le> 128" "b + 2 ^ k \<le> Suc (unat e)" "b mod 2 ^ k = 0"
    using cover_members [OF assms] by auto
  have one: "(1::nat) \<le> 2 ^ k" by simp
  have "b < 340282366920938463463374607431768211456" using c(2) one unat_u128_less [of e] by linarith
  then have "unat (word_of_nat b :: u128) = b" by (simp add: unat_word_of_nat)
  moreover have "unat (word_of_nat (128 - k) :: u8) = 128 - k" by (simp add: unat_word_of_nat)
  ultimately show ?thesis
    using c by (simp add: ref_v6_contains_def word_le_nat_alt unat_ref_v6 aligned_block)
qed

lemma ref_v4_subnets_exact:
  "(\<exists>m \<in> set (ref_v4_subnets s e). ref_v4_contains m a) \<longleftrightarrow> s \<le> a \<and> a \<le> e"
proof -
  have "(\<exists>m \<in> set (ref_v4_subnets s e). ref_v4_contains m a) \<longleftrightarrow>
      (\<exists>(b, k) \<in> set (cover 32 (unat s) (unat e)). b \<le> unat a \<and> unat a < b + 2 ^ k)"
    unfolding ref_v4_subnets_def set_map bex_simps(7)
    by (rule bex_cong) (auto simp: ref_v4_cover_member)
  then show ?thesis by (simp add: cover_exact word_le_nat_alt)
qed

lemma ref_v6_subnets_exact:
  "(\<exists>m \<in> set (ref_v6_subnets s e). ref_v6_contains m a) \<longleftrightarrow> s \<le> a \<and> a \<le> e"
proof -
  have "(\<exists>m \<in> set (ref_v6_subnets s e). ref_v6_contains m a) \<longleftrightarrow>
      (\<exists>(b, k) \<in> set (cover 128 (unat s) (unat e)). b \<le> unat a \<and> unat a < b + 2 ^ k)"
    unfolding ref_v6_subnets_def set_map bex_simps(7)
    by (rule bex_cong) (auto simp: ref_v6_cover_member)
  then show ?thesis by (simp add: cover_exact word_le_nat_alt)
qed

lemma ref_network_val:
  "ip_val (ref_network n) = block_base (host_bits n) (ip_val (net_addr n))"
  by (cases n) (simp_all add: unat_ref_v4 unat_ref_v6 host_bits_def)

lemma ref_broadcast_val:
  "ip_val (ref_broadcast n) = block_top (host_bits n) (ip_val (net_addr n))"
  by (cases n) (simp_all add: unat_ref_v4 unat_ref_v6 host_bits_def)

lemma ref_contains_iff:
  "ref_contains n a \<longleftrightarrow>
    is_ipv4 a = net_is_v4 n \<and> ref_network n \<le> a \<and> a \<le> ref_broadcast n"
  by (cases n; cases a) (simp_all add: ref_v4_contains_def ref_v6_contains_def)

lemma ref_subnets_valid:
  "m \<in> set (ref_v4_subnets s e) \<Longrightarrow> net_valid (NetV4 m)"
  "m' \<in> set (ref_v6_subnets s' e') \<Longrightarrow> net_valid (NetV6 m')"
  by (auto simp: ref_v4_subnets_def ref_v6_subnets_def net_valid_def unat_word_of_nat)

interpretation ref: ipnet ref_ipnet
proof (unfold_locales, goal_cases)
  case (3 n) then show ?case by (simp add: ref_ipnet_def ref_network_val)
next
  case (4 n) then show ?case by (cases n) (simp_all add: ref_ipnet_def)
next
  case (6 n) then show ?case by (simp add: ref_ipnet_def ref_broadcast_val)
next
  case (9 n a) then show ?case by (simp add: ref_ipnet_def ref_contains_iff)
next
  case (12 n) then show ?case by (cases n) (simp_all add: ref_ipnet_def)
next
  case (13 n) then show ?case by (cases n) (simp_all add: ref_ipnet_def)
next
  case (14 s e a) then show ?case by (simp add: ref_ipnet_def ref_v4_subnets_exact)
next
  case (15 s e a) then show ?case by (simp add: ref_ipnet_def ref_v6_subnets_exact)
next
  case (16 m s e) then show ?case by (auto simp: ref_ipnet_def ref_subnets_valid)
next
  case (17 m s e) then show ?case by (auto simp: ref_ipnet_def ref_subnets_valid)
qed (simp_all add: ref_ipnet_def)

end
