(* ===== verification/Capsule_Ranges.thy ===== *)
theory Capsule_Ranges
  imports Capsule_Stream Ipnet_Reference
begin

text \<open>
  The range arithmetic behind ROUTE_ADVERTISEMENT, \<open>src/src/capsule/mod.rs\<close>: what a range
  matches, the range of a prefix, and \<open>merge_ranges\<close>, with the proof that merging keeps the
  advertised addresses and, for one protocol, leaves ranges that neither touch nor overlap.
\<close>

section \<open>Definitions\<close>

fun ip_key :: "ip_addr \<Rightarrow> u128" where
  "ip_key (V4 a) = ucast a"
| "ip_key (V6 a) = a"

definition from_net :: "ipnet_api \<Rightarrow> ip_net \<Rightarrow> u8 \<Rightarrow> ip_address_range" where
  "from_net api net ip_protocol =
     \<lparr>ir_ip_version = (if is_ipv4 (net_addr net) then 4 else 6),
      ir_start_ip = net_network api net, ir_end_ip = net_broadcast api net,
      ir_ip_protocol = ip_protocol\<rparr>"

definition range_contains :: "ip_address_range \<Rightarrow> ip_addr \<Rightarrow> u8 \<Rightarrow> bool" where
  "range_contains r addr proto =
     (let (version_matches, icmp_proto) =
        (case addr of V4 _ \<Rightarrow> (ir_ip_version r = 4, 1) | V6 _ \<Rightarrow> (ir_ip_version r = 6, 58)) in
      version_matches \<and>
      (ir_ip_protocol r = 0 \<or> ir_ip_protocol r = proto \<or> proto = icmp_proto) \<and>
      ip_key (ir_start_ip r) \<le> ip_key addr \<and> ip_key addr \<le> ip_key (ir_end_ip r))"

definition merge_one ::
    "ip_address_range list \<Rightarrow> ip_address_range \<Rightarrow> ip_address_range list" where
  "merge_one merged r =
     (if merged \<noteq> [] \<and> ir_ip_version (last merged) = ir_ip_version r \<and>
         ir_ip_protocol (last merged) = ir_ip_protocol r \<and>
         ip_key (ir_start_ip r) \<le> saturating_add (ip_key (ir_end_ip (last merged))) 1
      then (if ip_key (ir_end_ip r) > ip_key (ir_end_ip (last merged))
            then butlast merged @ [(last merged)\<lparr>ir_end_ip := ir_end_ip r\<rparr>] else merged)
      else merged @ [r])"

definition merge_ranges :: "ip_address_range list \<Rightarrow> ip_address_range list" where
  "merge_ranges ranges = foldl merge_one [] (sort_key derived_key ranges)"

section \<open>Ranges as intervals\<close>

lemma unat_ip_key [simp]: "unat (ip_key a) = ip_val a"
  by (cases a) (simp_all add: unat_ucast_up)

lemma ip_key_le [simp]: "ip_key a \<le> ip_key b \<longleftrightarrow> ip_val a \<le> ip_val b"
  by (simp add: word_le_nat_alt)

lemma ip_key_less [simp]: "ip_key a < ip_key b \<longleftrightarrow> ip_val a < ip_val b"
  by (simp add: word_less_nat_alt)

lemma ip_val_bound: "ip_val a < 2 ^ 128"
  using unsigned_less [of "ip_key a", where ?'a = nat] by simp

lemma touches_iff:
  "ip_key a \<le> saturating_add (ip_key b) 1 \<longleftrightarrow> ip_val a \<le> ip_val b + 1"
proof (cases "ip_val b + 1 < 2 ^ 128")
  case True
  then have "unat (ip_key b + 1) = ip_val b + 1" by (simp add: unat_word_ariths)
  then show ?thesis using True by (simp add: saturating_add_def word_le_nat_alt)
next
  case False
  then have "ip_val a \<le> ip_val b + 1" using ip_val_bound [of a] by linarith
  then show ?thesis using False by (simp add: saturating_add_def)
qed

text \<open>The protocols a range lets through, and the addresses.\<close>

definition proto_ok :: "u8 \<Rightarrow> ip_addr \<Rightarrow> u8 \<Rightarrow> bool" where
  "proto_ok p addr proto \<longleftrightarrow> p = 0 \<or> p = proto \<or> proto = (if is_ipv4 addr then 1 else 58)"

lemma range_contains_iff:
  "range_contains r a proto \<longleftrightarrow> ir_ip_version r = version_of a \<and> proto_ok (ir_ip_protocol r) a proto \<and>
    ip_val (ir_start_ip r) \<le> ip_val a \<and> ip_val a \<le> ip_val (ir_end_ip r)"
  unfolding range_contains_def ip_key_le by (cases a) (auto simp: proto_ok_def)

definition covers :: "ip_address_range list \<Rightarrow> ip_addr \<Rightarrow> u8 \<Rightarrow> bool" where
  "covers rs a proto \<longleftrightarrow> (\<exists>r \<in> set rs. range_contains r a proto)"

text \<open>Ranges of one version in order, with a gap between them.\<close>

definition apart :: "ip_address_range \<Rightarrow> ip_address_range \<Rightarrow> bool" where
  "apart a b \<longleftrightarrow> ir_ip_version a < ir_ip_version b \<or>
     ir_ip_version a = ir_ip_version b \<and> ip_val (ir_end_ip a) + 1 < ip_val (ir_start_ip b)"

definition before :: "ip_address_range \<Rightarrow> ip_address_range \<Rightarrow> bool" where
  "before a b \<longleftrightarrow> ir_ip_version a < ir_ip_version b \<or>
     ir_ip_version a = ir_ip_version b \<and> ip_val (ir_start_ip a) \<le> ip_val (ir_start_ip b)"

lemma wf_range_val: "wf_range r \<Longrightarrow> ip_val (ir_start_ip r) \<le> ip_val (ir_end_ip r)"
  using ip_le_iff_val [of "ir_start_ip r" "ir_end_ip r"] by (simp add: wf_range_def)

lemma apart_trans: "apart a b \<Longrightarrow> apart b c \<Longrightarrow> wf_range b \<Longrightarrow> apart a c"
  using wf_range_val [of b] by (auto simp: apart_def)

lemma before_end [simp]: "before (l\<lparr>ir_end_ip := e\<rparr>) = before l"
  by (simp add: before_def fun_eq_iff)

lemma derived_before:
  assumes "wf_range a" "wf_range b" "derived_key a \<le> derived_key b"
  shows "before a b"
proof -
  have "is_ipv4 (ir_start_ip a) = is_ipv4 (ir_start_ip b)" if "ir_ip_version a = ir_ip_version b"
    using assms that by (cases "ir_start_ip a"; cases "ir_start_ip b") (auto simp: wf_range_def)
  then show ?thesis
    using assms(3) by (auto simp: before_def derived_key_def ip_le_iff_val [symmetric] less_le)
qed

section \<open>Merging\<close>

lemma merge_one_Nil: "merge_one [] r = [r]"
  by (simp add: merge_one_def)

lemma merge_one_snoc:
  "merge_one (init @ [l]) r =
    (if ir_ip_version l = ir_ip_version r \<and> ir_ip_protocol l = ir_ip_protocol r \<and>
        ip_val (ir_start_ip r) \<le> ip_val (ir_end_ip l) + 1
     then init @ [if ip_val (ir_end_ip l) < ip_val (ir_end_ip r) then l\<lparr>ir_end_ip := ir_end_ip r\<rparr> else l]
     else init @ [l, r])"
  by (simp add: merge_one_def touches_iff)

text \<open>The state of the loop: well-formed, and everything that follows starts later.\<close>

definition loop_inv :: "ip_address_range list \<Rightarrow> ip_address_range list \<Rightarrow> bool" where
  "loop_inv merged rest \<longleftrightarrow> list_all wf_range merged \<and> list_all wf_range rest \<and>
     sorted (List.map derived_key rest) \<and>
     (merged \<noteq> [] \<longrightarrow> list_all (before (last merged)) rest)"

lemma wf_range_extend:
  assumes "wf_range l" "wf_range r" "ir_ip_version l = ir_ip_version r"
    "ip_val (ir_end_ip l) < ip_val (ir_end_ip r)"
  shows "wf_range (l\<lparr>ir_end_ip := ir_end_ip r\<rparr>)"
proof -
  have f: "is_ipv4 (ir_start_ip l) = is_ipv4 (ir_end_ip r)"
    using assms(1-3)
    by (cases "ir_start_ip l"; cases "ir_end_ip r"; cases "ir_start_ip r") (auto simp: wf_range_def)
  then show ?thesis
    using assms wf_range_val [of l] by (simp add: wf_range_def ip_le_iff_val)
qed

lemma loop_inv_step:
  assumes "loop_inv merged (r # rest)"
  shows "loop_inv (merge_one merged r) rest"
proof -
  have later: "list_all (before r) rest"
    using assms derived_before [of r] by (auto simp: loop_inv_def list_all_iff)
  show ?thesis
  proof (cases merged rule: rev_cases)
    case Nil
    then show ?thesis using assms later by (simp add: loop_inv_def merge_one_Nil)
  next
    case (snoc init l)
    then show ?thesis
      using assms later wf_range_extend [of l r]
      by (auto simp: loop_inv_def merge_one_snoc)
  qed
qed

lemma merge_one_covers:
  assumes "loop_inv merged (r # rest)"
  shows "covers (merge_one merged r) a p \<longleftrightarrow> covers merged a p \<or> range_contains r a p"
proof (cases merged rule: rev_cases)
  case Nil
  then show ?thesis by (simp add: merge_one_Nil covers_def)
next
  case (snoc init l)
  have "wf_range l" "wf_range r" "before l r" using assms snoc by (simp_all add: loop_inv_def)
  then show ?thesis
    using snoc wf_range_val [of l] wf_range_val [of r]
    by (auto simp: merge_one_snoc covers_def range_contains_iff before_def)
qed

lemma foldl_merge_covers:
  "loop_inv merged rest \<Longrightarrow>
    covers (foldl merge_one merged rest) a p \<longleftrightarrow> covers merged a p \<or> covers rest a p"
proof (induction rest arbitrary: merged)
  case (Cons r rest)
  then show ?case
    using loop_inv_step [OF Cons.prems] merge_one_covers [OF Cons.prems, of a p]
    by (auto simp: covers_def)
qed (simp add: covers_def)

lemma merge_one_protocols:
  "\<forall>x \<in> set merged. ir_ip_protocol x = proto \<Longrightarrow> ir_ip_protocol r = proto \<Longrightarrow>
    \<forall>x \<in> set (merge_one merged r). ir_ip_protocol x = proto"
  by (cases merged rule: rev_cases) (auto simp: merge_one_Nil merge_one_snoc split: if_splits)

lemma merge_one_apart:
  assumes inv: "loop_inv merged (r # rest)" and sorted: "sorted_wrt apart merged"
    and proto: "\<forall>x \<in> set merged. ir_ip_protocol x = proto" "ir_ip_protocol r = proto"
  shows "sorted_wrt apart (merge_one merged r)"
proof (cases merged rule: rev_cases)
  case (snoc init l)
  have l: "wf_range l" "before l r" using inv snoc by (simp_all add: loop_inv_def)
  have s: "sorted_wrt apart init" "\<forall>x \<in> set init. apart x l"
    using sorted snoc by (simp_all add: sorted_wrt_append)
  have p: "ir_ip_protocol l = ir_ip_protocol r" using proto snoc by simp
  show ?thesis
  proof (cases "apart l r")
    case True
    then have "merge_one merged r = init @ [l, r]"
      using snoc by (auto simp: merge_one_snoc apart_def)
    moreover have "\<forall>x \<in> set init. apart x r" using s(2) apart_trans [OF _ True l(1)] by blast
    ultimately show ?thesis using s True by (simp add: sorted_wrt_append)
  next
    case False
    then have "ir_ip_version l = ir_ip_version r" "ip_val (ir_start_ip r) \<le> ip_val (ir_end_ip l) + 1"
      using l(2) by (auto simp: apart_def before_def)
    then obtain l' where "merge_one merged r = init @ [l']" "ir_ip_version l' = ir_ip_version l"
        "ir_start_ip l' = ir_start_ip l"
      using snoc p by (auto simp: merge_one_snoc)
    then show ?thesis using s by (simp add: sorted_wrt_append apart_def)
  qed
qed (simp add: merge_one_Nil)

lemma foldl_merge_apart:
  assumes "loop_inv merged rest" "sorted_wrt apart merged"
    "\<forall>r \<in> set (merged @ rest). ir_ip_protocol r = proto"
  shows "sorted_wrt apart (foldl merge_one merged rest)"
  using assms
proof (induction rest arbitrary: merged)
  case (Cons r rest)
  then have p: "\<forall>x \<in> set merged. ir_ip_protocol x = proto" "ir_ip_protocol r = proto"
    "\<forall>x \<in> set rest. ir_ip_protocol x = proto" by auto
  have "sorted_wrt apart (foldl merge_one (merge_one merged r) rest)"
  proof (rule Cons.IH)
    show "loop_inv (merge_one merged r) rest" by (rule loop_inv_step [OF Cons.prems(1)])
    show "sorted_wrt apart (merge_one merged r)"
      by (rule merge_one_apart [OF Cons.prems(1,2) p(1,2)])
    show "\<forall>x \<in> set (merge_one merged r @ rest). ir_ip_protocol x = proto"
      using merge_one_protocols [OF p(1,2)] p(3) by auto
  qed
  then show ?case by simp
qed simp

lemma loop_inv_init: "list_all wf_range rs \<Longrightarrow> loop_inv [] (sort_key derived_key rs)"
  by (simp add: loop_inv_def list_all_iff)

section \<open>Properties\<close>

text \<open>
  C33: \<open>merge_ranges\<close> neither widens nor narrows an advertisement: for every address and
  protocol, the merged ranges match a packet exactly when one of the given ranges did.
\<close>

theorem merge_ranges_coverage:
  assumes "list_all wf_range rs"
  shows "(\<exists>r \<in> set (merge_ranges rs). range_contains r a p) \<longleftrightarrow> (\<exists>r \<in> set rs. range_contains r a p)"
  using foldl_merge_covers [OF loop_inv_init [OF assms], of a p]
  by (simp add: merge_ranges_def covers_def)

text \<open>
  When the given ranges have one protocol, as for the routes the proxy advertises, the
  merged list is sorted and between any two ranges of one version at least one address is
  uncovered: no overlaps and nothing left to coalesce.
\<close>

theorem merge_ranges_disjoint:
  assumes "list_all wf_range rs" and "\<forall>r \<in> set rs. ir_ip_protocol r = proto"
  shows "sorted_wrt apart (merge_ranges rs)"
  using foldl_merge_apart [OF loop_inv_init [OF assms(1)], of proto] assms(2)
  by (simp add: merge_ranges_def)

definition v4_range :: "u32 \<Rightarrow> u32 \<Rightarrow> u8 \<Rightarrow> ip_address_range" where
  "v4_range s e p = \<lparr>ir_ip_version = 4, ir_start_ip = V4 s, ir_end_ip = V4 e, ir_ip_protocol = p\<rparr>"

theorem merge_ranges_coverage_witness:
  "list_all wf_range [v4_range 5 9 0, v4_range 1 6 0] \<and>
   ((\<exists>r \<in> set (merge_ranges [v4_range 5 9 0, v4_range 1 6 0]). range_contains r (V4 8) 17) \<longleftrightarrow>
    (\<exists>r \<in> set [v4_range 5 9 0, v4_range 1 6 0]. range_contains r (V4 8) 17))"
proof -
  have "list_all wf_range [v4_range 5 9 0, v4_range 1 6 0]" by (simp add: v4_range_def wf_range_def)
  from merge_ranges_coverage [OF this, of "V4 8" 17] this show ?thesis by blast
qed

theorem merge_ranges_disjoint_witness:
  "list_all wf_range [v4_range 5 9 0, v4_range 1 6 0] \<and>
   sorted_wrt apart (merge_ranges [v4_range 5 9 0, v4_range 1 6 0])"
proof -
  have "list_all wf_range [v4_range 5 9 0, v4_range 1 6 0]" by (simp add: v4_range_def wf_range_def)
  with merge_ranges_disjoint [OF this, of 0] show ?thesis by (simp add: v4_range_def)
qed

text \<open>
  The range of a prefix matches exactly the packets to addresses of the prefix, of the
  protocol scope or ICMP, for every implementation of prefix arithmetic that follows the laws.
\<close>

theorem from_net_contains:
  assumes "ipnet api" "net_valid net"
  shows "range_contains (from_net api net proto) a p \<longleftrightarrow>
    net_contains api net a \<and> (proto = 0 \<or> proto = p \<or> p = (if is_ipv4 a then 1 else 58))"
proof -
  have f: "is_ipv4 (net_network api net) = net_is_v4 net" "is_ipv4 (net_addr net) = net_is_v4 net"
    using ipnet.network_v4 [OF assms(1)] ipnet.network_v6 [OF assms(1)] by (cases net; simp)+
  show ?thesis
    using f ipnet.contains_iff [OF assms] ipnet.broadcast_family [OF assms(1), of net]
    by (cases a) (auto simp: range_contains_iff from_net_def proto_ok_def ip_le_iff_val)
qed

theorem from_net_contains_witness:
  "range_contains (from_net ref_ipnet (NetV4 (Ipv4Net 0x0A000001 24)) 0) (V4 0x0A0000FE) 17 \<longleftrightarrow>
   net_contains ref_ipnet (NetV4 (Ipv4Net 0x0A000001 24)) (V4 0x0A0000FE) \<and>
   ((0 :: u8) = 0 \<or> (0 :: u8) = 17 \<or> (17 :: u8) = (if is_ipv4 (V4 0x0A0000FE) then 1 else 58))"
  by (rule from_net_contains [OF ref.ipnet_axioms]) (simp add: net_valid_def)

section \<open>Where the code departs from its documentation\<close>

text \<open>
  The comment on \<open>merge_ranges\<close> promises ranges sorted by version, protocol and start, with
  overlaps coalesced. The sort it calls uses the derived order (version, start, end,
  protocol), so ranges of two protocols interleave and overlapping ranges of one protocol
  survive.
\<close>

lemma merge_ranges_mixed_protocols:
  "merge_ranges [v4_range 0 10 6, v4_range 0 10 17, v4_range 5 20 6] =
   [v4_range 0 10 6, v4_range 0 10 17, v4_range 5 20 6]"
  by (simp add: merge_ranges_def derived_key_def v4_range_def merge_one_def saturating_add_def)

text \<open>
  \<open>RouteAdvertisement::decode\<close> compares the keys of RFC 9484 only for neighbours that are out
  of the derived order, so it accepts an advertisement whose keys decrease.
\<close>

lemma route_decode_accepts_unordered:
  "\<exists>payload rs. route_decode payload = Ok \<lparr>ip_address_ranges = rs\<rparr> \<and>
     \<not> sorted (List.map rfc_key rs)"
proof -
  let ?rs = "[v4_range 0 10 17, v4_range 20 30 6]"
  have "list_all wf_range ?rs" by (simp add: v4_range_def wf_range_def)
  from range.items_roundtrip [OF this] obtain p where
    "decode_items decode_ip_address_range p = Ok ?rs" by blast
  then have "route_decode p = Ok \<lparr>ip_address_ranges = ?rs\<rparr>"
    by (simp add: route_decode_def derived_key_def v4_range_def)
  moreover have "\<not> sorted (List.map rfc_key ?rs)" by (simp add: rfc_key_def v4_range_def)
  ultimately show ?thesis by blast
qed

end
