(* ===== verification/Datagram.thy ===== *)
theory Datagram
  imports Varint
begin

text \<open>
  HTTP Datagrams over QUIC DATAGRAM frames, \<open>src/src/datagram\<close>: the two-varint framing, its
  overhead, the usable tunnel MTU and the context registry.
\<close>

section \<open>Definitions\<close>

definition CONTEXT_ID_IP_PACKET :: u64 where
  "CONTEXT_ID_IP_PACKET = 0"

record ip_proxying_datagram =
  dg_context_id :: u64
  dg_payload :: bytes

definition dg_ip_packet :: "bytes \<Rightarrow> ip_proxying_datagram" where
  "dg_ip_packet packet = \<lparr>dg_context_id = CONTEXT_ID_IP_PACKET, dg_payload = packet\<rparr>"

definition dg_decode :: "(decode_error, ip_proxying_datagram) reader" where
  "dg_decode =
     rbind read_varint (\<lambda>context_id bs.
       rbind (copy_to_bytes (length bs)) (\<lambda>payload.
         rret \<lparr>dg_context_id = context_id, dg_payload = payload\<rparr>) bs)"

definition dg_encode :: "ip_proxying_datagram \<Rightarrow> (decode_error, bytes) res" where
  "dg_encode d =
     and_then (unwrap (write_varint (dg_context_id d))) (\<lambda>c. Ok (c @ dg_payload d))"

definition dg_encoded_len :: "ip_proxying_datagram \<Rightarrow> (decode_error, nat) res" where
  "dg_encoded_len d =
     and_then (unwrap (varint_len (dg_context_id d))) (\<lambda>n. Ok (n + length (dg_payload d)))"

text \<open>\<open>varint_len(v).unwrap_or(8)\<close>.\<close>

definition varint_len_or_8 :: "u64 \<Rightarrow> nat" where
  "varint_len_or_8 v = (case varint_len v of Ok n \<Rightarrow> n | _ \<Rightarrow> 8)"

definition datagram_overhead :: "u64 \<Rightarrow> nat" where
  "datagram_overhead qsid = varint_len_or_8 qsid + varint_len_or_8 CONTEXT_ID_IP_PACKET"

definition max_ip_packet_size :: "nat \<Rightarrow> u64 \<Rightarrow> nat option" where
  "max_ip_packet_size max_datagram_size qsid =
     (if datagram_overhead qsid \<le> max_datagram_size
      then Some (max_datagram_size - datagram_overhead qsid) else None)"

text \<open>The debug assertion that the stream id is a multiple of four is not part of a release build.\<close>

definition quarter_stream_id :: "u64 \<Rightarrow> u64" where
  "quarter_stream_id stream_id = stream_id div 4"

definition encode_quic_datagram :: "u64 \<Rightarrow> ip_proxying_datagram \<Rightarrow> (decode_error, bytes) res" where
  "encode_quic_datagram qsid datagram =
     and_then (unwrap (varint_len qsid)) (\<lambda>_.
     and_then (dg_encoded_len datagram) (\<lambda>_.
     and_then (unwrap (write_varint qsid)) (\<lambda>q.
     and_then (dg_encode datagram) (\<lambda>d. Ok (q @ d)))))"

definition decode_quic_datagram :: "bytes \<Rightarrow> (decode_error, u64 \<times> ip_proxying_datagram) res" where
  "decode_quic_datagram buf =
     fst (rbind read_varint (\<lambda>qsid. rbind dg_decode (\<lambda>d. rret (qsid, d))) buf)"

subsection \<open>Context registry\<close>

datatype context_kind = IpPacket

record context_registry =
  cr_contexts :: "u64 \<rightharpoonup> context_kind"

definition cr_new :: context_registry where
  "cr_new = \<lparr>cr_contexts = [CONTEXT_ID_IP_PACKET \<mapsto> IpPacket]\<rparr>"

definition cr_lookup :: "context_registry \<Rightarrow> u64 \<Rightarrow> context_kind option" where
  "cr_lookup r context_id = cr_contexts r context_id"

definition cr_register :: "u64 \<Rightarrow> context_kind \<Rightarrow> context_registry \<Rightarrow> context_registry" where
  "cr_register context_id kind r = r\<lparr>cr_contexts := (cr_contexts r)(context_id \<mapsto> kind)\<rparr>"

section \<open>Lemmas\<close>

lemma dg_roundtrip:
  assumes "dg_context_id d \<le> VARINT_MAX"
  shows "\<exists>bs. dg_encode d = Ok bs \<and> dg_encoded_len d = Ok (length bs) \<and> dg_decode bs = (Ok d, [])"
proof -
  obtain c where c: "write_varint (dg_context_id d) = Ok c"
      "varint_len (dg_context_id d) = Ok (length c)"
      "\<And>rest. read_varint (c @ rest) = (Ok (dg_context_id d), rest)"
    using write_varint_Ok [OF assms] by auto
  then show ?thesis
    by (cases d) (simp add: dg_encode_def dg_encoded_len_def dg_decode_def rbind_def rret_def
      copy_to_bytes_def)
qed

lemma encode_quic_datagram_Ok:
  assumes "qsid \<le> VARINT_MAX" "dg_context_id d \<le> VARINT_MAX"
  shows "\<exists>q bs. encode_quic_datagram qsid d = Ok (q @ bs) \<and> varint_len qsid = Ok (length q) \<and>
    dg_encoded_len d = Ok (length bs) \<and> decode_quic_datagram (q @ bs) = Ok (qsid, d)"
proof -
  obtain q where q: "write_varint qsid = Ok q" "varint_len qsid = Ok (length q)"
      "\<And>rest. read_varint (q @ rest) = (Ok qsid, rest)"
    using write_varint_Ok [OF assms(1)] by auto
  obtain bs where "dg_encode d = Ok bs" "dg_encoded_len d = Ok (length bs)" "dg_decode bs = (Ok d, [])"
    using dg_roundtrip [OF assms(2)] by auto
  with q show ?thesis
    by (intro exI [of _ q] exI [of _ bs])
       (simp add: encode_quic_datagram_def decode_quic_datagram_def rbind_def rret_def)
qed

lemma quarter_bound: "quarter_stream_id s \<le> VARINT_MAX"
proof -
  have "unat s div 4 \<le> unat (VARINT_MAX)"
    using unsigned_less [of s, where ?'a = nat] by (simp add: VARINT_MAX_def)
  then show ?thesis by (simp add: quarter_stream_id_def word_le_nat_alt unat_div)
qed

lemma varint_len_0 [simp]: "varint_len 0 = Ok 1"
  by (simp add: varint_len_def)

lemma no_panic_dg_decode: "fst (dg_decode bs) \<noteq> Panic"
  using no_panicD [OF no_panic_read_varint]
  by (auto simp: dg_decode_def rbind_def copy_to_bytes_def rret_def split: prod.splits res.splits)

section \<open>Properties\<close>

text \<open>
  A datagram survives the QUIC DATAGRAM framing: decoding what \<open>encode_quic_datagram\<close>
  wrote returns the quarter stream id and the datagram, for every id that fits a varint.
\<close>

theorem quic_datagram_roundtrip:
  assumes "qsid \<le> VARINT_MAX" "dg_context_id d \<le> VARINT_MAX"
  shows "\<exists>w. encode_quic_datagram qsid d = Ok w \<and> decode_quic_datagram w = Ok (qsid, d)"
  using encode_quic_datagram_Ok [OF assms] by blast

theorem quic_datagram_roundtrip_witness:
  "\<exists>w. encode_quic_datagram 5 (dg_ip_packet [0x45, 0]) = Ok w \<and>
     decode_quic_datagram w = Ok (5, dg_ip_packet [0x45, 0])"
  by (rule quic_datagram_roundtrip)
     (simp_all add: VARINT_MAX_def dg_ip_packet_def CONTEXT_ID_IP_PACKET_def)

lemma datagram_fits:
  assumes "qsid \<le> VARINT_MAX"
  shows "\<exists>w. encode_quic_datagram qsid (dg_ip_packet packet) = Ok w \<and>
    (length w \<le> max_size \<longleftrightarrow>
      (case max_ip_packet_size max_size qsid of None \<Rightarrow> False | Some n \<Rightarrow> length packet \<le> n))"
proof -
  have "dg_context_id (dg_ip_packet packet) \<le> VARINT_MAX"
    by (simp add: dg_ip_packet_def CONTEXT_ID_IP_PACKET_def)
  from encode_quic_datagram_Ok [OF assms this] show ?thesis
    by (auto simp: max_ip_packet_size_def datagram_overhead_def varint_len_or_8_def dg_encoded_len_def
      dg_ip_packet_def CONTEXT_ID_IP_PACKET_def and_then_eq_Ok unwrap_eq_Ok)
qed

text \<open>
  C38: the tunnel MTU is exact: an IP packet fits \<open>max_ip_packet_size\<close> if and only if its whole
  QUIC DATAGRAM fits the connection's limit, and there is no MTU exactly when the limit is
  smaller than the datagram of an empty packet.
\<close>

theorem tunnel_mtu_exact:
  assumes "qsid \<le> VARINT_MAX"
  shows "\<exists>w. encode_quic_datagram qsid (dg_ip_packet packet) = Ok w \<and>
    (length w \<le> max_size \<longleftrightarrow>
      (case max_ip_packet_size max_size qsid of None \<Rightarrow> False | Some n \<Rightarrow> length packet \<le> n))"
  by (rule datagram_fits) (fact assms)

theorem tunnel_mtu_exact_witness:
  "\<exists>w. encode_quic_datagram 70 (dg_ip_packet [1, 2, 3]) = Ok w \<and>
    (length w \<le> 6 \<longleftrightarrow>
      (case max_ip_packet_size 6 70 of None \<Rightarrow> False | Some n \<Rightarrow> length [1 :: u8, 2, 3] \<le> n))"
  by (rule tunnel_mtu_exact) (simp add: VARINT_MAX_def)

end
