(* ===== verification/Pool_Correct.thy ===== *)
theory Pool_Correct
  imports Address_Pool
begin

text \<open>
  Correctness of the address pool: the interface of a source of host addresses with the
  search loop as its client, the invariant of the pool, and the properties of allocation and
  release over every sequence of operations.
\<close>

section \<open>A source of addresses\<close>

text \<open>
  What the search loops of \<open>allocate_v4\<close> and \<open>allocate_v6\<close> rely on: \<open>nxt\<close> yields a pending address
  and loses no other, and gives up only when none is pending. The loop then returns a pending
  address that is not taken, and gives up only when all of them are.
\<close>

locale host_source =
  fixes nxt :: "'p \<Rightarrow> 'a option \<times> 'p"
    and pending :: "'p \<Rightarrow> 'a set"
    and left :: "'p \<Rightarrow> nat"
    and inv :: "'p \<Rightarrow> bool"
    and taken :: "'t \<Rightarrow> 'a \<Rightarrow> bool"
    and search :: "'t \<Rightarrow> 'p \<Rightarrow> 'a option \<times> 'p"
  assumes nxt_Some: "inv p \<Longrightarrow> nxt p = (Some a, p') \<Longrightarrow>
      inv p' \<and> a \<in> pending p \<and> pending p' \<subseteq> pending p \<and> pending p \<subseteq> insert a (pending p') \<and>
      left p' < left p"
    and nxt_None: "inv p \<Longrightarrow> nxt p = (None, p') \<Longrightarrow> inv p' \<and> pending p = {} \<and> pending p' = {}"
    and search_step: "search t p = (case nxt p of
        (None, p') \<Rightarrow> (None, p')
      | (Some a, p') \<Rightarrow> if taken t a then search t p' else (Some a, p'))"
begin

lemma search_spec:
  assumes "inv p" "search t p = (r, p')"
  shows "inv p' \<and> pending p' \<subseteq> pending p \<and>
    (case r of None \<Rightarrow> (\<forall>a \<in> pending p. taken t a)
     | Some a \<Rightarrow> a \<in> pending p \<and> \<not> taken t a \<and> (\<forall>b \<in> pending p. b \<in> pending p' \<or> b = a \<or> taken t b))"
  using assms
proof (induction "left p" arbitrary: p rule: less_induct)
  case less
  obtain o' q where n: "nxt p = (o', q)" by (cases "nxt p")
  show ?case
  proof (cases o')
    case None
    then have "r = None" "p' = q" using less.prems(2) n search_step [of t p] by auto
    then show ?thesis using nxt_None [of p q] less.prems(1) n None by simp
  next
    case (Some a)
    note q = nxt_Some [OF less.prems(1), of a q]
    show ?thesis
    proof (cases "taken t a")
      case True
      then have "search t q = (r, p')" using less.prems(2) n Some search_step [of t p] by simp
      moreover have "left q < left p" "inv q" using q n Some by simp_all
      ultimately have "inv p' \<and> pending p' \<subseteq> pending q \<and>
          (case r of None \<Rightarrow> (\<forall>a \<in> pending q. taken t a)
           | Some a \<Rightarrow> a \<in> pending q \<and> \<not> taken t a \<and>
               (\<forall>b \<in> pending q. b \<in> pending p' \<or> b = a \<or> taken t b))"
        using less.hyps by blast
      then show ?thesis using q n Some True by (auto split: option.splits)
    next
      case False
      then have "r = Some a" "p' = q" using less.prems(2) n Some search_step [of t p] by auto
      then show ?thesis using q n Some False by auto
    qed
  qed
qed

end

section \<open>The IPv4 pool\<close>

definition v4_valid :: "ipv4_net \<Rightarrow> bool" where
  "v4_valid net \<longleftrightarrow> unat (plen4 net) \<le> 32"

definition v6_valid :: "ipv6_net \<Rightarrow> bool" where
  "v6_valid net \<longleftrightarrow> unat (plen6 net) \<le> 128"

text \<open>The hosts of a pool: neither the network address, nor the gateway, nor the broadcast.\<close>

definition hosts4 :: "ipnet_api \<Rightarrow> ipv4_net \<Rightarrow> ipv4 set" where
  "hosts4 api net =
     {a. unat (v4_network api net) + 2 \<le> unat a \<and> unat a < unat (v4_broadcast api net)}"

definition pending4 :: "ipnet_api \<Rightarrow> v4_pool \<Rightarrow> ipv4 set" where
  "pending4 api p = set (p4_free p) \<union>
     {a \<in> hosts4 api (p4_net p). unat (v4_network api (p4_net p)) + unat (p4_cursor p) \<le> unat a}"

definition inv4 :: "ipnet_api \<Rightarrow> v4_pool \<Rightarrow> bool" where
  "inv4 api p \<longleftrightarrow> v4_valid (p4_net p) \<and> sorted (p4_free p) \<and> distinct (p4_free p) \<and>
     set (p4_free p) \<subseteq> hosts4 api (p4_net p) \<and>
     unat (v4_network api (p4_net p)) + unat (p4_cursor p) \<le> unat (v4_broadcast api (p4_net p))"

lemma v4_next_loop_spec:
  assumes "unat base + unat cursor \<le> unat bc" "v4_next_loop base bc cursor = (r, cursor')"
  shows "unat base + unat cursor' \<le> unat bc \<and> unat cursor \<le> unat cursor' \<and>
    (case r of
       None \<Rightarrow> unat bc \<le> max (unat base + unat cursor) (unat base + 2)
     | Some c \<Rightarrow> unat c = max (unat base + unat cursor) (unat base + 2) \<and> unat c < unat bc \<and>
         unat base + unat cursor' = unat c + 1)"
  using assms
proof (induction base bc cursor rule: v4_next_loop.induct)
  case (1 base bc cursor)
  have "unat base + unat cursor < 2 ^ LENGTH(32)"
    using 1(2) unsigned_less [of bc, where ?'a = nat] by linarith
  then obtain c where c: "checked_add base cursor = Some c" by (simp add: checked_add_def)
  then have uc: "unat c = unat base + unat cursor" by (simp add: checked_add_Some)
  show ?case
  proof (cases "bc \<le> c")
    case True
    then show ?thesis
      using 1(2,3) c uc by (auto simp: v4_next_loop.simps [of base] word_le_nat_alt)
  next
    case False
    then have "unat cursor < unat bc" using uc by (simp add: word_le_nat_alt)
    note s = unat_add_1 [OF this]
    have le2: "cursor + 1 \<le> 2 \<longleftrightarrow> unat cursor \<le> 1" using s by (simp add: word_le_nat_alt)
    have lt: "unat c < unat bc" using False by (simp add: word_le_nat_alt)
    show ?thesis
    proof (cases "cursor + 1 \<le> 2")
      case True
      then have "v4_next_loop base bc (cursor + 1) = (r, cursor')"
        using 1(3) c False by (simp add: v4_next_loop.simps [of base bc cursor])
      moreover have "unat base + unat (cursor + 1) \<le> unat bc" using s uc lt by simp
      ultimately show ?thesis
        using 1(1) [OF c False True] s le2 True uc lt by (auto split: option.splits)
    next
      case nb: False
      then have "r = Some c" "cursor' = cursor + 1"
        using 1(3) c False by (simp_all add: v4_next_loop.simps [of base bc cursor])
      then show ?thesis using nb s le2 uc lt by simp
    qed
  qed
qed

lemma pending4_free_Cons:
  "p4_free p = a # free \<Longrightarrow> pending4 api p = insert a (pending4 api (p\<lparr>p4_free := free\<rparr>))"
  by (simp add: pending4_def)

context ipnet
begin

lemma v4_network_le_broadcast:
  "v4_valid net \<Longrightarrow> unat (v4_network api net) \<le> unat (v4_broadcast api net)"
  unfolding v4_valid_def
  by (simp only: v4_network_unat v4_broadcast_unat) (rule le_trans [OF block_le])

lemma v4_next_Some:
  assumes inv: "inv4 api p" and nxt: "v4_next api p = (Some a, p')"
  shows "inv4 api p' \<and> a \<in> pending4 api p \<and> pending4 api p' \<subseteq> pending4 api p \<and>
    pending4 api p \<subseteq> insert a (pending4 api p') \<and> v4_left p' < v4_left p"
proof (cases "p4_free p")
  case Nil
  let ?b = "v4_network api (p4_net p)" and ?bc = "v4_broadcast api (p4_net p)"
  obtain c where c: "v4_next_loop ?b ?bc (p4_cursor p) = (Some a, c)" "p' = p\<lparr>p4_cursor := c\<rparr>"
    using nxt Nil by (auto simp: v4_next_def Let_def split: prod.splits)
  have "unat ?b + unat (p4_cursor p) \<le> unat ?bc" using inv by (simp add: inv4_def)
  from v4_next_loop_spec [OF this c(1)]
  have s: "unat ?b + unat c \<le> unat ?bc" "unat (p4_cursor p) \<le> unat c"
    "unat a = max (unat ?b + unat (p4_cursor p)) (unat ?b + 2)" "unat a < unat ?bc"
    "unat ?b + unat c = unat a + 1" by auto
  have "x = a \<or> unat ?b + unat c \<le> unat x"
    if "unat ?b + 2 \<le> unat x" "unat ?b + unat (p4_cursor p) \<le> unat x" for x
    using that s by (auto simp: word_unat_eq_iff)
  then show ?thesis
    using inv Nil c s v4_next_left [OF nxt] by (auto simp: inv4_def pending4_def hosts4_def)
next
  case (Cons b free)
  then have "p' = p\<lparr>p4_free := free\<rparr>" "b = a" using nxt by (simp_all add: v4_next_def)
  then show ?thesis
    using inv Cons v4_next_left [OF nxt] by (auto simp: inv4_def pending4_def)
qed

lemma v4_next_None:
  assumes inv: "inv4 api p" and nxt: "v4_next api p = (None, p')"
  shows "inv4 api p' \<and> pending4 api p = {} \<and> pending4 api p' = {}"
proof -
  let ?b = "v4_network api (p4_net p)" and ?bc = "v4_broadcast api (p4_net p)"
  have Nil: "p4_free p = []" using nxt by (simp add: v4_next_def split: list.splits)
  obtain c where c: "v4_next_loop ?b ?bc (p4_cursor p) = (None, c)" "p' = p\<lparr>p4_cursor := c\<rparr>"
    using nxt Nil by (auto simp: v4_next_def Let_def split: prod.splits)
  have "unat ?b + unat (p4_cursor p) \<le> unat ?bc" using inv by (simp add: inv4_def)
  from v4_next_loop_spec [OF this c(1)]
  have s: "unat ?b + unat c \<le> unat ?bc" "unat (p4_cursor p) \<le> unat c"
    "unat ?bc \<le> max (unat ?b + unat (p4_cursor p)) (unat ?b + 2)" by simp_all
  then show ?thesis
    using inv Nil c by (auto simp: inv4_def pending4_def hosts4_def)
qed

end

sublocale ipnet \<subseteq> v4: host_source "v4_next api" "pending4 api" v4_left "inv4 api"
  "\<lambda>m a. m (V4 a) \<noteq> None" "v4_search api"
proof
  show "v4_search api t p = (case v4_next api p of (None, p') \<Rightarrow> (None, p')
      | (Some a, p') \<Rightarrow> if t (V4 a) \<noteq> None then v4_search api t p' else (Some a, p'))" for t p
    by (subst v4_search.simps) (auto split: prod.split option.split)
qed (use v4_next_Some v4_next_None in blast)+

section \<open>The IPv6 pool\<close>

definition hosts6 :: "ipnet_api \<Rightarrow> ipv6_net \<Rightarrow> ipv6 set" where
  "hosts6 api net =
     {a. unat (v6_network api net) + 2 \<le> unat a \<and>
         unat a < unat (v6_network api net) + unat (v6_max_hosts net)}"

definition pending6 :: "ipnet_api \<Rightarrow> v6_pool \<Rightarrow> ipv6 set" where
  "pending6 api p = set (p6_free p) \<union>
     {a \<in> hosts6 api (p6_net p). unat (v6_network api (p6_net p)) + unat (p6_cursor p) \<le> unat a}"

definition inv6 :: "ipnet_api \<Rightarrow> v6_pool \<Rightarrow> bool" where
  "inv6 api p \<longleftrightarrow> v6_valid (p6_net p) \<and> sorted (p6_free p) \<and> distinct (p6_free p) \<and>
     set (p6_free p) \<subseteq> {a. v6_contains api (p6_net p) a} \<and>
     unat (p6_cursor p) \<le> unat (v6_max_hosts (p6_net p))"

lemma v6_next_loop_spec:
  assumes "unat cursor \<le> unat mh" "unat base + unat mh \<le> 2 ^ 128"
    "v6_next_loop base mh cursor = (r, cursor')"
  shows "unat cursor' \<le> unat mh \<and> unat cursor \<le> unat cursor' \<and>
    (case r of
       None \<Rightarrow> unat mh \<le> max (unat cursor) 2
     | Some c \<Rightarrow> unat c = unat base + max (unat cursor) 2 \<and> max (unat cursor) 2 < unat mh \<and>
         unat cursor' = max (unat cursor) 2 + 1)"
  using assms
proof (induction base mh cursor rule: v6_next_loop.induct)
  case (1 base mh cursor)
  show ?case
  proof (cases "mh \<le> cursor")
    case True
    then show ?thesis using 1(2,4) by (auto simp: v6_next_loop.simps [of base] word_le_nat_alt)
  next
    case False
    then have lt: "unat cursor < unat mh" by (simp add: word_le_nat_alt)
    then have "unat base + unat cursor < 2 ^ LENGTH(128)" using 1(3) by simp
    then obtain c where c: "checked_add base cursor = Some c" by (simp add: checked_add_def)
    then have uc: "unat c = unat base + unat cursor" by (simp add: checked_add_Some)
    note s = unat_add_1 [OF lt]
    have le2: "cursor + 1 \<le> 2 \<longleftrightarrow> unat cursor \<le> 1" using s by (simp add: word_le_nat_alt)
    show ?thesis
    proof (cases "cursor + 1 \<le> 2")
      case True
      then have "v6_next_loop base mh (cursor + 1) = (r, cursor')"
        using 1(4) c False by (simp add: v6_next_loop.simps [of base mh cursor])
      moreover have "unat (cursor + 1) \<le> unat mh" using s lt by simp
      ultimately show ?thesis
        using 1(1) [OF False c True _ 1(3)] s le2 True by (auto split: option.splits)
    next
      case nb: False
      then have "r = Some c" "cursor' = cursor + 1"
        using 1(4) c False by (simp_all add: v6_next_loop.simps [of base mh cursor])
      then show ?thesis using nb s le2 uc lt by simp
    qed
  qed
qed

lemma unat_v6_max_hosts:
  "unat (v6_max_hosts net) = (if 128 \<le> unat (plen6 net) then 1 else 2 ^ min (128 - unat (plen6 net)) 64)"
proof (cases "128 \<le> unat (plen6 net)")
  case True
  then show ?thesis by (simp add: v6_max_hosts_def word_le_nat_alt)
next
  case False
  let ?k = "min (128 - unat (plen6 net)) 64"
  have "(2::nat) ^ ?k < 2 ^ 128" by (rule power_strict_increasing) simp_all
  then have "unat (push_bit ?k 1 :: u128) = 2 ^ ?k" using unat_push_bit [of "1 :: u128" ?k] by simp
  then show ?thesis using False by (simp add: v6_max_hosts_def word_le_nat_alt)
qed

lemma v6_max_hosts_le: "v6_valid net \<Longrightarrow> unat (v6_max_hosts net) \<le> 2 ^ (128 - unat (plen6 net))"
  by (auto simp: unat_v6_max_hosts v6_valid_def intro: power_increasing)

context ipnet
begin

lemma v6_hosts_in_net:
  assumes "v6_valid net" "unat (v6_network api net) \<le> unat a"
    "unat a < unat (v6_network api net) + unat (v6_max_hosts net)"
  shows "v6_contains api net a"
proof -
  let ?k = "128 - unat (plen6 net)"
  have b: "unat (v6_network api net) = block_base ?k (unat (addr6 net))"
    using assms(1) by (simp add: v6_valid_def v6_network_unat)
  have "unat a < block_base ?k (unat (addr6 net)) + 2 ^ ?k"
    using assms v6_max_hosts_le [of net] b by linarith
  then have "unat a \<le> block_top ?k (unat (addr6 net))"
    unfolding block_top_def by linarith
  with b assms show ?thesis
    using block_member_iff [of ?k "unat (addr6 net)" "unat a"]
    by (simp add: v6_contains_block v6_valid_def)
qed

lemma v6_range_fits:
  assumes "v6_valid net"
  shows "unat (v6_network api net) + unat (v6_max_hosts net) \<le> 2 ^ 128"
proof -
  let ?k = "128 - unat (plen6 net)"
  have "block_top ?k (unat (addr6 net)) < 2 ^ 128"
    using unsigned_less [of "addr6 net", where ?'a = nat] by (intro block_top_bound) simp_all
  then have "block_base ?k (unat (addr6 net)) + 2 ^ ?k \<le> 2 ^ 128"
    unfolding block_top_def by linarith
  then show ?thesis
    using assms v6_max_hosts_le [OF assms] by (simp add: v6_valid_def v6_network_unat)
qed

lemma v6_next_Some:
  assumes inv: "inv6 api p" and nxt: "v6_next api p = (Some a, p')"
  shows "inv6 api p' \<and> a \<in> pending6 api p \<and> pending6 api p' \<subseteq> pending6 api p \<and>
    pending6 api p \<subseteq> insert a (pending6 api p') \<and> v6_left p' < v6_left p"
proof (cases "p6_free p")
  case Nil
  let ?b = "v6_network api (p6_net p)" and ?mh = "v6_max_hosts (p6_net p)"
  obtain c where c: "v6_next_loop ?b ?mh (p6_cursor p) = (Some a, c)" "p' = p\<lparr>p6_cursor := c\<rparr>"
    using nxt Nil by (auto simp: v6_next_def Let_def split: prod.splits)
  have "unat (p6_cursor p) \<le> unat ?mh" "unat ?b + unat ?mh \<le> 2 ^ 128"
    using inv v6_range_fits by (simp_all add: inv6_def)
  from v6_next_loop_spec [OF this c(1)]
  have s: "unat c \<le> unat ?mh" "unat (p6_cursor p) \<le> unat c"
    "unat a = unat ?b + max (unat (p6_cursor p)) 2" "max (unat (p6_cursor p)) 2 < unat ?mh"
    "unat c = max (unat (p6_cursor p)) 2 + 1" by auto
  have "x = a \<or> unat ?b + unat c \<le> unat x"
    if "unat ?b + 2 \<le> unat x" "unat ?b + unat (p6_cursor p) \<le> unat x" for x
    using that s by (auto simp: word_unat_eq_iff)
  then show ?thesis
    using inv Nil c s v6_next_left [OF nxt] by (auto simp: inv6_def pending6_def hosts6_def)
next
  case (Cons b free)
  then have "p' = p\<lparr>p6_free := free\<rparr>" "b = a" using nxt by (simp_all add: v6_next_def)
  then show ?thesis
    using inv Cons v6_next_left [OF nxt] by (auto simp: inv6_def pending6_def)
qed

lemma v6_next_None:
  assumes inv: "inv6 api p" and nxt: "v6_next api p = (None, p')"
  shows "inv6 api p' \<and> pending6 api p = {} \<and> pending6 api p' = {}"
proof -
  let ?b = "v6_network api (p6_net p)" and ?mh = "v6_max_hosts (p6_net p)"
  have Nil: "p6_free p = []" using nxt by (simp add: v6_next_def split: list.splits)
  obtain c where c: "v6_next_loop ?b ?mh (p6_cursor p) = (None, c)" "p' = p\<lparr>p6_cursor := c\<rparr>"
    using nxt Nil by (auto simp: v6_next_def Let_def split: prod.splits)
  have "unat (p6_cursor p) \<le> unat ?mh" "unat ?b + unat ?mh \<le> 2 ^ 128"
    using inv v6_range_fits by (simp_all add: inv6_def)
  from v6_next_loop_spec [OF this c(1)]
  have "unat c \<le> unat ?mh" "unat (p6_cursor p) \<le> unat c"
    "unat ?mh \<le> max (unat (p6_cursor p)) 2" by simp_all
  then show ?thesis
    using inv Nil c by (auto simp: inv6_def pending6_def hosts6_def)
qed

end

sublocale ipnet \<subseteq> v6: host_source "v6_next api" "pending6 api" v6_left "inv6 api"
  "\<lambda>m a. m (V6 a) \<noteq> None" "v6_search api"
proof
  show "v6_search api t p = (case v6_next api p of (None, p') \<Rightarrow> (None, p')
      | (Some a, p') \<Rightarrow> if t (V6 a) \<noteq> None then v6_search api t p' else (Some a, p'))" for t p
    by (subst v6_search.simps) (auto split: prod.split option.split)
qed (use v6_next_Some v6_next_None in blast)+

section \<open>The invariant\<close>

definition held :: "address_pool \<Rightarrow> session_id \<Rightarrow> ip_addr list" where
  "held p s = (case ap_allocations p s of None \<Rightarrow> [] | Some addrs \<Rightarrow> addrs)"

text \<open>An address the pool may hand out at all.\<close>

fun assignable :: "ipnet_api \<Rightarrow> address_pool \<Rightarrow> ip_addr \<Rightarrow> bool" where
  "assignable api p (V4 a) \<longleftrightarrow> a \<in> hosts4 api (p4_net (ap_v4 p))"
| "assignable api p (V6 a) \<longleftrightarrow> (\<exists>q. ap_v6 p = Some q \<and> v6_contains api (p6_net q) a)"

text \<open>The two pools are well-formed.\<close>

definition sources_ok :: "ipnet_api \<Rightarrow> address_pool \<Rightarrow> bool" where
  "sources_ok api p \<longleftrightarrow> inv4 api (ap_v4 p) \<and> (\<forall>q. ap_v6 p = Some q \<longrightarrow> inv6 api q)"

text \<open>The index of allocated addresses and the lists of the sessions agree.\<close>

definition books_ok :: "ipnet_api \<Rightarrow> address_pool \<Rightarrow> bool" where
  "books_ok api p \<longleftrightarrow>
     (\<forall>a s. ap_allocated p a = Some s \<longleftrightarrow> a \<in> set (held p s)) \<and>
     (\<forall>s. distinct (held p s)) \<and>
     (\<forall>a. ap_allocated p a \<noteq> None \<longrightarrow> assignable api p a)"

text \<open>No host is lost: it is allocated or will be yielded.\<close>

definition nothing_lost :: "ipnet_api \<Rightarrow> address_pool \<Rightarrow> bool" where
  "nothing_lost api p \<longleftrightarrow>
     (\<forall>a \<in> hosts4 api (p4_net (ap_v4 p)). ap_allocated p (V4 a) \<noteq> None \<or> a \<in> pending4 api (ap_v4 p)) \<and>
     (\<forall>q. ap_v6 p = Some q \<longrightarrow>
        (\<forall>a \<in> hosts6 api (p6_net q). ap_allocated p (V6 a) \<noteq> None \<or> a \<in> pending6 api q))"

definition pool_inv :: "ipnet_api \<Rightarrow> address_pool \<Rightarrow> bool" where
  "pool_inv api p \<longleftrightarrow> sources_ok api p \<and> books_ok api p \<and> nothing_lost api p"

lemma record_alloc_simps [simp]:
  "ap_v4 (record_alloc s a p) = ap_v4 p" "ap_v6 (record_alloc s a p) = ap_v6 p"
  "ap_allocated (record_alloc s a p) = (ap_allocated p)(a \<mapsto> s)"
  "held (record_alloc s a p) s' = held p s' @ (if s' = s then [a] else [])"
  by (auto simp: record_alloc_def held_def)

lemma assignable_cong:
  "p4_net (ap_v4 p') = p4_net (ap_v4 p) \<Longrightarrow>
   map_option p6_net (ap_v6 p') = map_option p6_net (ap_v6 p) \<Longrightarrow>
   assignable api p' a = assignable api p a"
  by (cases a) (auto simp: map_option_case split: option.splits)

lemma record_books:
  assumes "books_ok api p" "ap_allocated p a = None" "assignable api p a"
  shows "books_ok api (record_alloc s a p)"
proof -
  have "assignable api (record_alloc s a p) = assignable api p"
    by (intro ext assignable_cong) simp_all
  moreover have "\<forall>s. a \<notin> set (held p s)"
    using assms(1,2) unfolding books_ok_def by (metis option.distinct(1))
  ultimately show ?thesis using assms by (auto simp: books_ok_def)
qed

lemma record_nothing_lost: "nothing_lost api p \<Longrightarrow> nothing_lost api (record_alloc s a p)"
  by (auto simp: nothing_lost_def)

lemma books_cong:
  assumes "ap_allocations p' = ap_allocations p" "ap_allocated p' = ap_allocated p"
    "assignable api p' = assignable api p"
  shows "books_ok api p' = books_ok api p"
  using assms by (simp add: books_ok_def held_def)

lemma held_assignable: "pool_inv api p \<Longrightarrow> a \<in> set (held p s) \<Longrightarrow> assignable api p a"
  unfolding pool_inv_def books_ok_def by blast

context ipnet
begin

lemma v4_search_net: "v4_search api m p = (r, p') \<Longrightarrow> p4_net p' = p4_net p"
proof (induction api m p rule: v4_search.induct)
  case (1 api m p)
  obtain o' q where n: "v4_next api p = (o', q)" by (cases "v4_next api p")
  then have "p4_net q = p4_net p"
    by (auto simp: v4_next_def Let_def split: list.splits prod.splits)
  then show ?case
    using 1 n by (auto simp: v4_search.simps [of api m p] split: option.splits if_splits)
qed

lemma v6_search_net: "v6_search api m p = (r, p') \<Longrightarrow> p6_net p' = p6_net p"
proof (induction api m p rule: v6_search.induct)
  case (1 api m p)
  obtain o' q where n: "v6_next api p = (o', q)" by (cases "v6_next api p")
  then have "p6_net q = p6_net p"
    by (auto simp: v6_next_def Let_def split: list.splits prod.splits)
  then show ?case
    using 1 n by (auto simp: v6_search.simps [of api m p] split: option.splits if_splits)
qed

lemma allocate_v4_inv:
  assumes inv: "pool_inv api p" and al: "allocate_v4 api s p = (r, p')"
  shows "pool_inv api p' \<and>
    (case r of None \<Rightarrow> (\<forall>a \<in> hosts4 api (p4_net (ap_v4 p)). ap_allocated p (V4 a) \<noteq> None)
     | Some x \<Rightarrow> \<exists>a. aa_ip_address x = V4 a \<and> a \<in> hosts4 api (p4_net (ap_v4 p)) \<and>
         ap_allocated p (V4 a) = None \<and> ap_allocated p' = (ap_allocated p)(V4 a \<mapsto> s))"
proof -
  obtain r4 q where s: "v4_search api (ap_allocated p) (ap_v4 p) = (r4, q)" by fastforce
  have "inv4 api (ap_v4 p)" using inv by (simp add: pool_inv_def sources_ok_def)
  note sp = v4.search_spec [OF this s] and net = v4_search_net [OF s]
  let ?p = "p\<lparr>ap_v4 := q\<rparr>"
  have "assignable api ?p = assignable api p" by (intro ext assignable_cong) (simp_all add: net)
  then have books: "books_ok api ?p" using inv books_cong [of ?p p] by (simp add: pool_inv_def)
  have src: "sources_ok api ?p" using inv sp by (simp add: pool_inv_def sources_ok_def)
  have lost: "\<forall>a \<in> hosts4 api (p4_net q). ap_allocated p (V4 a) \<noteq> None \<or> a \<in> pending4 api (ap_v4 p)"
    using inv net by (simp add: pool_inv_def nothing_lost_def)
  have pend: "pending4 api (ap_v4 p) \<subseteq> hosts4 api (p4_net (ap_v4 p))"
    using inv by (auto simp: pool_inv_def sources_ok_def inv4_def pending4_def)
  show ?thesis
  proof (cases r4)
    case None
    then have "p' = ?p" "r = None" using al s by (simp_all add: allocate_v4_def)
    moreover have "nothing_lost api ?p" using inv lost sp None net
      by (auto simp: pool_inv_def nothing_lost_def)
    ultimately show ?thesis using books src lost sp None net by (auto simp: pool_inv_def)
  next
    case (Some a)
    then have p': "p' = record_alloc s (V4 a) ?p" and r: "\<exists>x. r = Some x \<and> aa_ip_address x = V4 a"
      using al s by (auto simp: allocate_v4_def)
    have a: "a \<in> hosts4 api (p4_net (ap_v4 p))" "ap_allocated p (V4 a) = None"
      using sp Some pend by auto
    then have "books_ok api p'" using record_books [OF books] p' net by simp
    moreover have "sources_ok api p'" using src p' by (simp add: sources_ok_def)
    moreover have "nothing_lost api p'"
      using inv lost sp Some net p' by (auto simp: pool_inv_def nothing_lost_def)
    ultimately show ?thesis using r a p' by (auto simp: pool_inv_def)
  qed
qed

lemma allocate_v6_inv:
  assumes inv: "pool_inv api p" and al: "allocate_v6 api s p = (r, p')"
  shows "pool_inv api p' \<and>
    (case r of None \<Rightarrow> (\<forall>q. ap_v6 p = Some q \<longrightarrow> (\<forall>a \<in> hosts6 api (p6_net q). ap_allocated p (V6 a) \<noteq> None))
     | Some x \<Rightarrow> \<exists>a. aa_ip_address x = V6 a \<and> assignable api p (V6 a) \<and>
         ap_allocated p (V6 a) = None \<and> ap_allocated p' = (ap_allocated p)(V6 a \<mapsto> s))"
proof (cases "ap_v6 p")
  case None
  then show ?thesis using inv al by (simp add: allocate_v6_def)
next
  case (Some q0)
  obtain r6 q where s: "v6_search api (ap_allocated p) q0 = (r6, q)" by fastforce
  have inv0: "inv6 api q0" using inv Some by (simp add: pool_inv_def sources_ok_def)
  note sp = v6.search_spec [OF inv0 s] and net = v6_search_net [OF s]
  let ?p = "p\<lparr>ap_v6 := Some q\<rparr>"
  have "assignable api ?p = assignable api p" by (intro ext assignable_cong) (simp_all add: net Some)
  then have books: "books_ok api ?p" using inv books_cong [of ?p p] by (simp add: pool_inv_def)
  have src: "sources_ok api ?p" using inv sp by (simp add: pool_inv_def sources_ok_def)
  have lost: "\<forall>a \<in> hosts6 api (p6_net q). ap_allocated p (V6 a) \<noteq> None \<or> a \<in> pending6 api q0"
    using inv net Some by (simp add: pool_inv_def nothing_lost_def)
  have pend: "pending6 api q0 \<subseteq> {a. v6_contains api (p6_net q0) a}"
    using inv0 v6_hosts_in_net [of "p6_net q0"] by (auto simp: inv6_def pending6_def hosts6_def)
  show ?thesis
  proof (cases r6)
    case None
    then have "p' = ?p" "r = None" using al s Some by (simp_all add: allocate_v6_def)
    moreover have "nothing_lost api ?p" using inv lost sp None net
      by (auto simp: pool_inv_def nothing_lost_def)
    ultimately show ?thesis using books src lost sp None net Some by (auto simp: pool_inv_def)
  next
    case (Some a)
    then have p': "p' = record_alloc s (V6 a) ?p" and r: "\<exists>x. r = Some x \<and> aa_ip_address x = V6 a"
      using al s \<open>ap_v6 p = Some q0\<close> by (auto simp: allocate_v6_def)
    have a: "v6_contains api (p6_net q0) a" "ap_allocated p (V6 a) = None"
      using sp Some pend by auto
    then have "books_ok api p'" using record_books [OF books] p' net by simp
    moreover have "sources_ok api p'" using src p' by (simp add: sources_ok_def)
    moreover have "nothing_lost api p'"
      using inv lost sp Some net p' by (auto simp: pool_inv_def nothing_lost_def)
    ultimately show ?thesis using r a p' \<open>ap_v6 p = Some q0\<close> by (auto simp: pool_inv_def)
  qed
qed

lemma specific_assignable:
  assumes "specific_ok api a p" "sources_ok api p"
  shows "assignable api p a"
proof (cases a)
  case (V4 x)
  let ?n = "p4_net (ap_v4 p)"
  have v: "unat (plen4 ?n) \<le> 32" using assms(2) by (simp add: sources_ok_def inv4_def v4_valid_def)
  have c: "v4_contains api ?n x" "x \<noteq> v4_network api ?n" "x \<noteq> v4_broadcast api ?n"
    "x \<noteq> v4_network api ?n + 1"
    using assms(1) V4 by (simp_all add: specific_ok_def ipv4_gateway_def Let_def)
  then have lt: "unat (v4_network api ?n) < unat x" "unat x < unat (v4_broadcast api ?n)"
    using v4_contains_iff [OF v] by (auto simp: word_le_nat_alt word_unat_eq_iff)
  then show ?thesis
    using c(4) unat_add_1 [OF lt(1)] V4 by (auto simp: hosts4_def word_unat_eq_iff)
next
  case (V6 x)
  then show ?thesis using assms(1) by (auto simp: specific_ok_def split: option.splits)
qed

lemma try_specific_inv:
  assumes "pool_inv api p" "try_allocate_specific api s a p = (b, p')"
  shows "pool_inv api p' \<and> (b \<longrightarrow> assignable api p a \<and> ap_allocated p a = None \<and>
      ap_allocated p' = (ap_allocated p)(a \<mapsto> s)) \<and> (\<not> b \<longrightarrow> p' = p)"
proof (cases "specific_ok api a p")
  case True
  then have p': "p' = record_alloc s a p" "b"
    using assms(2) by (simp_all add: try_allocate_specific_def)
  have "assignable api p a" "ap_allocated p a = None"
    using specific_assignable [OF True] assms(1) True by (simp_all add: pool_inv_def specific_ok_def)
  with p' show ?thesis
    using assms(1) record_books record_nothing_lost by (simp add: pool_inv_def sources_ok_def)
next
  case False
  then show ?thesis using assms by (simp add: try_allocate_specific_def)
qed

end

section \<open>Release\<close>

lemma release_addr_books [simp]:
  "ap_allocations (release_addr p a) = ap_allocations p"
  "ap_allocated (release_addr p a) = (ap_allocated p)(a := None)"
  by (cases a; simp add: release_addr_def Let_def)+

lemma release_addr_assignable: "assignable api (release_addr p a) = assignable api p"
  by (intro ext assignable_cong; cases a)
     (simp_all add: release_addr_def Let_def option.map_comp comp_def)

lemma release_addr_sources:
  assumes "sources_ok api p" "assignable api p a"
  shows "sources_ok api (release_addr p a)"
  using assms
  by (cases a) (auto simp: release_addr_def Let_def sources_ok_def inv4_def inv6_def
    set_insort_insert sorted_insort_insert distinct_insort_insert)

lemma release_addr_lost:
  assumes "nothing_lost api p"
  shows "nothing_lost api (release_addr p a)"
  using assms
  by (cases a) (fastforce simp: release_addr_def Let_def nothing_lost_def pending4_def pending6_def
    set_insort_insert)+

text \<open>The state inside the loop of \<open>release\<close>, with the addresses still to be returned.\<close>

definition releasing :: "ipnet_api \<Rightarrow> session_id \<Rightarrow> ip_addr list \<Rightarrow> address_pool \<Rightarrow> bool" where
  "releasing api s addrs p \<longleftrightarrow> sources_ok api p \<and> nothing_lost api p \<and> distinct addrs \<and>
     held p s = [] \<and> (\<forall>s. distinct (held p s)) \<and>
     (\<forall>a s'. ap_allocated p a = Some s' \<longleftrightarrow> a \<in> set (held p s') \<or> s' = s \<and> a \<in> set addrs) \<and>
     (\<forall>a. ap_allocated p a \<noteq> None \<longrightarrow> assignable api p a)"

lemma releasing_step:
  assumes "releasing api s (a # addrs) p"
  shows "releasing api s addrs (release_addr p a)"
proof -
  have h: "held (release_addr p a) = held p" by (intro ext) (simp add: held_def)
  have al: "ap_allocated p a = Some s" using assms by (simp add: releasing_def)
  then have "a \<notin> set (held p s')" for s'
    using assms unfolding releasing_def
    by (metis list.set_intros(1) option.inject empty_iff empty_set)
  moreover have "assignable api p a" using assms al unfolding releasing_def by blast
  ultimately show ?thesis
    using assms release_addr_sources [of api p a] release_addr_lost [of api p a]
    by (auto simp: releasing_def h release_addr_assignable)
qed

lemma releasing_foldl:
  "releasing api s addrs p \<Longrightarrow> pool_inv api (foldl release_addr p addrs)"
proof (induction addrs arbitrary: p)
  case Nil
  then show ?case by (auto simp: releasing_def pool_inv_def books_ok_def)
next
  case (Cons a addrs)
  then show ?case using releasing_step by auto
qed

lemma release_inv:
  assumes "pool_inv api p"
  shows "pool_inv api (release s p)"
proof (cases "ap_allocations p s")
  case None
  then show ?thesis using assms by (simp add: release_def)
next
  case (Some addrs)
  let ?p = "p\<lparr>ap_allocations := (ap_allocations p)(s := None)\<rparr>"
  have h: "held ?p s' = (if s' = s then [] else held p s')" "held p s = addrs" for s'
    using Some by (simp_all add: held_def)
  have "assignable api ?p = assignable api p" by (intro ext assignable_cong) simp_all
  moreover have "sources_ok api ?p" "nothing_lost api ?p"
    using assms by (simp_all add: pool_inv_def sources_ok_def nothing_lost_def)
  ultimately have "releasing api s addrs ?p"
    using assms h by (auto simp: releasing_def pool_inv_def books_ok_def)
  from releasing_foldl [OF this] show ?thesis using Some by (simp add: release_def)
qed

lemma foldl_release_allocated:
  "ap_allocated (foldl release_addr p addrs) = (\<lambda>a. if a \<in> set addrs then None else ap_allocated p a)"
  "ap_allocations (foldl release_addr p addrs) = ap_allocations p"
  by (induction addrs arbitrary: p) (auto simp: fun_eq_iff)

lemma release_allocated:
  assumes "pool_inv api p"
  shows "ap_allocated (release s p) a = (if ap_allocated p a = Some s then None else ap_allocated p a)"
proof -
  have "ap_allocated p a = Some s \<longleftrightarrow> a \<in> set (held p s)"
    using assms by (simp add: pool_inv_def books_ok_def)
  then show ?thesis by (auto simp: release_def foldl_release_allocated held_def split: option.split)
qed

section \<open>Every sequence of operations\<close>

text \<open>The operations sessions perform on the pool, and the pools they can lead to.\<close>

inductive pool_step :: "ipnet_api \<Rightarrow> address_pool \<Rightarrow> address_pool \<Rightarrow> bool" for api where
  step_v4: "allocate_v4 api s p = (r, p') \<Longrightarrow> pool_step api p p'"
| step_v6: "allocate_v6 api s p = (r, p') \<Longrightarrow> pool_step api p p'"
| step_request: "allocate_for_request api s req p = (r, p') \<Longrightarrow> pool_step api p p'"
| step_release: "pool_step api p (release s p)"

inductive pool_reach :: "ipnet_api \<Rightarrow> ipv4_net \<Rightarrow> ipv6_net option \<Rightarrow> address_pool \<Rightarrow> bool"
  for api net4 net6 where
  reach_new: "pool_reach api net4 net6 (ap_new net4 net6)"
| reach_step: "pool_reach api net4 net6 p \<Longrightarrow> pool_step api p p' \<Longrightarrow> pool_reach api net4 net6 p'"

lemma request_cases:
  assumes "allocate_for_request api s req p = (r, p')"
  obtains a where "try_allocate_specific api s a p = (True, p')" "a = ra_ip_address req"
      "r = Some \<lparr>aa_request_id = ra_request_id req, aa_ip_version = ra_ip_version req,
         aa_ip_address = a, aa_prefix_length = ra_prefix_length req\<rparr>"
    | r0 where "allocate_v4 api s p = (r0, p')"
        "r = map_option (\<lambda>x. x\<lparr>aa_request_id := ra_request_id req\<rparr>) r0"
    | r0 where "allocate_v6 api s p = (r0, p')"
        "r = map_option (\<lambda>x. x\<lparr>aa_request_id := ra_request_id req\<rparr>) r0"
    | "p' = p" "r = None"
  using assms
  by (auto simp: allocate_for_request_def try_allocate_specific_def Let_def
      split: ip_addr.splits if_splits option.splits prod.splits)

context ipnet
begin

lemma pool_new_inv:
  assumes "v4_valid net4" "\<And>net. net6 = Some net \<Longrightarrow> v6_valid net"
  shows "pool_inv api (ap_new net4 net6)"
proof -
  have "unat (v4_network api net4) \<le> unat (v4_broadcast api net4)"
    by (rule v4_network_le_broadcast [OF assms(1)])
  then show ?thesis
    using assms
    by (auto simp: pool_inv_def ap_new_def sources_ok_def books_ok_def nothing_lost_def inv4_def inv6_def
      pending4_def pending6_def hosts4_def hosts6_def held_def)
qed

lemma pool_step_inv: "pool_step api p p' \<Longrightarrow> pool_inv api p \<Longrightarrow> pool_inv api p'"
proof (induction rule: pool_step.induct)
  case (step_request s req p r p')
  from step_request(1) show ?case
  proof (cases rule: request_cases)
    case (1 a)
    then show ?thesis using try_specific_inv [OF step_request(2)] by blast
  next
    case (2 r0)
    then show ?thesis using allocate_v4_inv [OF step_request(2)] by blast
  next
    case (3 r0)
    then show ?thesis using allocate_v6_inv [OF step_request(2)] by blast
  qed (use step_request in simp)
qed (use allocate_v4_inv allocate_v6_inv release_inv in blast)+

lemma pool_reach_inv:
  assumes "pool_reach api net4 net6 p" "v4_valid net4" "\<And>net. net6 = Some net \<Longrightarrow> v6_valid net"
  shows "pool_inv api p"
  using assms by (induction rule: pool_reach.induct) (simp_all add: pool_new_inv pool_step_inv)

lemma pool_step_net4: "pool_step api p p' \<Longrightarrow> p4_net (ap_v4 p') = p4_net (ap_v4 p)"
proof (induction rule: pool_step.induct)
  case (step_v4 s p r p')
  then show ?case
    by (auto simp: allocate_v4_def dest: v4_search_net split: prod.splits option.splits)
next
  case (step_v6 s p r p')
  then show ?case by (auto simp: allocate_v6_def split: prod.splits option.splits)
next
  case (step_request s req p r p')
  from step_request(1) show ?case
    by (cases rule: request_cases)
       (auto simp: allocate_v4_def allocate_v6_def try_allocate_specific_def dest: v4_search_net
         split: prod.splits option.splits if_splits)
next
  case (step_release p s)
  have "p4_net (ap_v4 (foldl release_addr q addrs)) = p4_net (ap_v4 q)" for q addrs
    by (induction addrs arbitrary: q) (auto simp: release_addr_def Let_def split: ip_addr.split)
  then show ?case by (simp add: release_def split: option.split)
qed

lemma pool_reach_net4: "pool_reach api net4 net6 p \<Longrightarrow> p4_net (ap_v4 p) = net4"
  by (induction rule: pool_reach.induct) (simp_all add: ap_new_def pool_step_net4)

end

section \<open>A concrete pool\<close>

text \<open>A /29 pool after an allocation for session 1 and one for session 2.\<close>

definition demo_net :: ipv4_net where
  "demo_net = Ipv4Net 0x0A000000 29"

definition demo_pool :: address_pool where
  "demo_pool = snd (allocate_v4 ref_ipnet 2 (snd (allocate_v4 ref_ipnet 1 (ap_new demo_net None))))"

lemma demo_bounds:
  "v4_network ref_ipnet demo_net = 0x0A000000" "v4_broadcast ref_ipnet demo_net = 0x0A000007"
  by (simp_all add: ref_ipnet_def ref_v4_network_def ref_v4_broadcast_def block_base_def
    block_top_def demo_net_def)

lemma demo_loop:
  "v4_next_loop 0x0A000000 0x0A000007 0 = (Some 0x0A000002, 3)"
  "v4_next_loop 0x0A000000 0x0A000007 3 = (Some 0x0A000003, 4)"
  by (simp_all add: v4_next_loop.simps checked_add_def)

lemma v4_search_found:
  "v4_next api p = (Some a, q) \<Longrightarrow> m (V4 a) = None \<Longrightarrow> v4_search api m p = (Some a, q)"
  by (subst v4_search.simps) simp

lemma demo_alloc:
  "ap_allocations demo_pool 1 = Some [V4 0x0A000002]"
  "ap_allocations demo_pool 2 = Some [V4 0x0A000003]"
  by (simp_all add: demo_pool_def allocate_v4_def ap_new_def v4_search_found v4_next_def demo_bounds
    demo_loop record_alloc_def)

lemma demo_free: "ap_allocated demo_pool (V4 0x0A000004) = None"
  by (simp add: demo_pool_def allocate_v4_def ap_new_def v4_search_found v4_next_def demo_bounds
    demo_loop record_alloc_def)

lemma reach_v4: "pool_reach api net4 net6 p \<Longrightarrow> pool_reach api net4 net6 (snd (allocate_v4 api s p))"
  by (erule reach_step, rule step_v4, rule surjective_pairing)

lemma demo_reach: "pool_reach ref_ipnet demo_net None demo_pool"
  unfolding demo_pool_def by (rule reach_v4, rule reach_v4, rule reach_new)

lemma demo_valid: "v4_valid demo_net" "pred_option v6_valid None"
  by (simp_all add: demo_net_def v4_valid_def)

lemmas demo_facts = ref.ipnet_axioms demo_valid demo_reach

section \<open>Properties\<close>

text \<open>
  C12: after any sequence of allocations, requests and releases, no address is held by two
  sessions, and no session holds an address twice.
\<close>

theorem pool_addresses_unique:
  assumes "ipnet api" "v4_valid net4" "pred_option v6_valid net6" "pool_reach api net4 net6 p"
    and "ap_allocations p s = Some addrs" "ap_allocations p s' = Some addrs'"
  shows "distinct addrs \<and> (s \<noteq> s' \<longrightarrow> set addrs \<inter> set addrs' = {})"
proof -
  have "pool_inv api p"
    using ipnet.pool_reach_inv [OF assms(1,4,2)] assms(3) by (simp add: option.pred_set)
  then have b: "\<And>a t. ap_allocated p a = Some t \<longleftrightarrow> a \<in> set (held p t)" "distinct (held p s)"
    by (simp_all add: pool_inv_def books_ok_def)
  have h: "held p s = addrs" "held p s' = addrs'" using assms(5,6) by (simp_all add: held_def)
  have "s = s'" if "a \<in> set addrs" "a \<in> set addrs'" for a
    using b(1) [of a s] b(1) [of a s'] that h by simp
  then show ?thesis using b(2) h by auto
qed

theorem pool_addresses_unique_witness:
  "ap_allocations demo_pool 1 = Some [V4 0x0A000002] \<and>
   ap_allocations demo_pool 2 = Some [V4 0x0A000003] \<and>
   distinct [V4 0x0A000002] \<and> set [V4 0x0A000002] \<inter> set [V4 0x0A000003] = {}"
  using pool_addresses_unique [OF demo_facts demo_alloc] demo_alloc by simp

text \<open>
  C29: an IPv4 address held by a session lies strictly between the network and the broadcast
  address of the pool and is not the gateway the proxy keeps for itself.
\<close>

theorem pool_v4_hosts_only:
  assumes "ipnet api" "v4_valid net4" "pred_option v6_valid net6" "pool_reach api net4 net6 p"
    and "ap_allocations p s = Some addrs" "V4 a \<in> set addrs"
  shows "v4_network api net4 < a \<and> a < v4_broadcast api net4 \<and> a \<noteq> fst (ipv4_gateway api p)"
proof -
  have inv: "pool_inv api p" and net: "p4_net (ap_v4 p) = net4"
    using ipnet.pool_reach_inv [OF assms(1,4,2)] ipnet.pool_reach_net4 [OF assms(1,4)] assms(3)
    by (simp_all add: option.pred_set)
  have "V4 a \<in> set (held p s)" using assms(5,6) by (simp add: held_def)
  then have h: "unat (v4_network api net4) + 2 \<le> unat a" "unat a < unat (v4_broadcast api net4)"
    using held_assignable [OF inv, of "V4 a" s] net by (simp_all add: hosts4_def)
  then have "unat (v4_network api net4 + 1) = unat (v4_network api net4) + 1"
    by (intro unat_add_1 [of _ a]) simp
  then show ?thesis
    using h net by (auto simp: word_less_nat_alt word_unat_eq_iff ipv4_gateway_def Let_def)
qed

theorem pool_v4_hosts_only_witness:
  "v4_network ref_ipnet demo_net < 0x0A000002 \<and> 0x0A000002 < v4_broadcast ref_ipnet demo_net \<and>
   0x0A000002 \<noteq> fst (ipv4_gateway ref_ipnet demo_pool)"
  by (rule pool_v4_hosts_only [OF demo_facts demo_alloc(1)]) simp

text \<open>
  C30: unprompted IPv4 allocation is fair and complete: it fails exactly when every host of
  the pool is held, and otherwise returns a host nobody held, which the session then holds
  while every other holding is unchanged.
\<close>

theorem allocate_v4_complete:
  assumes "ipnet api" "v4_valid net4" "pred_option v6_valid net6" "pool_reach api net4 net6 p"
  shows "(fst (allocate_v4 api s p) = None \<longleftrightarrow>
      (\<forall>a. unat (v4_network api net4) + 2 \<le> unat a \<and> unat a < unat (v4_broadcast api net4) \<longrightarrow>
         (\<exists>t. ap_allocated p (V4 a) = Some t))) \<and>
    (\<forall>x. fst (allocate_v4 api s p) = Some x \<longrightarrow>
      (\<exists>a. aa_ip_address x = V4 a \<and> v4_contains api net4 a \<and> ap_allocated p (V4 a) = None \<and>
         ap_allocated (snd (allocate_v4 api s p)) = (ap_allocated p)(V4 a \<mapsto> s)))"
proof -
  have inv: "pool_inv api p" and net: "p4_net (ap_v4 p) = net4"
    using ipnet.pool_reach_inv [OF assms(1,4,2)] ipnet.pool_reach_net4 [OF assms(1,4)] assms(3)
    by (simp_all add: option.pred_set)
  obtain r p' where al: "allocate_v4 api s p = (r, p')" by (cases "allocate_v4 api s p")
  note spec = ipnet.allocate_v4_inv [OF assms(1) inv al, unfolded net]
  have "v4_contains api net4 a" if "a \<in> hosts4 api net4" for a
    using that assms(2) ipnet.v4_contains_iff [OF assms(1), of net4 a]
    by (simp add: hosts4_def v4_valid_def word_le_nat_alt)
  with spec al show ?thesis by (cases r) (auto simp: hosts4_def)
qed

theorem allocate_v4_complete_witness:
  "ap_allocated demo_pool (V4 0x0A000004) = None \<and> fst (allocate_v4 ref_ipnet 3 demo_pool) \<noteq> None"
  using allocate_v4_complete [OF demo_facts, of 3] demo_free
  by (auto simp: demo_bounds dest!: spec [of _ "0x0A000004"])

text \<open>
  C31: releasing a session returns all its addresses and touches nobody else's: afterwards it
  holds nothing, every other session holds what it held, and if it held an IPv4 address the
  next unprompted IPv4 allocation succeeds.
\<close>

theorem release_returns_addresses:
  assumes "ipnet api" "v4_valid net4" "pred_option v6_valid net6" "pool_reach api net4 net6 p"
  shows "ap_allocations (release s p) = (ap_allocations p)(s := None) \<and>
    (\<forall>a. ap_allocated (release s p) a = (if ap_allocated p a = Some s then None else ap_allocated p a)) \<and>
    (\<forall>addrs a t. ap_allocations p s = Some addrs \<longrightarrow> V4 a \<in> set addrs \<longrightarrow>
       fst (allocate_v4 api t (release s p)) \<noteq> None)"
proof -
  have inv: "pool_inv api p"
    using ipnet.pool_reach_inv [OF assms(1,4,2)] assms(3) by (simp add: option.pred_set)
  have held: "ap_allocated p a = Some t \<longleftrightarrow> a \<in> set (held p t)" for a t
    using inv by (simp add: pool_inv_def books_ok_def)
  have rel: "ap_allocations (release s p) = (ap_allocations p)(s := None)"
    by (auto simp: release_def foldl_release_allocated split: option.split)
  moreover have al: "ap_allocated (release s p) a =
      (if ap_allocated p a = Some s then None else ap_allocated p a)" for a
    by (rule release_allocated [OF inv])
  moreover have "fst (allocate_v4 api t (release s p)) \<noteq> None"
    if "ap_allocations p s = Some addrs" "V4 a \<in> set addrs" for addrs a t
  proof -
    have a: "V4 a \<in> set (held p s)" using that by (simp add: held_def)
    then have "a \<in> hosts4 api (p4_net (ap_v4 p))"
      using held_assignable [OF inv, of "V4 a" s] by simp
    moreover have "ap_allocated (release s p) (V4 a) = None" using al a held by simp
    moreover have "p4_net (ap_v4 (release s p)) = p4_net (ap_v4 p)"
      using ipnet.pool_step_net4 [OF assms(1) step_release] .
    moreover obtain r p' where "allocate_v4 api t (release s p) = (r, p')" by fastforce
    ultimately show ?thesis
      using ipnet.allocate_v4_inv [OF assms(1) release_inv [OF inv], of t s r p'] by (cases r) auto
  qed
  ultimately show ?thesis by blast
qed

theorem release_returns_addresses_witness:
  "ap_allocations (release 1 demo_pool) 1 = None \<and>
   ap_allocations (release 1 demo_pool) 2 = Some [V4 0x0A000003] \<and>
   fst (allocate_v4 ref_ipnet 3 (release 1 demo_pool)) \<noteq> None"
  using release_returns_addresses [OF demo_facts, of 1] demo_alloc by auto

section \<open>Where the code departs from its intent\<close>

text \<open>
  A specific request is refused for the IPv4 gateway only. The IPv6 gateway, which
  \<open>V6Pool::next\<close> skips because the proxy reserves it, is handed to the first session that asks
  for it by address.
\<close>

lemma v6_gateway_assignable:
  assumes "ipnet api" "unat (plen6 net6) \<le> 127"
  shows "\<exists>g. ipv6_gateway api (ap_new net4 (Some net6)) = Some (g, plen6 net6) \<and>
    fst (try_allocate_specific api s (V6 g) (ap_new net4 (Some net6)))"
proof -
  let ?b = "v6_network api net6"
  have v: "v6_valid net6" using assms(2) by (simp add: v6_valid_def)
  have mh: "2 \<le> unat (v6_max_hosts net6)"
    using assms(2) self_le_power [of 2 "min (128 - unat (plen6 net6)) 64"] by (simp add: unat_v6_max_hosts)
  then have "unat ?b < unat (340282366920938463463374607431768211455 :: u128)"
    using ipnet.v6_range_fits [OF assms(1) v] by simp
  from unat_add_1 [OF this] have "v6_contains api net6 (?b + 1)"
    using ipnet.v6_hosts_in_net [OF assms(1) v] mh by simp
  then show ?thesis
    by (simp add: ipv6_gateway_def ap_new_def try_allocate_specific_def specific_ok_def)
qed

text \<open>
  The checks of \<open>try_allocate_specific\<close> and the record of the address are separate steps on the
  shared maps. When two sessions both pass the checks before either records, both end up
  holding the address, which a single-step model rules out.
\<close>

lemma specific_request_race:
  assumes "specific_ok api a p" "s \<noteq> t"
  shows "a \<in> set (held (record_alloc t a (record_alloc s a p)) s) \<and>
    a \<in> set (held (record_alloc t a (record_alloc s a p)) t)"
  using assms(2) by simp

end
