(* ===== verification/Port_Alloc.thy ===== *)
theory Port_Alloc
  imports Net_Types
begin

text \<open>
  Allocation of public (IP, port) pairs to bind sessions, \<open>src/src/udp_bind/alloc.rs\<close>: the
  round-robin scan over ports and addresses, and the proof that it finds a free pair whenever
  there is one.
\<close>

section \<open>Definitions\<close>

record port_allocator =
  pa_ips :: "ip_addr list"
  pa_port_lo :: u16
  pa_port_hi :: u16
  pa_in_use :: "sock_addr set"
  pa_next_ip :: nat
  pa_next_port :: u16

datatype alloc_error = NoPublicIp | InvertedRange u16 u16

definition pa_new :: "ip_addr list \<Rightarrow> u16 \<Rightarrow> u16 \<Rightarrow> (alloc_error, port_allocator) res" where
  "pa_new ips port_lo port_hi =
     (if ips = [] then Err NoPublicIp
      else if port_lo > port_hi then Err (InvertedRange port_lo port_hi)
      else Ok \<lparr>pa_ips = ips, pa_port_lo = port_lo, pa_port_hi = port_hi, pa_in_use = {},
               pa_next_ip = 0, pa_next_port = port_lo\<rparr>)"

definition pa_capacity :: "port_allocator \<Rightarrow> nat" where
  "pa_capacity a = length (pa_ips a) * (unat (pa_port_hi a) - unat (pa_port_lo a) + 1)"

definition next_port :: "u16 \<Rightarrow> u16 \<Rightarrow> u16 \<Rightarrow> u16" where
  "next_port port lo hi = (if port \<ge> hi then lo else port + 1)"

text \<open>The candidate the inner loop examines at step \<open>k\<close>.\<close>

definition pa_candidate :: "port_allocator \<Rightarrow> nat \<Rightarrow> sock_addr" where
  "pa_candidate a k =
     SocketAddr (pa_ips a ! ((pa_next_ip a + k) mod length (pa_ips a))) (pa_next_port a)"

fun pa_loop :: "nat \<Rightarrow> port_allocator \<Rightarrow> sock_addr option \<times> port_allocator" where
  "pa_loop 0 a = (None, a)"
| "pa_loop (Suc n) a =
     (let port = pa_next_port a; len = length (pa_ips a) in
      case find (\<lambda>k. pa_candidate a k \<notin> pa_in_use a) [0..<len] of
        Some k \<Rightarrow>
          (let idx = (pa_next_ip a + k) mod len; next_ip = (idx + 1) mod len in
           (Some (pa_candidate a k),
            a\<lparr>pa_in_use := insert (pa_candidate a k) (pa_in_use a), pa_next_ip := next_ip,
              pa_next_port := if next_ip = 0 then next_port port (pa_port_lo a) (pa_port_hi a)
                              else port\<rparr>))
      | None \<Rightarrow> pa_loop n (a\<lparr>pa_next_port := next_port port (pa_port_lo a) (pa_port_hi a)\<rparr>))"

definition pa_allocate :: "port_allocator \<Rightarrow> sock_addr option \<times> port_allocator" where
  "pa_allocate a = pa_loop (unat (pa_port_hi a) - unat (pa_port_lo a) + 1) a"

definition pa_release :: "sock_addr \<Rightarrow> port_allocator \<Rightarrow> port_allocator" where
  "pa_release addr a = a\<lparr>pa_in_use := pa_in_use a - {addr}\<rparr>"

definition pa_in_use_count :: "port_allocator \<Rightarrow> nat" where
  "pa_in_use_count a = card (pa_in_use a)"

section \<open>The invariant\<close>

text \<open>The pairs the allocator manages.\<close>

definition tuples :: "port_allocator \<Rightarrow> sock_addr set" where
  "tuples a = {SocketAddr ip port | ip port.
     ip \<in> set (pa_ips a) \<and> pa_port_lo a \<le> port \<and> port \<le> pa_port_hi a}"

definition pa_inv :: "port_allocator \<Rightarrow> bool" where
  "pa_inv a \<longleftrightarrow> pa_ips a \<noteq> [] \<and> pa_port_lo a \<le> pa_next_port a \<and> pa_next_port a \<le> pa_port_hi a \<and>
     pa_in_use a \<subseteq> tuples a"

lemma next_port_in_range:
  assumes "lo \<le> port" "port \<le> hi"
  shows "lo \<le> next_port port lo hi \<and> next_port port lo hi \<le> hi"
proof (cases "port \<ge> hi")
  case True
  then show ?thesis using assms by (simp add: next_port_def)
next
  case False
  then have "unat port < unat hi" by (simp add: word_le_nat_alt)
  from unat_add_1 [OF this] show ?thesis
    using assms False by (simp add: next_port_def word_le_nat_alt)
qed

lemma unat_next_port:
  assumes "lo \<le> port" "port \<le> hi"
  shows "unat (next_port port lo hi) =
    unat lo + (unat port - unat lo + 1) mod (unat hi - unat lo + 1)"
proof (cases "port \<ge> hi")
  case True
  then have "port = hi" using assms by simp
  then show ?thesis by (simp add: next_port_def)
next
  case False
  then have "unat port < unat hi" by (simp add: word_le_nat_alt)
  from unat_add_1 [OF this] show ?thesis
    using assms False by (simp add: next_port_def word_le_nat_alt)
qed

text \<open>The inner loop sees every address of the list.\<close>

lemma rotation_covers:
  assumes "j < (len :: nat)"
  shows "\<exists>k < len. (i + k) mod len = j"
proof (intro exI conjI)
  let ?k = "(j + len - i mod len) mod len"
  show "?k < len" using assms by simp
  have "(i + ?k) mod len = (i mod len + (j + len - i mod len)) mod len"
    by (simp add: mod_simps)
  also have "i mod len + (j + len - i mod len) = j + len"
    using assms mod_less_divisor [of len i] by linarith
  finally show "(i + ?k) mod len = j" using assms by simp
qed

lemma no_candidate_all_used:
  assumes "pa_ips a \<noteq> []"
    and "find (\<lambda>k. pa_candidate a k \<notin> pa_in_use a) [0..<length (pa_ips a)] = None"
    and "ip \<in> set (pa_ips a)"
  shows "SocketAddr ip (pa_next_port a) \<in> pa_in_use a"
proof -
  obtain j where j: "j < length (pa_ips a)" "ip = pa_ips a ! j"
    using assms(3) by (auto simp: in_set_conv_nth)
  from rotation_covers [OF j(1), of "pa_next_ip a"] obtain k where
    k: "k < length (pa_ips a)" "(pa_next_ip a + k) mod length (pa_ips a) = j" by blast
  then have "pa_candidate a k \<in> pa_in_use a"
    using assms(2) by (simp add: find_None_iff)
  then show ?thesis using k j by (simp add: pa_candidate_def)
qed

lemma candidate_in_tuples: "pa_inv a \<Longrightarrow> pa_candidate a k \<in> tuples a"
  by (auto simp: pa_inv_def tuples_def pa_candidate_def)

section \<open>The scan\<close>

text \<open>The port the outer loop is at after \<open>i\<close> rounds.\<close>

definition port_at :: "port_allocator \<Rightarrow> nat \<Rightarrow> nat" where
  "port_at a i = unat (pa_port_lo a) + (unat (pa_next_port a) - unat (pa_port_lo a) + i) mod
     (unat (pa_port_hi a) - unat (pa_port_lo a) + 1)"

lemma port_at_advance:
  assumes "pa_inv a"
  shows "port_at (a\<lparr>pa_next_port := next_port (pa_next_port a) (pa_port_lo a) (pa_port_hi a)\<rparr>) i
    = port_at a (Suc i)"
  using assms unat_next_port [of "pa_port_lo a" "pa_next_port a" "pa_port_hi a"]
  by (simp add: port_at_def pa_inv_def mod_simps)

lemma port_at_0:
  assumes "pa_inv a"
  shows "port_at a 0 = unat (pa_next_port a)"
proof -
  have "unat (pa_next_port a) - unat (pa_port_lo a) < unat (pa_port_hi a) - unat (pa_port_lo a) + 1"
    "unat (pa_port_lo a) \<le> unat (pa_next_port a)"
    using assms by (auto simp: pa_inv_def word_le_nat_alt)
  then show ?thesis by (simp add: port_at_def)
qed

lemma pa_loop_spec:
  assumes "pa_inv a" "pa_loop n a = (r, a')"
  shows "pa_inv a' \<and> pa_ips a' = pa_ips a \<and> pa_port_lo a' = pa_port_lo a \<and> pa_port_hi a' = pa_port_hi a \<and>
    (case r of
       None \<Rightarrow> pa_in_use a' = pa_in_use a \<and>
         (\<forall>i < n. \<forall>ip \<in> set (pa_ips a). \<forall>port. unat port = port_at a i \<longrightarrow>
            SocketAddr ip port \<in> pa_in_use a)
     | Some c \<Rightarrow> c \<in> tuples a \<and> c \<notin> pa_in_use a \<and> pa_in_use a' = insert c (pa_in_use a))"
  using assms
proof (induction n arbitrary: a)
  case 0
  then show ?case by auto
next
  case (Suc n)
  let ?b = "a\<lparr>pa_next_port := next_port (pa_next_port a) (pa_port_lo a) (pa_port_hi a)\<rparr>"
  show ?case
  proof (cases "find (\<lambda>k. pa_candidate a k \<notin> pa_in_use a) [0..<length (pa_ips a)]")
    case None
    have b: "pa_inv ?b" using Suc.prems(1) next_port_in_range
      by (auto simp: pa_inv_def tuples_def)
    have "pa_loop n ?b = (r, a')" using Suc.prems(2) None by (simp add: Let_def)
    note IH = Suc.IH [OF b this]
    have "SocketAddr ip port \<in> pa_in_use a"
      if "i < Suc n" "ip \<in> set (pa_ips a)" "unat port = port_at a i" "r = None" for i ip port
    proof (cases i)
      case 0
      then have "port = pa_next_port a"
        using that port_at_0 [OF Suc.prems(1)] by (simp add: word_unat_eq_iff)
      then show ?thesis
        using no_candidate_all_used [OF _ None that(2)] Suc.prems(1) by (simp add: pa_inv_def)
    next
      case (Suc j)
      then show ?thesis
        using IH that port_at_advance [OF Suc.prems(1), of j] by simp
    qed
    then show ?thesis using IH by (cases r) (auto simp: tuples_def)
  next
    case (Some k)
    then have "k < length (pa_ips a)" "pa_candidate a k \<notin> pa_in_use a"
      by (auto simp: find_Some_iff)
    then show ?thesis
      using Suc.prems Some candidate_in_tuples [OF Suc.prems(1), of k] next_port_in_range
      by (auto simp: Let_def pa_inv_def tuples_def)
  qed
qed

lemma scan_covers:
  assumes "pa_inv a" "pa_port_lo a \<le> port" "port \<le> pa_port_hi a"
  shows "\<exists>i < unat (pa_port_hi a) - unat (pa_port_lo a) + 1. port_at a i = unat port"
proof -
  let ?span = "unat (pa_port_hi a) - unat (pa_port_lo a) + 1"
  have "unat port - unat (pa_port_lo a) < ?span"
    using assms by (simp add: word_le_nat_alt)
  from rotation_covers [OF this, of "unat (pa_next_port a) - unat (pa_port_lo a)"] show ?thesis
    using assms by (auto simp: port_at_def word_le_nat_alt)
qed

lemma pa_allocate_spec:
  assumes "pa_inv a" "pa_allocate a = (r, a')"
  shows "pa_inv a' \<and> tuples a' = tuples a \<and>
    (case r of
       None \<Rightarrow> pa_in_use a' = pa_in_use a \<and> pa_in_use a = tuples a
     | Some c \<Rightarrow> c \<in> tuples a - pa_in_use a \<and> pa_in_use a' = insert c (pa_in_use a))"
proof -
  note spec = pa_loop_spec [OF assms(1) assms(2) [unfolded pa_allocate_def]]
  have "pa_in_use a = tuples a" if "r = None"
  proof
    show "tuples a \<subseteq> pa_in_use a"
      using spec that scan_covers [OF assms(1)] by (fastforce simp: tuples_def)
  qed (use assms(1) in \<open>simp add: pa_inv_def\<close>)
  then show ?thesis using spec by (cases r) (auto simp: tuples_def)
qed

section \<open>Every sequence of operations\<close>

inductive pa_reach :: "ip_addr list \<Rightarrow> u16 \<Rightarrow> u16 \<Rightarrow> port_allocator \<Rightarrow> bool" for ips lo hi where
  reach_new: "pa_new ips lo hi = Ok a \<Longrightarrow> pa_reach ips lo hi a"
| reach_allocate: "pa_reach ips lo hi a \<Longrightarrow> pa_reach ips lo hi (snd (pa_allocate a))"
| reach_release: "pa_reach ips lo hi a \<Longrightarrow> pa_reach ips lo hi (pa_release addr a)"

definition pool_of :: "ip_addr list \<Rightarrow> u16 \<Rightarrow> u16 \<Rightarrow> sock_addr set" where
  "pool_of ips lo hi = {SocketAddr ip port | ip port. ip \<in> set ips \<and> lo \<le> port \<and> port \<le> hi}"

lemma pa_reach_inv:
  "pa_reach ips lo hi a \<Longrightarrow> pa_inv a \<and> pa_ips a = ips \<and> pa_port_lo a = lo \<and> pa_port_hi a = hi"
proof (induction rule: pa_reach.induct)
  case (reach_new a)
  then show ?case by (auto simp: pa_new_def pa_inv_def split: if_splits)
next
  case (reach_allocate a)
  obtain r a' where al: "pa_allocate a = (r, a')" by fastforce
  from reach_allocate pa_loop_spec [OF _ al [unfolded pa_allocate_def]] al show ?case by simp
next
  case (reach_release a addr)
  then show ?case by (auto simp: pa_release_def pa_inv_def tuples_def)
qed

lemma card_word_interval:
  assumes "lo \<le> (hi :: u16)"
  shows "card {lo..hi} = unat hi - unat lo + 1"
proof -
  have "n \<in> unat ` {lo..hi}" if n: "unat lo \<le> n" "n \<le> unat hi" for n
  proof
    have "n < 2 ^ LENGTH(16)" using n unsigned_less [of hi, where ?'a = nat] by linarith
    then show u: "n = unat (word_of_nat n :: u16)" by (simp add: unat_word_of_nat)
    show "(word_of_nat n :: u16) \<in> {lo..hi}"
      using n unfolding atLeastAtMost_iff word_le_nat_alt by (simp only: u [symmetric])
  qed
  then have "unat ` {lo..hi} = {unat lo..unat hi}" by (auto simp: word_le_nat_alt)
  moreover have "card (unat ` {lo..hi}) = card {lo..hi}"
    by (rule card_image) (simp add: inj_on_def word_unat_eq_iff)
  ultimately show ?thesis using assms by (simp add: word_le_nat_alt)
qed

lemma card_pool_of:
  assumes "distinct ips" "lo \<le> hi"
  shows "finite (pool_of ips lo hi)" and "card (pool_of ips lo hi) = length ips * (unat hi - unat lo + 1)"
proof -
  have img: "pool_of ips lo hi = (\<lambda>(ip, port). SocketAddr ip port) ` (set ips \<times> {lo..hi})"
    by (auto simp: pool_of_def)
  then show "finite (pool_of ips lo hi)" by simp
  have "inj_on (\<lambda>(ip, port). SocketAddr ip port) (set ips \<times> {lo..hi})"
    by (auto simp: inj_on_def)
  then show "card (pool_of ips lo hi) = length ips * (unat hi - unat lo + 1)"
    using assms card_word_interval [OF assms(2)]
    by (simp add: img card_image card_cartesian_product distinct_card)
qed

section \<open>Properties\<close>

text \<open>
  C32: after any sequence of allocations and releases, \<open>allocate\<close> returns a pair of the
  configured pool that is not in use and marks exactly this pair as used; it returns nothing
  only when every pair of the pool is in use.
\<close>

theorem port_allocate_complete:
  assumes "pa_reach ips lo hi a"
  shows "case pa_allocate a of
      (Some c, a') \<Rightarrow> c \<in> pool_of ips lo hi \<and> c \<notin> pa_in_use a \<and> pa_in_use a' = insert c (pa_in_use a)
    | (None, a') \<Rightarrow> pa_in_use a = pool_of ips lo hi \<and> pa_in_use a' = pa_in_use a"
proof -
  have "tuples a = pool_of ips lo hi"
    using pa_reach_inv [OF assms] by (simp add: tuples_def pool_of_def)
  moreover obtain r a' where al: "pa_allocate a = (r, a')" by fastforce
  ultimately show ?thesis
    using pa_allocate_spec [OF _ al] pa_reach_inv [OF assms] by (cases r) simp_all
qed

definition demo_allocator :: port_allocator where
  "demo_allocator = \<lparr>pa_ips = [V4 1, V4 2], pa_port_lo = 5000, pa_port_hi = 5001, pa_in_use = {},
     pa_next_ip = 0, pa_next_port = 5000\<rparr>"

lemma demo_allocator_new: "pa_new [V4 1, V4 2] 5000 5001 = Ok demo_allocator"
  by (simp add: pa_new_def demo_allocator_def)

theorem port_allocate_complete_witness:
  "case pa_allocate demo_allocator of
      (Some c, a') \<Rightarrow> c \<in> pool_of [V4 1, V4 2] 5000 5001 \<and> c \<notin> pa_in_use demo_allocator \<and>
        pa_in_use a' = insert c (pa_in_use demo_allocator)
    | (None, a') \<Rightarrow> pa_in_use demo_allocator = pool_of [V4 1, V4 2] 5000 5001 \<and>
        pa_in_use a' = pa_in_use demo_allocator"
  by (rule port_allocate_complete [OF reach_new [OF demo_allocator_new]])

text \<open>
  With distinct public addresses the pool serves exactly \<open>capacity\<close> sessions at a time:
  \<open>allocate\<close> fails if and only if the number of pairs in use has reached it.
\<close>

lemma port_capacity_exact:
  assumes "pa_reach ips lo hi a" "distinct ips"
  shows "fst (pa_allocate a) = None \<longleftrightarrow> pa_in_use_count a = pa_capacity a"
proof -
  have inv: "pa_inv a" and eq: "pa_ips a = ips" "pa_port_lo a = lo" "pa_port_hi a = hi"
    using pa_reach_inv [OF assms(1)] by simp_all
  have t: "tuples a = pool_of ips lo hi" by (simp add: tuples_def pool_of_def eq)
  have le: "lo \<le> hi" using inv eq unfolding pa_inv_def by (blast intro: order_trans)
  have card: "card (tuples a) = pa_capacity a" "finite (tuples a)"
    using card_pool_of [OF assms(2) le] by (simp_all add: pa_capacity_def eq t)
  have sub: "pa_in_use a \<subseteq> tuples a" using inv by (simp add: pa_inv_def)
  obtain r a' where al: "pa_allocate a = (r, a')" by fastforce
  have "r = None \<longleftrightarrow> pa_in_use a = tuples a"
    using pa_allocate_spec [OF inv al] by (cases r) auto
  also have "\<dots> \<longleftrightarrow> card (pa_in_use a) = card (tuples a)"
    using card_subset_eq [OF card(2) sub] by auto
  finally show ?thesis using al card(1) by (simp add: pa_in_use_count_def)
qed

lemma port_capacity_exact_witness:
  "fst (pa_allocate demo_allocator) \<noteq> None \<and> pa_capacity demo_allocator = 4"
  using port_capacity_exact [OF reach_new [OF demo_allocator_new]]
  by (simp add: pa_in_use_count_def pa_capacity_def demo_allocator_def)

end
