(* ===== verification/Context_Table.thy ===== *)
theory Context_Table
  imports Capsule_Stream
begin

text \<open>
  Compression contexts of CONNECT-UDP bind sessions, \<open>src/src/udp_bind/context.rs\<close>: the
  registration capsules, the table of pending and active contexts, and the datagram bodies
  whose remote address is spelled out or implied by the context. The order in which a
  \<open>HashMap\<close> is iterated is not determined; it is the argument \<open>iter\<close> of the lookups that
  iterate, and \<open>hash_iter\<close> of the prelude says what is known of it.
\<close>

section \<open>Definitions\<close>

definition CAPSULE_COMPRESSION_ASSIGN :: u64 where "CAPSULE_COMPRESSION_ASSIGN = 0x11"
definition CAPSULE_COMPRESSION_ACK :: u64 where "CAPSULE_COMPRESSION_ACK = 0x12"
definition CAPSULE_COMPRESSION_CLOSE :: u64 where "CAPSULE_COMPRESSION_CLOSE = 0x13"
definition CAPSULE_OBSERVED_ADDRESS :: u64 where "CAPSULE_OBSERVED_ADDRESS = 0x14"

datatype binding = Uncompressed | Compressed sock_addr

record compression_assign =
  ca_context_id :: u64
  ca_binding :: binding

record bound_datagram =
  bd_context_id :: u64
  bd_remote :: sock_addr
  bd_payload :: bytes

datatype context_error =
    NotClientAllocated u64
  | Duplicate u64
  | Unknown u64
  | Decode decode_error

subsection \<open>Addresses\<close>

fun put_addr :: "sock_addr \<Rightarrow> bytes" where
  "put_addr (SocketAddr (V4 v4) port) = 4 # octets4 v4 @ be16 port"
| "put_addr (SocketAddr (V6 v6) port) = 6 # octets6 v6 @ be16 port"

definition ctx_get_u8 :: "(decode_error, u8) reader" where
  "ctx_get_u8 = rbind (need 1 Underflow) (\<lambda>_. get_u8)"

definition ctx_get_slice :: "nat \<Rightarrow> (decode_error, bytes) reader" where
  "ctx_get_slice n = rbind (need n Underflow) (\<lambda>_. copy_to_bytes n)"

definition get_addr :: "u8 \<Rightarrow> (decode_error, sock_addr) reader" where
  "get_addr version =
     rbind (if version = 4 then rbind (ctx_get_slice 4) (\<lambda>o'. rret (V4 (of_octets4 o')))
            else if version = 6 then rbind (ctx_get_slice 16) (\<lambda>o'. rret (V6 (of_octets6 o')))
            else rfail (InvalidIpVersion version)) (\<lambda>ip.
     rbind (need 2 Underflow) (\<lambda>_. rbind (copy_to_bytes 2) (\<lambda>p.
       rret (SocketAddr ip (from_be16 (p ! 0) (p ! 1))))))"

subsection \<open>Capsules\<close>

definition ca_encode :: "compression_assign \<Rightarrow> (decode_error, bytes) res" where
  "ca_encode c =
     and_then (unwrap (write_varint (ca_context_id c))) (\<lambda>id.
     (let body = id @ (case ca_binding c of Uncompressed \<Rightarrow> [0] | Compressed addr \<Rightarrow> put_addr addr) in
     and_then (unwrap (write_varint CAPSULE_COMPRESSION_ASSIGN)) (\<lambda>t.
     and_then (unwrap (write_varint (word_of_nat (length body)))) (\<lambda>l.
       Ok (t @ l @ body)))))"

text \<open>\<open>if body.has_remaining() { return Err(TrailingBytes(..)) }\<close>.\<close>

definition no_trailing :: "(decode_error, 'a) res \<times> bytes \<Rightarrow> (decode_error, 'a) res" where
  "no_trailing r = and_then (fst r) (\<lambda>x. if snd r \<noteq> [] then Err (TrailingBytes (length (snd r))) else Ok x)"

definition ca_decode :: "bytes \<Rightarrow> (decode_error, compression_assign) res" where
  "ca_decode body = no_trailing (
     rbind read_varint (\<lambda>context_id.
     rbind ctx_get_u8 (\<lambda>v.
     rbind (if v = 0 then rret Uncompressed else rbind (get_addr v) (\<lambda>a. rret (Compressed a))) (\<lambda>b.
       rret \<lparr>ca_context_id = context_id, ca_binding = b\<rparr>))) body)"

definition encode_context_capsule :: "u64 \<Rightarrow> u64 \<Rightarrow> (decode_error, bytes) res" where
  "encode_context_capsule capsule_type context_id =
     and_then (unwrap (write_varint capsule_type)) (\<lambda>t.
     and_then (unwrap (varint_len context_id)) (\<lambda>n.
     and_then (unwrap (write_varint (word_of_nat n))) (\<lambda>l.
     and_then (unwrap (write_varint context_id)) (\<lambda>id. Ok (t @ l @ id)))))"

definition decode_context_capsule :: "bytes \<Rightarrow> (decode_error, u64) res" where
  "decode_context_capsule body = no_trailing (read_varint body)"

definition encode_observed_address :: "sock_addr \<Rightarrow> (decode_error, bytes) res" where
  "encode_observed_address addr =
     (let body = put_addr addr in
      and_then (unwrap (write_varint CAPSULE_OBSERVED_ADDRESS)) (\<lambda>t.
      and_then (unwrap (write_varint (word_of_nat (length body)))) (\<lambda>l. Ok (t @ l @ body))))"

definition decode_observed_address :: "bytes \<Rightarrow> (decode_error, sock_addr) res" where
  "decode_observed_address body =
     no_trailing (rbind ctx_get_u8 (\<lambda>version. get_addr version) body)"

subsection \<open>The table\<close>

record context_table =
  ct_contexts :: "u64 \<rightharpoonup> binding"
  ct_pending :: "u64 \<rightharpoonup> binding"

definition ct_new :: context_table where
  "ct_new = \<lparr>ct_contexts = Map.empty, ct_pending = Map.empty\<rparr>"

definition ct_register :: "compression_assign \<Rightarrow> context_table \<Rightarrow> (context_error, context_table) res" where
  "ct_register assign t =
     (if ca_context_id assign mod 2 \<noteq> 0 then Err (NotClientAllocated (ca_context_id assign))
      else if ct_contexts t (ca_context_id assign) \<noteq> None \<or> ct_pending t (ca_context_id assign) \<noteq> None
      then Err (Duplicate (ca_context_id assign))
      else Ok (t\<lparr>ct_pending := (ct_pending t)(ca_context_id assign \<mapsto> ca_binding assign)\<rparr>))"

definition ct_ack :: "u64 \<Rightarrow> context_table \<Rightarrow> (context_error, context_table) res" where
  "ct_ack context_id t = (case ct_pending t context_id of
      None \<Rightarrow> Err (Unknown context_id)
    | Some b \<Rightarrow> Ok (t\<lparr>ct_pending := (ct_pending t)(context_id := None),
                     ct_contexts := (ct_contexts t)(context_id \<mapsto> b)\<rparr>))"

definition ct_close :: "u64 \<Rightarrow> context_table \<Rightarrow> context_table" where
  "ct_close context_id t =
     t\<lparr>ct_contexts := (ct_contexts t)(context_id := None), ct_pending := (ct_pending t)(context_id := None)\<rparr>"

definition ct_binding :: "context_table \<Rightarrow> u64 \<Rightarrow> binding option" where
  "ct_binding t context_id = ct_contexts t context_id"

type_synonym binding_iter = "(u64, binding) map_iter"

text \<open>\<open>Iterator::find_map\<close>.\<close>

fun find_map :: "('a \<Rightarrow> 'b option) \<Rightarrow> 'a list \<Rightarrow> 'b option" where
  "find_map f [] = None"
| "find_map f (x # xs) = (case f x of Some y \<Rightarrow> Some y | None \<Rightarrow> find_map f xs)"

definition compressed_context_for :: "binding_iter \<Rightarrow> context_table \<Rightarrow> sock_addr \<Rightarrow> u64 option" where
  "compressed_context_for iter t remote =
     find_map (\<lambda>(id, b). case b of Compressed addr \<Rightarrow> if addr = remote then Some id else None
                                 | Uncompressed \<Rightarrow> None) (iter (ct_contexts t))"

definition uncompressed_context :: "binding_iter \<Rightarrow> context_table \<Rightarrow> u64 option" where
  "uncompressed_context iter t =
     find_map (\<lambda>(id, b). case b of Uncompressed \<Rightarrow> Some id | Compressed _ \<Rightarrow> None) (iter (ct_contexts t))"

definition decode_datagram :: "context_table \<Rightarrow> bytes \<Rightarrow> (context_error, bound_datagram) res" where
  "decode_datagram t buf = (case read_varint buf of
      (Ok context_id, buf) \<Rightarrow> (case ct_binding t context_id of
          None \<Rightarrow> Err (Unknown context_id)
        | Some (Compressed remote) \<Rightarrow>
            Ok \<lparr>bd_context_id = context_id, bd_remote = remote, bd_payload = buf\<rparr>
        | Some Uncompressed \<Rightarrow>
            (case rbind ctx_get_u8 (\<lambda>version. get_addr version) buf of
               (Ok remote, buf) \<Rightarrow>
                 Ok \<lparr>bd_context_id = context_id, bd_remote = remote, bd_payload = buf\<rparr>
             | (Err e, _) \<Rightarrow> Err (Decode e)
             | (Panic, _) \<Rightarrow> Panic))
    | (Err e, _) \<Rightarrow> Err (Decode e)
    | (Panic, _) \<Rightarrow> Panic)"

definition encode_datagram ::
    "context_table \<Rightarrow> u64 \<Rightarrow> sock_addr \<Rightarrow> bytes \<Rightarrow> (context_error, bytes) res" where
  "encode_datagram t context_id remote payload =
     and_then (unwrap (write_varint context_id)) (\<lambda>id.
     case ct_binding t context_id of
       None \<Rightarrow> Err (Unknown context_id)
     | Some (Compressed _) \<Rightarrow> Ok (id @ payload)
     | Some Uncompressed \<Rightarrow> Ok (id @ put_addr remote @ payload))"

definition encode_uncompressed_body :: "u64 \<Rightarrow> sock_addr \<Rightarrow> bytes \<Rightarrow> (decode_error, bytes) res" where
  "encode_uncompressed_body context_id remote payload =
     and_then (unwrap (write_varint context_id)) (\<lambda>id. Ok (id @ put_addr remote @ payload))"

definition decode_uncompressed_body :: "bytes \<Rightarrow> (decode_error, u64 \<times> sock_addr \<times> bytes) res" where
  "decode_uncompressed_body body =
     (case rbind read_varint (\<lambda>context_id. rbind ctx_get_u8 (\<lambda>version.
         rbind (get_addr version) (\<lambda>remote. rret (context_id, remote)))) body of
        (Ok (context_id, remote), rest) \<Rightarrow> Ok (context_id, remote, rest)
      | (Err e, _) \<Rightarrow> Err e
      | (Panic, _) \<Rightarrow> Panic)"

text \<open>\<open>encapsulate\<close> of \<open>src/src/udp_bind/socket.rs\<close>: \<open>.ok()\<close> turns an error into a dropped packet.\<close>

definition encapsulate :: "binding_iter \<Rightarrow> context_table \<Rightarrow> sock_addr \<Rightarrow> bytes \<Rightarrow> (unit, bytes option) res" where
  "encapsulate iter t remote payload =
     (let wrap = (\<lambda>id. case encode_datagram t id remote payload of
            Ok w \<Rightarrow> Ok (Some w) | Err _ \<Rightarrow> Ok None | Panic \<Rightarrow> Panic) in
      case compressed_context_for iter t remote of
        Some cid \<Rightarrow> wrap cid
      | None \<Rightarrow> (case uncompressed_context iter t of None \<Rightarrow> Ok None | Some cid \<Rightarrow> wrap cid))"

section \<open>Addresses on the wire\<close>

lemma put_addr_Cons: "\<exists>v t. put_addr a = v # t \<and> v \<noteq> 0"
  by (cases a rule: put_addr.cases) auto

lemma ctx_get_u8_Cons [reader_simps]: "rbind ctx_get_u8 f (v # t) = f v t"
  by (simp add: ctx_get_u8_def reader_simps rbind_def need_def get_u8_def)

lemma from_be16_be16: "length p = 2 \<Longrightarrow> p = be16 port \<Longrightarrow> from_be16 (p ! 0) (p ! 1) = port"
proof -
  assume p: "length p = 2" "p = be16 port"
  then have "[p ! 0, p ! 1] = p" by (intro nth_equalityI) (auto simp: less_Suc_eq)
  then have "be_val [p ! 0, p ! 1] = unat port" using p by (simp del: be_val.simps)
  then show ?thesis by (simp add: from_be16_def del: be_val.simps)
qed

lemma get_addr_put [reader_simps]:
  "rbind ctx_get_u8 (\<lambda>v. rbind (get_addr v) f) (put_addr a @ rest) = f a rest"
proof (cases a)
  case (SocketAddr ip port)
  have p: "from_be16 (be16 port ! 0) (be16 port ! Suc 0) = port"
    using from_be16_be16 [of "be16 port" port] by simp
  show ?thesis
    by (cases ip) (simp_all add: SocketAddr ctx_get_u8_def ctx_get_slice_def get_addr_def reader_simps p)
qed

lemma get_addr_put' [reader_simps]:
  "rbind ctx_get_u8 get_addr (put_addr a @ rest) = (Ok a, rest)"
  using get_addr_put [of rret a rest]
  by (simp add: rret_def rbind_def split: prod.splits res.splits)

lemma no_panic_ctx_get_slice [intro]: "no_panic (ctx_get_slice n)"
  by (auto simp: no_panic_def ctx_get_slice_def rbind_def need_def copy_to_bytes_def)

lemma no_panic_get_addr [intro]: "no_panic (get_addr v)"
  unfolding get_addr_def
  by (rule no_panic_rbind, intro no_panic_if no_panic_rbind no_panic_ctx_get_slice no_panic_rret
      no_panic_rfail, rule no_panic_need_copy, rule no_panic_rret)

lemma no_panic_ctx_get_u8 [intro]: "no_panic ctx_get_u8"
  by (auto simp: no_panic_def ctx_get_u8_def rbind_def need_def get_u8_def split: list.splits)

section \<open>Capsules\<close>

lemma rbind_rbind: "rbind (rbind m f) g = rbind m (\<lambda>x. rbind (f x) g)"
  by (rule ext) (auto simp: rbind_def split: prod.splits res.splits)

lemma ca_decode_encode_body:
  assumes "write_varint (ca_context_id c) = Ok i" "\<And>rest. read_varint (i @ rest) = (Ok (ca_context_id c), rest)"
  shows "ca_decode (i @ (case ca_binding c of Uncompressed \<Rightarrow> [0] | Compressed addr \<Rightarrow> put_addr addr)) = Ok c"
proof (cases "ca_binding c")
  case Uncompressed
  then show ?thesis
    by (cases c) (simp add: ca_decode_def no_trailing_def rbind_Ok [where m = read_varint, OF assms(2)]
      ctx_get_u8_def reader_simps)
next
  case (Compressed a)
  obtain v t where a: "put_addr a = v # t" "v \<noteq> 0" using put_addr_Cons by blast
  have "rbind (get_addr v) f t = f a []" for f :: "sock_addr \<Rightarrow> (decode_error, compression_assign) reader"
    using get_addr_put [of f a "[]"] by (simp add: a ctx_get_u8_Cons)
  then show ?thesis
    using Compressed a by (cases c) (simp add: ca_decode_def no_trailing_def
      rbind_Ok [where m = read_varint, OF assms(2)] ctx_get_u8_Cons rbind_rbind rbind_basic(1) rret_def)
qed

lemma length_put_addr: "length (put_addr a) \<le> 19"
  by (cases a rule: put_addr.cases) auto

text \<open>A context capsule is an unknown capsule to the CONNECT-IP codec, with the body as data.\<close>

lemma ca_sealed:
  assumes "ca_context_id c \<le> VARINT_MAX"
  shows "\<exists>bs body. ca_encode c = Ok bs \<and> ca_decode body = Ok c \<and>
    (\<forall>rest. envelope (bs @ rest) = Some (CAPSULE_COMPRESSION_ASSIGN, body, rest))"
proof -
  obtain i where i: "write_varint (ca_context_id c) = Ok i"
      "varint_len (ca_context_id c) = Ok (length i)"
      "\<And>rest. read_varint (i @ rest) = (Ok (ca_context_id c), rest)"
    using write_varint_Ok [OF assms] by auto
  let ?body = "i @ (case ca_binding c of Uncompressed \<Rightarrow> [0] | Compressed addr \<Rightarrow> put_addr addr)"
  have "length ?body \<le> 8 + 19"
    using varint_len_bound [OF i(2)] length_put_addr
    by (cases "ca_binding c") (auto intro: order_trans [OF add_mono])
  then have "length ?body < 2 ^ 62" by simp
  moreover have "CAPSULE_COMPRESSION_ASSIGN \<le> VARINT_MAX"
    by (simp add: CAPSULE_COMPRESSION_ASSIGN_def VARINT_MAX_def)
  ultimately obtain bs where
    "and_then (unwrap (write_varint CAPSULE_COMPRESSION_ASSIGN)) (\<lambda>t.
        and_then (unwrap (write_varint (word_of_nat (length ?body)))) (\<lambda>l. Ok (t @ l @ ?body))) =
      (Ok bs :: (decode_error, bytes) res)"
    "\<forall>rest. envelope (bs @ rest) = Some (CAPSULE_COMPRESSION_ASSIGN, ?body, rest)"
    using wrap_payload by blast
  then show ?thesis
    using i(1) ca_decode_encode_body [OF i(1,3)]
    by (intro exI [of _ bs] exI [of _ ?body]) (simp add: ca_encode_def Let_def)
qed

lemma context_capsule_sealed:
  assumes "capsule_type \<le> VARINT_MAX" "context_id \<le> VARINT_MAX"
  shows "\<exists>bs body. encode_context_capsule capsule_type context_id = Ok bs \<and>
    decode_context_capsule body = Ok context_id \<and>
    (\<forall>rest. envelope (bs @ rest) = Some (capsule_type, body, rest))"
proof -
  obtain i where i: "write_varint context_id = Ok i" "varint_len context_id = Ok (length i)"
      "\<And>rest. read_varint (i @ rest) = (Ok context_id, rest)"
    using write_varint_Ok [OF assms(2)] by auto
  have "length i < 2 ^ 62" using varint_len_bound [OF i(2)] by simp
  from wrap_payload [OF assms(1) this] i show ?thesis
    using i(3) [of "[]"]
    by (force simp: encode_context_capsule_def decode_context_capsule_def no_trailing_def)
qed

lemma observed_address_sealed:
  "\<exists>bs body. encode_observed_address addr = Ok bs \<and> decode_observed_address body = Ok addr \<and>
    (\<forall>rest. envelope (bs @ rest) = Some (CAPSULE_OBSERVED_ADDRESS, body, rest))"
proof -
  have "CAPSULE_OBSERVED_ADDRESS \<le> VARINT_MAX"
    by (simp add: CAPSULE_OBSERVED_ADDRESS_def VARINT_MAX_def)
  moreover have "length (put_addr addr) < 2 ^ 62" using length_put_addr [of addr] by simp
  moreover have "decode_observed_address (put_addr addr) = Ok addr"
    using get_addr_put' [of addr "[]"] by (simp add: decode_observed_address_def no_trailing_def)
  ultimately show ?thesis
    using wrap_payload [of CAPSULE_OBSERVED_ADDRESS "put_addr addr"]
    by (auto simp: encode_observed_address_def Let_def)
qed

lemma unknown_capsule:
  "envelope s = Some (t, body, rest) \<Longrightarrow> t \<notin> {1, 2, 3} \<Longrightarrow> decode_capsule s = (Ok (CapUnknown t body), rest)"
  by (simp add: decode_capsule_envelope decode_payload_def CAPSULE_ADDRESS_ASSIGN_def
    CAPSULE_ADDRESS_REQUEST_def CAPSULE_ROUTE_ADVERTISEMENT_def)

section \<open>The table\<close>

text \<open>Only even ids a varint can carry, finitely many, and none both pending and active.\<close>

definition ct_inv :: "context_table \<Rightarrow> bool" where
  "ct_inv t \<longleftrightarrow> finite (dom (ct_contexts t)) \<and> finite (dom (ct_pending t)) \<and>
     (\<forall>i. ct_pending t i \<noteq> None \<longrightarrow> ct_contexts t i = None) \<and>
     (\<forall>i. odd i \<or> VARINT_MAX < i \<longrightarrow> ct_contexts t i = None \<and> ct_pending t i = None)"

lemma ct_inv_new: "ct_inv ct_new"
  by (simp add: ct_inv_def ct_new_def)

lemma ct_inv_register:
  "ct_inv t \<Longrightarrow> ca_context_id c \<le> VARINT_MAX \<Longrightarrow> ct_register c t = Ok t' \<Longrightarrow> ct_inv t'"
  by (auto simp: ct_register_def ct_inv_def split: if_splits)

lemma ct_inv_ack: "ct_inv t \<Longrightarrow> ct_ack i t = Ok t' \<Longrightarrow> ct_inv t'"
  by (auto simp: ct_ack_def ct_inv_def split: option.splits)

lemma ct_inv_close: "ct_inv t \<Longrightarrow> ct_inv (ct_close i t)"
  by (auto simp: ct_close_def ct_inv_def)

lemma find_map_Some: "find_map f xs = Some y \<Longrightarrow> \<exists>x \<in> set xs. f x = Some y"
  by (induction xs) (auto split: option.splits)

lemma find_map_None: "find_map f xs = None \<longleftrightarrow> (\<forall>x \<in> set xs. f x = None)"
  by (induction xs) (auto split: option.splits)

lemma binding_select [simp]:
  "(case b of Uncompressed \<Rightarrow> None | Compressed addr \<Rightarrow> if addr = remote then Some i else None) = Some j
     \<longleftrightarrow> b = Compressed remote \<and> i = j"
  "(case b of Uncompressed \<Rightarrow> None | Compressed addr \<Rightarrow> if addr = remote then Some i else None) = None
     \<longleftrightarrow> b \<noteq> Compressed remote"
  "(case b of Uncompressed \<Rightarrow> Some i | Compressed addr \<Rightarrow> None) = Some j \<longleftrightarrow> b = Uncompressed \<and> i = j"
  "(case b of Uncompressed \<Rightarrow> Some i | Compressed addr \<Rightarrow> None) = None \<longleftrightarrow> b \<noteq> Uncompressed"
  by (cases b; simp)+

lemma compressed_context_for_Some:
  assumes "hash_iter iter" "ct_inv t" "compressed_context_for iter t remote = Some i"
  shows "ct_contexts t i = Some (Compressed remote)"
  using find_map_Some [OF assms(3) [unfolded compressed_context_for_def]] assms(1,2)
  by (auto simp: hash_iter_def ct_inv_def)

lemma compressed_context_for_None:
  assumes "hash_iter iter" "ct_inv t"
  shows "compressed_context_for iter t remote = None \<longleftrightarrow> (\<forall>i. ct_contexts t i \<noteq> Some (Compressed remote))"
  using assms by (auto simp: compressed_context_for_def find_map_None hash_iter_def ct_inv_def)

lemma uncompressed_context_Some:
  assumes "hash_iter iter" "ct_inv t" "uncompressed_context iter t = Some i"
  shows "ct_contexts t i = Some Uncompressed"
  using find_map_Some [OF assms(3) [unfolded uncompressed_context_def]] assms(1,2)
  by (auto simp: hash_iter_def ct_inv_def)

lemma uncompressed_context_None:
  assumes "hash_iter iter" "ct_inv t"
  shows "uncompressed_context iter t = None \<longleftrightarrow> (\<forall>i. ct_contexts t i \<noteq> Some Uncompressed)"
  using assms by (auto simp: uncompressed_context_def find_map_None hash_iter_def ct_inv_def)

text \<open>A remote fits a binding: any for the uncompressed one, only its own for a compressed one.\<close>

fun fits :: "binding \<Rightarrow> sock_addr \<Rightarrow> bool" where
  "fits Uncompressed remote \<longleftrightarrow> True"
| "fits (Compressed addr) remote \<longleftrightarrow> addr = remote"

lemma datagram_roundtrip:
  assumes "context_id \<le> VARINT_MAX" "ct_binding t context_id = Some b" "fits b remote"
  shows "\<exists>w. encode_datagram t context_id remote payload = Ok w \<and>
    decode_datagram t w = Ok \<lparr>bd_context_id = context_id, bd_remote = remote, bd_payload = payload\<rparr>"
proof -
  obtain i where i: "write_varint context_id = Ok i" "\<And>rest. read_varint (i @ rest) = (Ok context_id, rest)"
    using write_varint_Ok [OF assms(1)] by auto
  then show ?thesis
    using assms(2,3) by (cases b) (simp_all add: encode_datagram_def decode_datagram_def reader_simps)
qed

lemma decode_datagram_no_panic: "decode_datagram t buf \<noteq> Panic"
proof -
  have "no_panic (rbind ctx_get_u8 get_addr)" by auto
  from no_panicD [OF this] no_panicD [OF no_panic_read_varint] show ?thesis
    by (auto simp: decode_datagram_def split: prod.splits res.splits option.splits binding.splits)
qed

lemma no_trailing_Ok: "no_trailing r = Ok x \<Longrightarrow> r = (Ok x, [])"
  by (cases r) (auto simp: no_trailing_def and_then_eq_Ok split: if_splits)

lemma ca_decode_bound: "ca_decode body = Ok c \<Longrightarrow> ca_context_id c \<le> VARINT_MAX"
  unfolding ca_decode_def
  by (drule no_trailing_Ok) (auto simp: rbind_eq_Ok rret_def read_varint_max)

section \<open>Properties\<close>

lemma encapsulate_spec:
  assumes "hash_iter iter" "ct_inv t"
  shows "if \<exists>i b. ct_binding t i = Some b \<and> fits b remote
     then \<exists>w i. encapsulate iter t remote payload = Ok (Some w) \<and>
       decode_datagram t w = Ok \<lparr>bd_context_id = i, bd_remote = remote, bd_payload = payload\<rparr>
     else encapsulate iter t remote payload = Ok None"
proof -
  have carried: "\<exists>w j. (case encode_datagram t i remote payload of
            Ok w \<Rightarrow> Ok (Some w) | Err _ \<Rightarrow> Ok None | Panic \<Rightarrow> Panic) = Ok (Some w) \<and>
       decode_datagram t w = Ok \<lparr>bd_context_id = j, bd_remote = remote, bd_payload = payload\<rparr>"
    if "ct_contexts t i = Some b" "fits b remote" for i b
  proof -
    have "i \<le> VARINT_MAX" using that(1) assms(2) by (force simp: ct_inv_def not_le [symmetric])
    from datagram_roundtrip [OF this, of t b remote payload] that show ?thesis
      by (auto simp: ct_binding_def)
  qed
  show ?thesis
  proof (cases "compressed_context_for iter t remote")
    case (Some i)
    note c = compressed_context_for_Some [OF assms Some]
    then have "\<exists>i b. ct_contexts t i = Some b \<and> fits b remote" using fits.simps(2) by blast
    with carried [OF c] Some show ?thesis
      by (auto simp: encapsulate_def ct_binding_def)
  next
    case none: None
    note n = none [unfolded compressed_context_for_None [OF assms]]
    show ?thesis
    proof (cases "uncompressed_context iter t")
      case (Some i)
      note c = uncompressed_context_Some [OF assms Some]
      then have "\<exists>i b. ct_contexts t i = Some b \<and> fits b remote" using fits.simps(1) by blast
      with carried [OF c] Some none show ?thesis
        by (auto simp: encapsulate_def ct_binding_def)
    next
      case None
      then have "\<not> fits b remote" if "ct_contexts t i = Some b" for i b
        using n that unfolding uncompressed_context_None [OF assms] by (cases b) auto
      then show ?thesis using None none by (auto simp: encapsulate_def ct_binding_def)
    qed
  qed
qed

text \<open>
  C36: the relay as a firewall. A UDP packet from \<open>remote\<close> is wrapped for the peer exactly when
  some active context can carry that remote (the uncompressed one, or a compressed one bound to
  exactly this address), and then the datagram decodes under the same table to the remote and
  the payload it came from. Otherwise it is dropped. Encoding never panics.
\<close>

theorem encapsulate_firewall:
  assumes "hash_iter iter" "ct_inv t"
  shows "if \<exists>i b. ct_binding t i = Some b \<and> fits b remote
     then \<exists>w i. encapsulate iter t remote payload = Ok (Some w) \<and>
       decode_datagram t w = Ok \<lparr>bd_context_id = i, bd_remote = remote, bd_payload = payload\<rparr>
     else encapsulate iter t remote payload = Ok None"
  by (rule encapsulate_spec) (fact assms)+

definition sample_remote :: sock_addr where
  "sample_remote = SocketAddr (V4 0xCB007107) 4433"

definition sample_table :: context_table where
  "sample_table = \<lparr>ct_contexts = [4 \<mapsto> Compressed sample_remote], ct_pending = Map.empty\<rparr>"

theorem encapsulate_firewall_witness:
  "hash_iter sorted_iter \<and> ct_inv sample_table \<and>
   (\<exists>w i. encapsulate sorted_iter sample_table sample_remote [1, 2] = Ok (Some w) \<and>
      decode_datagram sample_table w = Ok \<lparr>bd_context_id = i, bd_remote = sample_remote, bd_payload = [1, 2]\<rparr>) \<and>
   encapsulate sorted_iter sample_table (SocketAddr (V4 0xCB007107) 4434) [1, 2] = Ok None"
proof -
  have inv: "ct_inv sample_table" by (simp add: ct_inv_def sample_table_def VARINT_MAX_def)
  note th = encapsulate_firewall [OF hash_iter_sorted inv, of _ "[1, 2]"]
  show ?thesis
    using th [of sample_remote] th [of "SocketAddr (V4 0xCB007107) 4434"] hash_iter_sorted inv
    by (auto simp: sample_table_def sample_remote_def ct_binding_def split: if_splits)
qed

text \<open>
  The compression capsules and the OBSERVED_ADDRESS report survive the shared capsule
  stream. Each is an unknown capsule to the CONNECT-IP codec, consumed exactly, whose data the
  decoder of its kind maps back to what was encoded.
\<close>

theorem context_capsules_roundtrip:
  assumes "ca_context_id c \<le> VARINT_MAX"
  shows "(\<exists>bs body. ca_encode c = Ok bs \<and> ca_decode body = Ok c \<and>
      (\<forall>rest. decode_capsule (bs @ rest) = (Ok (CapUnknown CAPSULE_COMPRESSION_ASSIGN body), rest))) \<and>
    (\<forall>t. t = CAPSULE_COMPRESSION_ACK \<or> t = CAPSULE_COMPRESSION_CLOSE \<longrightarrow>
      (\<exists>bs body. encode_context_capsule t (ca_context_id c) = Ok bs \<and>
        decode_context_capsule body = Ok (ca_context_id c) \<and>
        (\<forall>rest. decode_capsule (bs @ rest) = (Ok (CapUnknown t body), rest)))) \<and>
    (\<exists>bs body. encode_observed_address addr = Ok bs \<and> decode_observed_address body = Ok addr \<and>
      (\<forall>rest. decode_capsule (bs @ rest) = (Ok (CapUnknown CAPSULE_OBSERVED_ADDRESS body), rest)))"
proof (intro conjI allI impI)
  note codes = CAPSULE_COMPRESSION_ASSIGN_def CAPSULE_COMPRESSION_ACK_def CAPSULE_COMPRESSION_CLOSE_def
    CAPSULE_OBSERVED_ADDRESS_def VARINT_MAX_def
  show "\<exists>bs body. ca_encode c = Ok bs \<and> ca_decode body = Ok c \<and>
      (\<forall>rest. decode_capsule (bs @ rest) = (Ok (CapUnknown CAPSULE_COMPRESSION_ASSIGN body), rest))"
    using ca_sealed [OF assms] unknown_capsule [of _ CAPSULE_COMPRESSION_ASSIGN] by (fastforce simp: codes)
  show "\<exists>bs body. encode_context_capsule t (ca_context_id c) = Ok bs \<and>
        decode_context_capsule body = Ok (ca_context_id c) \<and>
        (\<forall>rest. decode_capsule (bs @ rest) = (Ok (CapUnknown t body), rest))"
    if "t = CAPSULE_COMPRESSION_ACK \<or> t = CAPSULE_COMPRESSION_CLOSE" for t
    using context_capsule_sealed [of t, OF _ assms] unknown_capsule [of _ t] that by (fastforce simp: codes)
  show "\<exists>bs body. encode_observed_address addr = Ok bs \<and> decode_observed_address body = Ok addr \<and>
      (\<forall>rest. decode_capsule (bs @ rest) = (Ok (CapUnknown CAPSULE_OBSERVED_ADDRESS body), rest))"
    using observed_address_sealed [of addr] unknown_capsule [of _ CAPSULE_OBSERVED_ADDRESS]
    by (fastforce simp: codes)
qed

theorem context_capsules_roundtrip_witness:
  "\<exists>bs body. ca_encode \<lparr>ca_context_id = 4, ca_binding = Compressed sample_remote\<rparr> = Ok bs \<and>
     ca_decode body = Ok \<lparr>ca_context_id = 4, ca_binding = Compressed sample_remote\<rparr> \<and>
     (\<forall>rest. decode_capsule (bs @ rest) = (Ok (CapUnknown CAPSULE_COMPRESSION_ASSIGN body), rest))"
  using context_capsules_roundtrip [of "\<lparr>ca_context_id = 4, ca_binding = Compressed sample_remote\<rparr>"]
  by (simp add: VARINT_MAX_def)

end
