(* ===== verification/Packet.thy ===== *)
theory Packet
  imports Capsule
begin

unbundle bit_operations_syntax

text \<open>
  IP packet validation and mutation, \<open>src/src/forwarding/packet.rs\<close>: the header parser, the
  BCP 38 source check, the destination check, the TTL decrement with its checksum, and the
  Internet checksum of RFC 1071 with the proof that a stored checksum verifies.
\<close>

section \<open>Definitions\<close>

record packet_info =
  pi_version :: u8
  pi_src :: ip_addr
  pi_dst :: ip_addr
  pi_protocol :: u8

definition ver :: "bytes \<Rightarrow> u8" where
  "ver packet = drop_bit 4 (packet ! 0)"

definition ihl :: "bytes \<Rightarrow> nat" where
  "ihl packet = unat (packet ! 0 AND 0x0f) * 4"

text \<open>
  The walk over IPv6 extension headers; the first argument counts the iterations the source
  bounds by 8.
\<close>

fun ipv6_chain :: "nat \<Rightarrow> bytes \<Rightarrow> u8 \<Rightarrow> nat \<Rightarrow> (forwarding_error, u8) res" where
  "ipv6_chain 0 packet nxt offset = Err MalformedPacket"
| "ipv6_chain (Suc n) packet nxt offset =
     (if nxt = 0 \<or> nxt = 43 \<or> nxt = 60 then
        (if length packet < offset + 8 then Err MalformedPacket
         else
           (let len = 8 + unat (packet ! (offset + 1)) * 8 in
            if length packet < offset + len then Err MalformedPacket
            else ipv6_chain n packet (packet ! offset) (offset + len)))
      else if nxt = 44 then
        (if length packet < offset + 8 then Err MalformedPacket
         else if drop_bit 3 (from_be16 (packet ! (offset + 2)) (packet ! (offset + 3))) \<noteq> 0 then Ok 44
         else ipv6_chain n packet (packet ! offset) (offset + 8))
      else if nxt = 51 then
        (if length packet < offset + 8 then Err MalformedPacket
         else
           (let len = (unat (packet ! (offset + 1)) + 2) * 4 in
            if length packet < offset + len then Err MalformedPacket
            else ipv6_chain n packet (packet ! offset) (offset + len)))
      else Ok nxt)"

definition ipv6_final_protocol :: "bytes \<Rightarrow> (forwarding_error, u8) res" where
  "ipv6_final_protocol packet = ipv6_chain 8 packet (packet ! 6) 40"

definition parse_packet :: "bytes \<Rightarrow> (forwarding_error, packet_info) res" where
  "parse_packet packet =
     (if packet = [] then Err MalformedPacket
      else if ver packet = 4 then
        (if length packet < 20 then Err MalformedPacket
         else
           (let total_len = unat (from_be16 (packet ! 2) (packet ! 3)) in
            if ihl packet < 20 \<or> total_len < ihl packet \<or> length packet \<noteq> total_len
            then Err MalformedPacket
            else Ok \<lparr>pi_version = 4, pi_src = V4 (of_octets4 (sub_slice 12 16 packet)),
                     pi_dst = V4 (of_octets4 (sub_slice 16 20 packet)), pi_protocol = packet ! 9\<rparr>))
      else if ver packet = 6 then
        (if length packet < 40 then Err MalformedPacket
         else
           (let payload_len = unat (from_be16 (packet ! 4) (packet ! 5)) in
            if length packet \<noteq> 40 + payload_len then Err MalformedPacket
            else and_then (ipv6_final_protocol packet) (\<lambda>protocol.
              Ok \<lparr>pi_version = 6, pi_src = V6 (of_octets6 (sub_slice 8 24 packet)),
                  pi_dst = V6 (of_octets6 (sub_slice 24 40 packet)), pi_protocol = protocol\<rparr>)))
      else Err MalformedPacket)"

definition validate_source ::
    "ipnet_api \<Rightarrow> packet_info \<Rightarrow> assigned_address list \<Rightarrow> (forwarding_error, unit) res" where
  "validate_source api info assigned =
     (if list_ex (\<lambda>a. case net_new api (aa_ip_address a) (aa_prefix_length a) of
            Some net \<Rightarrow> net_contains api net (pi_src info) | None \<Rightarrow> False) assigned
      then Ok () else Err (SourceAddressViolation (pi_src info)))"

definition validate_destination :: "ip_addr \<Rightarrow> (forwarding_error, unit) res" where
  "validate_destination dst =
     (let denied = (case dst of
         V4 v4 \<Rightarrow> is_loopback4 v4 \<or> is_link_local4 v4 \<or> is_unspecified4 v4 \<or> is_broadcast4 v4
       | V6 v6 \<Rightarrow> is_loopback6 v6 \<or> is_unspecified6 v6 \<or> segment0 v6 AND 0xffc0 = 0xfe80) in
      if denied then Err LinkLocalDrop else Ok ())"

fun sum_pairs :: "u32 \<Rightarrow> bytes \<Rightarrow> u32" where
  "sum_pairs s (a # b # rest) = sum_pairs (s + ucast (from_be16 a b)) rest"
| "sum_pairs s [b] = s + ucast (from_be16 b 0)"
| "sum_pairs s [] = s"

lemma unat_fold_step:
  fixes s :: u32
  shows "unat ((s AND 0xffff) + drop_bit 16 s) = unat s mod 65536 + unat s div 65536"
proof -
  have a: "unat (s AND 0xffff) = unat s mod 65536"
    using unat_take_bit [of 16 s] by (simp add: take_bit_eq_mask mask_eq_exp_minus_1)
  have b: "unat (drop_bit 16 s) = unat s div 65536" by (simp add: unat_drop_bit)
  have "unat s div 65536 < 65536" by (rule less_mult_imp_div_less) simp
  then show ?thesis by (simp add: unat_word_ariths a b)
qed

function fold_carries :: "u32 \<Rightarrow> u32" where
  "fold_carries s = (if s > 0xffff then fold_carries ((s AND 0xffff) + drop_bit 16 s) else s)"
  by auto
termination
proof (relation "measure unat")
  fix s :: u32
  assume "0xffff < s"
  then have big: "65535 < unat s" by (simp add: word_less_nat_alt)
  have "unat s = unat s mod 65536 + 65536 * (unat s div 65536)" by simp
  moreover have "unat s div 65536 > 0" using big by simp
  ultimately have "unat s mod 65536 + unat s div 65536 < unat s" by linarith
  then show "((s AND 0xffff) + drop_bit 16 s, s) \<in> measure unat"
    by (simp only: in_measure unat_fold_step)
qed simp

declare fold_carries.simps [simp del]

definition ipv4_checksum :: "bytes \<Rightarrow> u16" where
  "ipv4_checksum data = NOT (ucast (fold_carries (sum_pairs 0 data)))"

text \<open>\<open>&packet[..ihl]\<close> panics when the header length exceeds the packet.\<close>

definition recompute_ipv4_checksum :: "bytes \<Rightarrow> (forwarding_error, bytes) res" where
  "recompute_ipv4_checksum packet =
     (let n = ihl packet; p = packet[10 := 0, 11 := 0] in
      if length p < n then Panic else Ok (write_at 10 (be16 (ipv4_checksum (take n p))) p))"

text \<open>
  The packet is mutated in place: the result carries the packet after the call, on an error
  the packet as it was.
\<close>

definition decrement_ttl :: "bytes \<Rightarrow> (forwarding_error, bytes) res" where
  "decrement_ttl packet =
     (if packet = [] then Err MalformedPacket
      else if ver packet = 4 then
        (if length packet < 20 then Err MalformedPacket
         else if packet ! 8 \<le> 1 then Err TtlExpired
         else recompute_ipv4_checksum (packet[8 := packet ! 8 - 1]))
      else if ver packet = 6 then
        (if length packet < 40 then Err MalformedPacket
         else if packet ! 7 \<le> 1 then Err TtlExpired
         else Ok (packet[7 := packet ! 7 - 1]))
      else Err MalformedPacket)"

definition build_ipv4_icmp_echo ::
    "ipv4 \<Rightarrow> ipv4 \<Rightarrow> bool \<Rightarrow> u16 \<Rightarrow> u16 \<Rightarrow> bytes \<Rightarrow> u8 \<Rightarrow> bytes" where
  "build_ipv4_icmp_echo src dst is_reply identifier sequence payload ttl =
     (let icmp_len = 8 + length payload; total_len = 20 + icmp_len;
          p = replicate total_len 0;
          p = p[0 := 0x45];
          p = write_at 2 (be16 (word_of_nat total_len)) p;
          p = p[8 := ttl];
          p = p[9 := 1];
          p = write_at 12 (octets4 src) p;
          p = write_at 16 (octets4 dst) p;
          p = write_at 10 (be16 (ipv4_checksum (take 20 p))) p;
          p = p[20 := if is_reply then 0 else 8];
          p = write_at 24 (be16 identifier) p;
          p = write_at 26 (be16 sequence) p;
          p = write_at 28 payload p
      in write_at 22 (be16 (ipv4_checksum (drop 20 p))) p)"

definition icmpv6_checksum :: "ipv6 \<Rightarrow> ipv6 \<Rightarrow> bytes \<Rightarrow> u16" where
  "icmpv6_checksum src dst icmp =
     ipv4_checksum (octets6 src @ octets6 dst @ be32 (word_of_nat (length icmp)) @ [0, 0, 0, 58] @ icmp)"

definition build_ipv6_icmpv6_echo ::
    "ipv6 \<Rightarrow> ipv6 \<Rightarrow> bool \<Rightarrow> u16 \<Rightarrow> u16 \<Rightarrow> bytes \<Rightarrow> u8 \<Rightarrow> bytes" where
  "build_ipv6_icmpv6_echo src dst is_reply identifier sequence payload hop_limit =
     (let icmp_len = 8 + length payload;
          p = replicate (40 + icmp_len) 0;
          p = p[0 := 0x60];
          p = write_at 4 (be16 (word_of_nat icmp_len)) p;
          p = p[6 := 58];
          p = p[7 := hop_limit];
          p = write_at 8 (octets6 src) p;
          p = write_at 24 (octets6 dst) p;
          p = p[40 := if is_reply then 129 else 128];
          p = write_at 44 (be16 identifier) p;
          p = write_at 46 (be16 sequence) p;
          p = write_at 48 payload p
      in write_at 42 (be16 (icmpv6_checksum src dst (drop 40 p))) p)"

section \<open>The Internet checksum\<close>

text \<open>The sum of the 16-bit units as a number, without carries lost.\<close>

fun unit_sum :: "bytes \<Rightarrow> nat" where
  "unit_sum (a # b # rest) = unat a * 256 + unat b + unit_sum rest"
| "unit_sum [b] = unat b * 256"
| "unit_sum [] = 0"

lemma unit_sum_bound: "unit_sum bs \<le> 65535 * ((length bs + 1) div 2)"
proof (induction bs rule: unit_sum.induct)
  case (1 a b rest)
  have "unat a * 256 + unat b \<le> 65535" using unat_u8_le [of a] unat_u8_le [of b] by linarith
  then show ?case using 1 by simp
next
  case (2 b)
  have "unat b * 256 \<le> 65535" using unat_u8_le [of b] by linarith
  then show ?case by simp
qed simp

lemma unit_sum_append: "even (length xs) \<Longrightarrow> unit_sum (xs @ ys) = unit_sum xs + unit_sum ys"
  by (induction xs rule: unit_sum.induct) auto

lemma unat_add_small: "unat a + unat b < 2 ^ LENGTH('a) \<Longrightarrow> unat (a + b) = unat a + unat (b :: 'a::len word)"
  by (simp add: unat_word_ariths)

lemma unat_sum_pairs: "unat s + unit_sum bs < 2 ^ 32 \<Longrightarrow> unat (sum_pairs s bs) = unat s + unit_sum bs"
proof (induction s bs rule: sum_pairs.induct)
  case (1 s a b rest)
  have "unat (s + ucast (from_be16 a b)) = unat s + (unat a * 256 + unat b)"
    using 1(2) by (subst unat_add_small) (simp_all add: unat_ucast_up unat_from_be16)
  then show ?case using 1 by simp
next
  case (2 s b)
  then show ?case by (subst sum_pairs.simps, subst unat_add_small) (simp_all add: unat_ucast_up unat_from_be16)
qed simp

text \<open>Folding keeps the value modulo \<open>0xffff\<close> and only zero folds to zero.\<close>

lemma fold_carries_value:
  "unat (fold_carries s) \<le> 65535 \<and> unat (fold_carries s) mod 65535 = unat s mod 65535 \<and>
   (unat (fold_carries s) = 0 \<longleftrightarrow> unat s = 0)"
proof (induction s rule: fold_carries.induct)
  case (1 s)
  show ?case
  proof (cases "s > 0xffff")
    case True
    define t where "t = (s AND 0xffff) + drop_bit 16 s"
    have t: "unat t = unat s mod 65536 + unat s div 65536" unfolding t_def by (rule unat_fold_step)
    have s: "unat s = unat s mod 65536 + 65536 * (unat s div 65536)" by simp
    have "unat s mod 65535 = (unat t + 65535 * (unat s div 65536)) mod 65535"
      using s t by (intro arg_cong [where f = "\<lambda>x. x mod 65535"]) linarith
    then have m: "unat s mod 65535 = unat t mod 65535" by simp
    have z: "unat t = 0 \<longleftrightarrow> unat s = 0"
    proof -
      have "65535 < unat s" using True by (simp add: word_less_nat_alt)
      then have "0 < unat s div 65536" by simp
      then show ?thesis using t by linarith
    qed
    have "fold_carries s = fold_carries t" using True by (simp add: fold_carries.simps [of s] t_def)
    then show ?thesis using 1 [OF True, folded t_def] m z by simp
  next
    case False
    then have "unat s \<le> 65535" by (simp add: word_le_nat_alt not_less)
    then show ?thesis using False by (simp add: fold_carries.simps [of s])
  qed
qed

lemma unat_NOT_u16: "unat (NOT w) = 65535 - unat (w :: u16)"
proof -
  have "NOT w = - 1 - w" by (simp add: not_eq_complement)
  moreover have "unat (- 1 - w) = unat (- 1 :: u16) - unat w"
    by (rule unat_sub) simp
  ultimately show ?thesis by (simp add: unsigned_minus_1_eq_mask mask_eq_exp_minus_1)
qed

lemma ipv4_checksum_value:
  assumes "unit_sum bs < 2 ^ 32"
  obtains f where "unat (ipv4_checksum bs) = 65535 - f" "f \<le> 65535"
    "f mod 65535 = unit_sum bs mod 65535" "f = 0 \<longleftrightarrow> unit_sum bs = 0"
proof
  let ?f = "fold_carries (sum_pairs 0 bs)"
  have s: "unat (sum_pairs 0 bs) = unit_sum bs" using unat_sum_pairs [of 0 bs] assms by simp
  note v = fold_carries_value [of "sum_pairs 0 bs", unfolded s]
  show "unat ?f \<le> 65535" "unat ?f mod 65535 = unit_sum bs mod 65535" "unat ?f = 0 \<longleftrightarrow> unit_sum bs = 0"
    using v by auto
  have "unat (ucast ?f :: u16) = unat ?f"
    using v by (simp add: unsigned_ucast_eq take_bit_nat_eq_self)
  then show "unat (ipv4_checksum bs) = 65535 - unat ?f"
    by (simp add: ipv4_checksum_def unat_NOT_u16)
qed

lemma be16_bytes: "\<exists>a b. be16 w = [a, b] \<and> unat a * 256 + unat b = unat w"
proof -
  obtain a b where ab: "be16 w = [a, b]"
    using length_be16 [of w] by (cases "be16 w"; cases "tl (be16 w)") auto
  then show ?thesis using be_val_be16 [of w] by simp
qed

lemma unit_sum_write:
  assumes "even k" "k + 2 \<le> length bs" "bs ! k = 0" "bs ! (k + 1) = 0"
  shows "unit_sum (write_at k (be16 w) bs) = unit_sum bs + unat w"
proof -
  obtain a b where ab: "be16 w = [a, b]" "unat a * 256 + unat b = unat w" using be16_bytes by blast
  have split: "bs = take k bs @ [0, 0] @ drop (k + 2) bs"
    using assms(2,3,4) id_take_nth_drop [of k bs] Cons_nth_drop_Suc [of "Suc k" bs] by simp
  have e: "even (length (take k bs))" using assms by simp
  have "unit_sum bs = unit_sum (take k bs) + unit_sum (drop (k + 2) bs)"
    by (subst split, subst unit_sum_append [OF e]) simp
  then show ?thesis
    using ab by (simp add: write_at_def unit_sum_append [OF e])
qed

text \<open>A checksum computed over a zero field and stored there verifies.\<close>

lemma checksum_verifies:
  assumes "even k" "k + 2 \<le> length bs" "bs ! k = 0" "bs ! (k + 1) = 0" "length bs \<le> 65600"
  shows "ipv4_checksum (write_at k (be16 (ipv4_checksum bs)) bs) = 0"
proof -
  have small: "unit_sum bs + 65535 < 2 ^ 32"
    using unit_sum_bound [of bs] assms(5) by simp
  then have "unit_sum bs < 2 ^ 32" by simp
  then obtain f where f: "unat (ipv4_checksum bs) = 65535 - f" "f \<le> 65535"
      "f mod 65535 = unit_sum bs mod 65535" "f = 0 \<longleftrightarrow> unit_sum bs = 0"
    by (rule ipv4_checksum_value)
  let ?bs = "write_at k (be16 (ipv4_checksum bs)) bs"
  have sum: "unit_sum ?bs = unit_sum bs + (65535 - f)"
    using unit_sum_write [OF assms(1-4)] f(1) by simp
  then have "unit_sum ?bs < 2 ^ 32" using small by linarith
  then obtain g where g: "unat (ipv4_checksum ?bs) = 65535 - g" "g \<le> 65535"
      "g mod 65535 = unit_sum ?bs mod 65535" "g = 0 \<longleftrightarrow> unit_sum ?bs = 0"
    by (rule ipv4_checksum_value)
  have "unit_sum ?bs mod 65535 = (f + (65535 - f)) mod 65535"
    unfolding sum using f(3) by (metis mod_add_left_eq)
  then have "g mod 65535 = 0" using g(3) f(2) by simp
  moreover have "g \<noteq> 0" using g(4) sum f(2,4) by auto
  ultimately have "g = 65535" using g(2) by (metis le_neq_implies_less mod_less)
  then show ?thesis using g(1) by (simp add: unat_eq_0)
qed

section \<open>Headers\<close>

lemma take_write_at [buf_simps]:
  assumes "k + length src \<le> length xs"
  shows "k + length src \<le> n \<Longrightarrow> take n (write_at k src xs) = write_at k src (take n xs)"
    and "n \<le> k \<Longrightarrow> take n (write_at k src xs) = take n xs"
  using assms by (auto intro!: nth_equalityI simp: buf_simps)

lemma drop_write_at [buf_simps]:
  assumes "k + length src \<le> length xs"
  shows "n \<le> k \<Longrightarrow> drop n (write_at k src xs) = write_at (k - n) src (drop n xs)"
    and "k + length src \<le> n \<Longrightarrow> drop n (write_at k src xs) = drop n xs"
  using assms by (auto intro!: nth_equalityI arg_cong [where f = "nth src"] simp: buf_simps)

lemma ihl_bound: "ihl p \<le> 60"
proof -
  have "unat (p ! 0 AND 0x0f) = unat (p ! 0) mod 16"
    using unat_take_bit [of 4 "p ! 0"] by (simp add: take_bit_eq_mask mask_eq_exp_minus_1)
  then have "unat (p ! 0 AND 0x0f) < 16" by simp
  then show ?thesis by (simp add: ihl_def)
qed

text \<open>What the parser reads: bytes outside these positions do not matter to it.\<close>

lemma ipv6_chain_cong:
  assumes "length q = length p" "\<And>i. 40 \<le> i \<Longrightarrow> i < length p \<Longrightarrow> q ! i = p ! i" "40 \<le> offset"
  shows "ipv6_chain n q nxt offset = ipv6_chain n p nxt offset"
  using assms(3)
proof (induction n arbitrary: nxt offset)
  case (Suc n)
  have "q ! i = p ! i" if "offset + 8 \<le> length p" "offset \<le> i" "i < offset + 8" for i
    using assms(2) [of i] that Suc.prems by simp
  then show ?case
    using Suc.IH [of "offset + _"] Suc.prems
    by (auto simp: assms(1) Let_def)
qed simp

lemma parse_packet_cong:
  assumes "length q = length p" "q ! 0 = p ! 0"
    and "ver p = 4 \<Longrightarrow> (\<And>i. i < 20 \<Longrightarrow> i \<notin> {8, 10, 11} \<Longrightarrow> q ! i = p ! i)"
    and "ver p \<noteq> 4 \<Longrightarrow> (\<And>i. i < length p \<Longrightarrow> i \<noteq> 7 \<Longrightarrow> q ! i = p ! i)"
  shows "parse_packet q = parse_packet p"
proof (cases "ver p = 4")
  case True
  note eq = assms(3) [OF True]
  have "sub_slice 12 16 q = sub_slice 12 16 p" "sub_slice 16 20 q = sub_slice 16 20 p"
    by (rule sub_slice_eqI; use assms(1) eq in auto)+
  then show ?thesis
    using True assms(1,2) eq by (auto simp: parse_packet_def ver_def ihl_def Let_def)
next
  case False
  note eq = assms(4) [OF False]
  have "sub_slice 8 24 q = sub_slice 8 24 p" "sub_slice 24 40 q = sub_slice 24 40 p"
    by (rule sub_slice_eqI; use assms(1) eq in auto)+
  moreover have "ipv6_final_protocol q = ipv6_final_protocol p" if "40 \<le> length p"
    using ipv6_chain_cong [of q p 40 8] assms(1) eq that by (simp add: ipv6_final_protocol_def)
  ultimately show ?thesis
    using False assms(1,2) eq by (auto simp: parse_packet_def ver_def ihl_def Let_def)
qed

definition hop_index :: "bytes \<Rightarrow> nat" where
  "hop_index p = (if ver p = 4 then 8 else 7)"

lemma parse_packet_lengths:
  assumes "parse_packet p = Ok info"
  shows "ver p = 4 \<and> 20 \<le> ihl p \<and> ihl p \<le> length p \<or> ver p = 6 \<and> 40 \<le> length p"
    and "length p \<le> 65575"
  using assms unat_u16_less [of "from_be16 (p ! 2) (p ! 3)"] unat_u16_less [of "from_be16 (p ! 4) (p ! 5)"]
  by (auto simp: parse_packet_def Let_def simp del: unat_u16_less split: if_splits)

lemma decrement_ttl_hop:
  assumes "parse_packet p = Ok info"
  shows "if p ! hop_index p \<le> 1 then decrement_ttl p = Err TtlExpired
    else \<exists>q. decrement_ttl p = Ok q \<and> length q = length p \<and> parse_packet q = Ok info \<and>
      q ! hop_index p = p ! hop_index p - 1 \<and>
      (\<forall>i < length p. i \<noteq> hop_index p \<longrightarrow> \<not> (ver p = 4 \<and> i \<in> {10, 11}) \<longrightarrow> q ! i = p ! i) \<and>
      (ver p = 4 \<longrightarrow> ipv4_checksum (take (ihl q) q) = 0)"
proof (cases "ver p = 4")
  case True
  let ?r = "p[8 := p ! 8 - 1, 10 := 0, 11 := 0]"
  have len: "20 \<le> ihl p" "ihl p \<le> length p" using parse_packet_lengths(1) [OF assms] True by auto
  have ihl: "ihl ?r = ihl p" "ihl (p[8 := p ! 8 - 1]) = ihl p" using len by (simp_all add: ihl_def)
  define c where "c = ipv4_checksum (take (ihl p) ?r)"
  define q where "q = write_at 10 (be16 c) ?r"
  have run: "decrement_ttl p = (if p ! 8 \<le> 1 then Err TtlExpired else Ok q)"
    using True len ihl by (auto simp: decrement_ttl_def recompute_ipv4_checksum_def Let_def c_def q_def)
  have nth: "q ! i = ?r ! i" if "i < length p" "i \<notin> {10, 11}" for i
    using that len by (auto simp: q_def nth_write_at)
  have lq: "length q = length p" using len by (simp add: q_def buf_simps)
  have "0 < length p" using len by linarith
  then have q0: "q ! 0 = p ! 0" using nth [of 0] by simp
  have parse: "parse_packet q = parse_packet p"
    by (rule parse_packet_cong) (use lq q0 nth len True in \<open>auto simp: nth_list_update\<close>)
  have "take (ihl q) q = write_at 10 (be16 c) (take (ihl p) ?r)"
    using len q0 by (simp add: q_def take_write_at ihl_def)
  then have "ipv4_checksum (take (ihl q) q) = 0"
    using checksum_verifies [of 10 "take (ihl p) ?r"] len ihl_bound [of p]
    by (simp add: c_def nth_list_update)
  then show ?thesis
    using run lq parse assms nth len True by (auto simp: hop_index_def nth_list_update)
next
  case False
  then have v: "ver p = 6" "40 \<le> length p" using parse_packet_lengths(1) [OF assms] by auto
  let ?q = "p[7 := p ! 7 - 1]"
  have parse: "parse_packet ?q = parse_packet p"
    by (rule parse_packet_cong) (use v in \<open>auto simp: nth_list_update\<close>)
  show ?thesis
    using v parse assms False by (auto simp: hop_index_def decrement_ttl_def nth_list_update)
qed

text \<open>
  C23: one IP hop. On a packet the parser accepts, \<open>decrement_ttl\<close> never panics: it reports an
  expired TTL or hop limit, or lowers exactly that byte by one. Every other byte is unchanged
  except the IPv4 header checksum, which verifies afterwards, and the packet parses to the same
  addresses and protocol.
\<close>

theorem decrement_ttl_one_hop:
  assumes "parse_packet p = Ok info"
  shows "if p ! hop_index p \<le> 1 then decrement_ttl p = Err TtlExpired
    else \<exists>q. decrement_ttl p = Ok q \<and> length q = length p \<and> parse_packet q = Ok info \<and>
      q ! hop_index p = p ! hop_index p - 1 \<and>
      (\<forall>i < length p. i \<noteq> hop_index p \<longrightarrow> \<not> (ver p = 4 \<and> i \<in> {10, 11}) \<longrightarrow> q ! i = p ! i) \<and>
      (ver p = 4 \<longrightarrow> ipv4_checksum (take (ihl q) q) = 0)"
  by (rule decrement_ttl_hop [OF assms])

text \<open>An echo request from 192.0.2.1 to 198.51.100.2.\<close>

definition sample_packet :: bytes where
  "sample_packet = [0x45, 0, 0, 28, 0, 0, 0, 0, 64, 1, 0, 0, 192, 0, 2, 1, 198, 51, 100, 2,
     8, 0, 0, 0, 0, 1, 0, 1]"

lemma parse_sample_packet:
  "parse_packet sample_packet =
     Ok \<lparr>pi_version = 4, pi_src = V4 0xC0000201, pi_dst = V4 0xC6336402, pi_protocol = 1\<rparr>"
  by (simp add: sample_packet_def parse_packet_def ver_def ihl_def sub_slice_def from_be16_def of_octets4_def)

theorem decrement_ttl_one_hop_witness:
  "parse_packet sample_packet =
     Ok \<lparr>pi_version = 4, pi_src = V4 0xC0000201, pi_dst = V4 0xC6336402, pi_protocol = 1\<rparr> \<and>
   (\<exists>q. decrement_ttl sample_packet = Ok q \<and> q ! 8 = 63 \<and> ipv4_checksum (take (ihl q) q) = 0)"
proof -
  have h: "hop_index sample_packet = 8" "sample_packet ! 8 = 64" "ver sample_packet = 4"
    by (simp_all add: hop_index_def sample_packet_def ver_def)
  show ?thesis
    using decrement_ttl_one_hop [OF parse_sample_packet] parse_sample_packet unfolding h by (auto simp: word_le_nat_alt)
qed

end
