(* ===== verification/Icmp.thy ===== *)
theory Icmp
  imports Packet
begin

unbundle bit_operations_syntax

text \<open>
  ICMP error generation, \<open>src/src/forwarding/icmp.rs\<close>, and the echo messages of
  \<open>src/src/forwarding/packet.rs\<close>: both fill a zeroed buffer field by field, and are shown to be
  well-formed packets whose checksums verify.
\<close>

section \<open>Definitions\<close>

datatype icmp_error_kind = TimeExceeded | KNoRoute | AdminProhibited | PacketTooBig u16

record icmp_source =
  is_v4 :: ipv4
  is_v6 :: "ipv6 option"

fun valid_error_target :: "ip_addr \<Rightarrow> bool" where
  "valid_error_target (V4 a) \<longleftrightarrow>
     \<not> is_unspecified4 a \<and> \<not> is_loopback4 a \<and> \<not> is_multicast4 a \<and> \<not> is_broadcast4 a"
| "valid_error_target (V6 a) \<longleftrightarrow> \<not> is_unspecified6 a \<and> \<not> is_loopback6 a \<and> \<not> is_multicast6 a"

text \<open>Type, code and the rest of the ICMP header for each kind.\<close>

fun v4_error_header :: "icmp_error_kind \<Rightarrow> u8 \<times> u8 \<times> bytes" where
  "v4_error_header TimeExceeded = (11, 0, replicate 4 0)"
| "v4_error_header KNoRoute = (3, 0, replicate 4 0)"
| "v4_error_header AdminProhibited = (3, 13, replicate 4 0)"
| "v4_error_header (PacketTooBig mtu) = (3, 4, write_at 2 (be16 mtu) (replicate 4 0))"

fun v6_error_header :: "icmp_error_kind \<Rightarrow> u8 \<times> u8 \<times> bytes" where
  "v6_error_header TimeExceeded = (3, 0, replicate 4 0)"
| "v6_error_header KNoRoute = (1, 0, replicate 4 0)"
| "v6_error_header AdminProhibited = (1, 1, replicate 4 0)"
| "v6_error_header (PacketTooBig mtu) = (2, 0, be32 (ucast mtu))"

definition build_v4_error :: "icmp_error_kind \<Rightarrow> ipv4 \<Rightarrow> bytes \<Rightarrow> bytes option" where
  "build_v4_error kind gateway original =
     (if length original < 20 then None
      else if ihl original < 20 \<or> length original < ihl original then None
      else
        (let orig_src = of_octets4 (sub_slice 12 16 original) in
         if \<not> valid_error_target (V4 orig_src) then None
         else if original ! 9 = 1 \<and> length original > ihl original \<and>
           original ! ihl original \<in> {3, 4, 5, 11, 12} then None
         else
           (let (icmp_type, code, rest_of_header) = v4_error_header kind;
                quoted = take (min (length original) (ihl original + 8)) original;
                icmp_len = 8 + length quoted; total_len = 20 + icmp_len;
                p = replicate total_len 0;
                p = p[0 := 0x45];
                p = write_at 2 (be16 (word_of_nat total_len)) p;
                p = p[8 := 64];
                p = p[9 := 1];
                p = write_at 12 (octets4 gateway) p;
                p = write_at 16 (octets4 orig_src) p;
                p = write_at 10 (be16 (ipv4_checksum (take 20 p))) p;
                p = p[20 := icmp_type];
                p = p[21 := code];
                p = write_at 24 rest_of_header p;
                p = write_at 28 quoted p
            in Some (write_at 22 (be16 (ipv4_checksum (drop 20 p))) p))))"

definition build_v6_error :: "icmp_error_kind \<Rightarrow> ipv6 \<Rightarrow> bytes \<Rightarrow> bytes option" where
  "build_v6_error kind gateway original =
     (if length original < 40 then None
      else
        (let orig_src = of_octets6 (sub_slice 8 24 original) in
         if \<not> valid_error_target (V6 orig_src) then None
         else if original ! 6 = 58 \<and> length original > 40 \<and> original ! 40 < 128 then None
         else
           (let (icmp_type, code, rest_of_header) = v6_error_header kind;
                quoted = take (min (length original) 48) original;
                icmp_len = 8 + length quoted;
                p = replicate (40 + icmp_len) 0;
                p = p[0 := 0x60];
                p = write_at 4 (be16 (word_of_nat icmp_len)) p;
                p = p[6 := 58];
                p = p[7 := 64];
                p = write_at 8 (octets6 gateway) p;
                p = write_at 24 (octets6 orig_src) p;
                p = p[40 := icmp_type];
                p = p[41 := code];
                p = write_at 44 rest_of_header p;
                p = write_at 48 quoted p
            in Some (write_at 42 (be16 (icmpv6_checksum gateway orig_src (drop 40 p))) p))))"

definition build_icmp_error :: "icmp_error_kind \<Rightarrow> icmp_source \<Rightarrow> bytes \<Rightarrow> bytes option" where
  "build_icmp_error kind source original =
     (if original = [] then None
      else if ver original = 4 then build_v4_error kind (is_v4 source) original
      else if ver original = 6 then
        (case is_v6 source of None \<Rightarrow> None | Some gateway \<Rightarrow> build_v6_error kind gateway original)
      else None)"

section \<open>The shape of the messages\<close>

text \<open>An ICMP message in an option-free IPv4 packet, and an ICMPv6 message in an IPv6 packet.\<close>

definition header4 :: "nat \<Rightarrow> u8 \<Rightarrow> bytes \<Rightarrow> ipv4 \<Rightarrow> ipv4 \<Rightarrow> bytes" where
  "header4 total_len ttl checksum src dst =
     [0x45, 0] @ be16 (word_of_nat total_len) @ replicate 4 0 @ [ttl, 1] @ checksum @ octets4 src @ octets4 dst"

definition frame4 :: "u8 \<Rightarrow> ipv4 \<Rightarrow> ipv4 \<Rightarrow> u8 \<Rightarrow> u8 \<Rightarrow> bytes \<Rightarrow> bytes \<Rightarrow> bytes" where
  "frame4 ttl src dst ty code rst body =
     (let total_len = 28 + length body; h = header4 total_len ttl (replicate 2 0) src dst;
          m = [ty, code] @ replicate 2 0 @ rst @ body in
      header4 total_len ttl (be16 (ipv4_checksum h)) src dst @ [ty, code] @ be16 (ipv4_checksum m) @ rst @ body)"

definition frame6 :: "u8 \<Rightarrow> ipv6 \<Rightarrow> ipv6 \<Rightarrow> u8 \<Rightarrow> u8 \<Rightarrow> bytes \<Rightarrow> bytes \<Rightarrow> bytes" where
  "frame6 hop src dst ty code rst body =
     (let m = [ty, code] @ replicate 2 0 @ rst @ body in
      [0x60] @ replicate 3 0 @ be16 (word_of_nat (8 + length body)) @ [58, hop] @ octets6 src @ octets6 dst @
      [ty, code] @ be16 (icmpv6_checksum src dst m) @ rst @ body)"

lemma write_at_blocks:
  "length xs \<le> k \<Longrightarrow> write_at k src (xs @ ys) = xs @ write_at (k - length xs) src ys"
  "0 < k \<Longrightarrow> write_at k src (x # ys) = x # write_at (k - 1) src ys"
  "length xs = length src \<Longrightarrow> write_at 0 src (xs @ ys) = src @ ys"
  "length xs = length src \<Longrightarrow> write_at 0 src xs = src"
  by (cases k; simp add: write_at_def)+

lemma zeros4:
  "replicate (28 + n) 0 = 0 # 0 # replicate 2 0 @ replicate 4 0 @ 0 # 0 # replicate 2 0 @
     replicate 4 0 @ replicate 4 0 @ 0 # 0 # replicate 2 0 @ replicate 4 0 @ replicate n (0 :: u8)"
  by (rule nth_equalityI) (auto simp: nth_append nth_Cons split: nat.split)

lemma zeros6:
  "replicate (48 + n) 0 = 0 # replicate 3 0 @ replicate 2 0 @ 0 # 0 # replicate 16 0 @ replicate 16 0 @
     0 # 0 # replicate 2 0 @ replicate 4 0 @ replicate n (0 :: u8)"
  by (rule nth_equalityI) (auto simp: nth_append nth_Cons split: nat.split)

lemma write_half:
  "length src = 2 \<Longrightarrow> write_at 0 src (replicate 4 0 @ ys) = src @ replicate 2 0 @ (ys :: bytes)"
proof -
  assume "length src = 2"
  moreover have "replicate 4 0 @ ys = replicate 2 0 @ replicate 2 0 @ ys"
    by (simp flip: replicate_add append_assoc)
  ultimately show ?thesis by (simp add: write_at_blocks)
qed

lemmas fill_simps = Let_def write_at_blocks write_half zeros4 zeros6 list_update_append

lemma echo4_frame:
  "build_ipv4_icmp_echo src dst reply ident sequence payload ttl =
     frame4 ttl src dst (if reply then 0 else 8) 0 (be16 ident @ be16 sequence) payload"
  by (simp add: build_ipv4_icmp_echo_def frame4_def header4_def fill_simps)

lemma echo6_frame:
  "build_ipv6_icmpv6_echo src dst reply ident sequence payload hop =
     frame6 hop src dst (if reply then 129 else 128) 0 (be16 ident @ be16 sequence) payload"
  by (simp add: build_ipv6_icmpv6_echo_def frame6_def fill_simps)

lemma take_min_length: "take (min (length xs) n) xs = take n xs"
  by (simp add: min_def)

lemma length_v4_header: "v4_error_header kind = (t, c, r) \<Longrightarrow> length r = 4"
  by (cases kind) (auto simp: write_at_def)

lemma length_v6_header: "v6_error_header kind = (t, c, r) \<Longrightarrow> length r = 4"
  by (cases kind) auto

lemma v4_error_frame:
  assumes "build_v4_error kind gateway original = Some p" "v4_error_header kind = (t, c, r)"
  shows "p = frame4 64 gateway (of_octets4 (sub_slice 12 16 original)) t c r
    (take (ihl original + 8) original)"
proof -
  have r: "length r = 4" by (rule length_v4_header [OF assms(2)])
  define q where "q = take (ihl original + 8) original"
  show ?thesis
    using assms(1) r unfolding build_v4_error_def Let_def assms(2) take_min_length q_def [symmetric]
    by (auto simp: frame4_def header4_def fill_simps split: if_splits)
qed

lemma v6_error_frame:
  assumes "build_v6_error kind gateway original = Some p" "v6_error_header kind = (t, c, r)"
  shows "p = frame6 64 gateway (of_octets6 (sub_slice 8 24 original)) t c r (take 48 original)"
proof -
  have r: "length r = 4" by (rule length_v6_header [OF assms(2)])
  define q where "q = take 48 original"
  show ?thesis
    using assms(1) r unfolding build_v6_error_def Let_def assms(2) take_min_length q_def [symmetric]
    by (auto simp: frame6_def fill_simps split: if_splits)
qed

section \<open>Well-formed messages\<close>

lemma frame4_parse:
  assumes "28 + length body < 65536" "length rst = 4"
  shows "parse_packet (frame4 ttl src dst ty code rst body) =
    Ok \<lparr>pi_version = 4, pi_src = V4 src, pi_dst = V4 dst, pi_protocol = 1\<rparr>"
proof -
  obtain a b where ab: "be16 (word_of_nat (28 + length body)) = [a, b]"
      "unat a * 256 + unat b = unat (word_of_nat (28 + length body) :: u16)"
    using be16_bytes by blast
  then have total_len: "unat (from_be16 a b) = 28 + length body"
    using assms unat_word_of_nat [of "28 + length body", where 'a = 16] by (simp add: unat_from_be16)
  show ?thesis
    using assms(2) total_len unfolding frame4_def header4_def Let_def ab(1)
    by (simp add: parse_packet_def ver_def ihl_def sub_slice_def nth_append)
qed

lemma frame4_checksums:
  assumes "28 + length body < 65536" "length rst = 4"
  shows "ipv4_checksum (take 20 (frame4 ttl src dst ty code rst body)) = 0"
    and "ipv4_checksum (drop 20 (frame4 ttl src dst ty code rst body)) = 0"
proof -
  let ?n = "28 + length body"
  let ?h = "header4 ?n ttl (replicate 2 0) src dst"
  let ?m = "[ty, code] @ replicate 2 0 @ rst @ body"
  have lh: "length (header4 k ttl c src dst) = 18 + length c" for k c by (simp add: header4_def)
  have h: "header4 ?n ttl (be16 c) src dst = write_at 10 (be16 c) ?h" for c
    by (simp add: header4_def write_at_blocks)
  have "take 20 (frame4 ttl src dst ty code rst body) = write_at 10 (be16 (ipv4_checksum ?h)) ?h"
    using lh by (simp add: frame4_def Let_def flip: h)
  moreover have "?h ! 10 = 0" "?h ! 11 = 0" by (simp_all add: header4_def nth_append nth_Cons')
  ultimately show "ipv4_checksum (take 20 (frame4 ttl src dst ty code rst body)) = 0"
    using checksum_verifies [of 10 ?h] lh by simp
  have "drop 20 (frame4 ttl src dst ty code rst body) = write_at 2 (be16 (ipv4_checksum ?m)) ?m"
    using lh by (simp add: frame4_def Let_def write_at_blocks)
  then show "ipv4_checksum (drop 20 (frame4 ttl src dst ty code rst body)) = 0"
    using checksum_verifies [of 2 ?m] assms by (simp add: nth_append nth_Cons')
qed

lemma ipv6_upper_layer:
  "p ! 6 \<notin> {0, 43, 44, 51, 60} \<Longrightarrow> ipv6_final_protocol p = Ok (p ! 6)"
  using ipv6_chain.simps(2) [of 7 p "p ! 6" 40] by (simp add: ipv6_final_protocol_def)

lemma frame6_parse:
  assumes "8 + length body < 65536" "length rst = 4"
  shows "parse_packet (frame6 hop src dst ty code rst body) =
    Ok \<lparr>pi_version = 6, pi_src = V6 src, pi_dst = V6 dst, pi_protocol = 58\<rparr>"
proof -
  let ?f = "frame6 hop src dst ty code rst body"
  obtain a b where ab: "be16 (word_of_nat (8 + length body)) = [a, b]"
      "unat a * 256 + unat b = unat (word_of_nat (8 + length body) :: u16)"
    using be16_bytes by blast
  then have total_len: "unat (from_be16 a b) = 8 + length body"
    using assms unat_word_of_nat [of "8 + length body", where 'a = 16] by (simp add: unat_from_be16)
  have nth: "?f ! 0 = 0x60" "?f ! 4 = a" "?f ! 5 = b" "?f ! 6 = 58" "length ?f = 48 + length body"
    using assms(2) by (simp_all add: frame6_def Let_def ab(1) nth_append del: of_nat_add)
  have "sub_slice 8 24 ?f = octets6 src" "sub_slice 24 40 ?f = octets6 dst"
    by (simp_all add: frame6_def Let_def ab(1) sub_slice_def del: of_nat_add)
  then show ?thesis
    using nth total_len ipv6_upper_layer [of ?f]
    by (auto simp: parse_packet_def ver_def simp flip: length_greater_0_conv)
qed

lemma frame6_checksum:
  assumes "8 + length body < 65500" "length rst = 4"
  shows "icmpv6_checksum src dst (drop 40 (frame6 hop src dst ty code rst body)) = 0"
proof -
  let ?m = "[ty, code] @ replicate 2 0 @ rst @ body"
  let ?pseudo = "octets6 src @ octets6 dst @ be32 (word_of_nat (length ?m)) @ [0, 0, 0, 58] @ ?m"
  let ?c = "icmpv6_checksum src dst ?m"
  have "drop 40 (frame6 hop src dst ty code rst body) = [ty, code] @ be16 ?c @ rst @ body"
    by (simp add: frame6_def Let_def)
  then have "icmpv6_checksum src dst (drop 40 (frame6 hop src dst ty code rst body)) =
      ipv4_checksum (write_at 42 (be16 ?c) ?pseudo)"
    by (simp add: icmpv6_checksum_def write_at_blocks)
  also have "\<dots> = 0"
    using checksum_verifies [of 42 ?pseudo] assms
    by (simp add: icmpv6_checksum_def nth_append)
  finally show ?thesis .
qed

section \<open>Properties\<close>

lemma parse_packet_src:
  assumes "parse_packet original = Ok info"
  shows "ver original = 4 \<Longrightarrow> pi_src info = V4 (of_octets4 (sub_slice 12 16 original))"
    and "ver original = 6 \<Longrightarrow> pi_src info = V6 (of_octets6 (sub_slice 8 24 original))"
    and "pi_version info = ver original"
  using assms by (auto simp: parse_packet_def Let_def res_simps split: if_splits)

text \<open>
  C35: an ICMP error is a well-formed packet of at most 96 bytes from the proxy's address of the
  family to the sender of the packet it reports, and only to a unicast sender. All its checksums
  verify, it carries the type and code of its kind and quotes the beginning of the original.
\<close>

theorem icmp_error_wf:
  assumes "parse_packet original = Ok info" "build_icmp_error kind source original = Some p"
  shows "length p \<le> 96 \<and> valid_error_target (pi_src info) \<and>
    (ver original = 4 \<longrightarrow> parse_packet p =
        Ok \<lparr>pi_version = 4, pi_src = V4 (is_v4 source), pi_dst = pi_src info, pi_protocol = 1\<rparr> \<and>
      ipv4_checksum (take 20 p) = 0 \<and> ipv4_checksum (drop 20 p) = 0 \<and>
      (p ! 20, p ! 21, sub_slice 24 28 p) = v4_error_header kind \<and>
      drop 28 p = take (ihl original + 8) original) \<and>
    (ver original = 6 \<longrightarrow> (\<exists>g d. is_v6 source = Some g \<and> pi_src info = V6 d \<and> parse_packet p =
        Ok \<lparr>pi_version = 6, pi_src = V6 g, pi_dst = V6 d, pi_protocol = 58\<rparr> \<and>
      icmpv6_checksum g d (drop 40 p) = 0 \<and>
      (p ! 40, p ! 41, sub_slice 44 48 p) = v6_error_header kind \<and> drop 48 p = take 48 original))"
proof (cases "ver original = 4")
  case True
  then have b: "build_v4_error kind (is_v4 source) original = Some p"
    using assms(2) by (auto simp: build_icmp_error_def split: if_splits)
  obtain t c r where h: "v4_error_header kind = (t, c, r)" by (metis prod_cases3)
  note p = v4_error_frame [OF b h]
  have r: "length r = 4" by (rule length_v4_header [OF h])
  have len: "length (take (ihl original + 8) original) \<le> 68" using ihl_bound [of original] by simp
  then have small: "28 + length (take (ihl original + 8) original) < 65536" by linarith
  have "valid_error_target (pi_src info)"
    using b parse_packet_src(1) [OF assms(1) True]
    by (auto simp: build_v4_error_def Let_def split: if_splits)
  moreover have "length p \<le> 96" using p len r by (simp add: frame4_def header4_def Let_def)
  moreover have "(p ! 20, p ! 21, sub_slice 24 28 p) = (t, c, r) \<and> drop 28 p = take (ihl original + 8) original"
    using r unfolding p by (simp add: frame4_def header4_def Let_def sub_slice_def nth_append)
  ultimately show ?thesis
    using frame4_parse [OF small r] frame4_checksums [OF small r] parse_packet_src(1) [OF assms(1) True]
      p h True by simp
next
  case False
  then have v: "ver original = 6" using parse_packet_lengths(1) [OF assms(1)] by auto
  then obtain g where g: "is_v6 source = Some g" and b: "build_v6_error kind g original = Some p"
    using assms(2) by (auto simp: build_icmp_error_def split: if_splits option.splits)
  obtain t c r where h: "v6_error_header kind = (t, c, r)" by (metis prod_cases3)
  note p = v6_error_frame [OF b h]
  have r: "length r = 4" by (rule length_v6_header [OF h])
  have small: "8 + length (take 48 original) < 65500" by simp
  have "valid_error_target (pi_src info)"
    using b parse_packet_src(2) [OF assms(1) v]
    by (auto simp: build_v6_error_def Let_def split: if_splits)
  moreover have "length p \<le> 96" using p r by (simp add: frame6_def Let_def)
  moreover have "(p ! 40, p ! 41, sub_slice 44 48 p) = (t, c, r) \<and> drop 48 p = take 48 original"
    using r unfolding p by (simp add: frame6_def Let_def sub_slice_def nth_append)
  ultimately show ?thesis
    using frame6_parse [of "take 48 original" r] frame6_checksum [OF small r]
      parse_packet_src(2) [OF assms(1) v] p h v g r by simp
qed

definition sample_source :: icmp_source where
  "sample_source = \<lparr>is_v4 = 0x0A640001, is_v6 = None\<rparr>"

theorem icmp_error_wf_witness:
  "\<exists>p. build_icmp_error TimeExceeded sample_source sample_packet = Some p \<and>
     parse_packet p = Ok \<lparr>pi_version = 4, pi_src = V4 0x0A640001, pi_dst = V4 0xC0000201, pi_protocol = 1\<rparr> \<and>
     ipv4_checksum (take 20 p) = 0 \<and> ipv4_checksum (drop 20 p) = 0"
proof -
  have v: "ver sample_packet = 4" by (simp add: sample_packet_def ver_def)
  have "build_icmp_error TimeExceeded sample_source sample_packet \<noteq> None"
    by (simp add: build_icmp_error_def build_v4_error_def sample_packet_def ver_def ihl_def Let_def
      sub_slice_def of_octets4_def is_unspecified4_def is_loopback4_def is_multicast4_def is_broadcast4_def)
  then obtain p where p: "build_icmp_error TimeExceeded sample_source sample_packet = Some p" by blast
  show ?thesis
    using icmp_error_wf [OF parse_sample_packet p] p v by (auto simp: sample_source_def)
qed

text \<open>
  The echo messages the clients build are well-formed packets with the given addresses, whose
  checksums verify, for every payload the 16-bit length field can describe.
\<close>

lemma echo_wf:
  assumes "length payload < 65492"
  shows "parse_packet (build_ipv4_icmp_echo s4 d4 reply ident sequence payload ttl) =
      Ok \<lparr>pi_version = 4, pi_src = V4 s4, pi_dst = V4 d4, pi_protocol = 1\<rparr> \<and>
    ipv4_checksum (take 20 (build_ipv4_icmp_echo s4 d4 reply ident sequence payload ttl)) = 0 \<and>
    ipv4_checksum (drop 20 (build_ipv4_icmp_echo s4 d4 reply ident sequence payload ttl)) = 0 \<and>
    parse_packet (build_ipv6_icmpv6_echo s6 d6 reply ident sequence payload ttl) =
      Ok \<lparr>pi_version = 6, pi_src = V6 s6, pi_dst = V6 d6, pi_protocol = 58\<rparr> \<and>
    icmpv6_checksum s6 d6 (drop 40 (build_ipv6_icmpv6_echo s6 d6 reply ident sequence payload ttl)) = 0"
  using assms by (simp add: echo4_frame echo6_frame frame4_parse frame4_checksums frame6_parse frame6_checksum)

lemma echo_wf_witness:
  "parse_packet (build_ipv4_icmp_echo 0xC0000201 0xC6336402 False 7 1 [1, 2, 3] 64) =
     Ok \<lparr>pi_version = 4, pi_src = V4 0xC0000201, pi_dst = V4 0xC6336402, pi_protocol = 1\<rparr>"
  using echo_wf [of "[1, 2, 3]"] by simp

text \<open>
  The check that no ICMPv6 error is answered with another looks only at the first Next Header: an
  error behind a Hop-by-Hop header is not recognised although the parser reports it as ICMPv6.
\<close>

definition hidden_error :: bytes where
  "hidden_error =
    [96, 0, 0, 0, 0, 16, 0, 64, 32, 1, 13, 184, 0, 0, 0, 0, 0, 0, 0, 0, 0, 0, 0, 1, 32, 1, 13,
     184, 0, 0, 0, 0, 0, 0, 0, 0, 0, 0, 0, 2, 58, 0, 1, 4, 0, 0, 0, 0, 1, 0, 0, 0, 0, 0, 0, 0]"

lemma hidden_error_answered:
  "\<exists>info. parse_packet hidden_error = Ok info \<and> pi_protocol info = 58 \<and> hidden_error ! 48 = 1 \<and>
     build_v6_error KNoRoute 0x20010db8000000000000000000000003 hidden_error \<noteq> None"
proof -
  have c: "ipv6_chain (Suc (Suc n)) hidden_error 0 40 = Ok 58" for n
    by (simp add: hidden_error_def)
  have "ipv6_final_protocol hidden_error = Ok 58"
    using c [of 6] by (simp add: ipv6_final_protocol_def hidden_error_def)
  then have "\<exists>info. parse_packet hidden_error = Ok info \<and> pi_protocol info = 58"
    by (simp add: parse_packet_def ver_def from_be16_def hidden_error_def)
  moreover have "build_v6_error KNoRoute 0x20010db8000000000000000000000003 hidden_error \<noteq> None"
    by (simp add: build_v6_error_def hidden_error_def sub_slice_def Let_def of_octets6_def
      is_unspecified6_def is_loopback6_def is_multicast6_def)
  ultimately show ?thesis by (auto simp: hidden_error_def)
qed

end
