(* ===== verification/Router.thy ===== *)
theory Router
  imports Capsule_Ranges Address_Pool Ipnet_Reference
begin

text \<open>
  The route table, \<open>src/src/forwarding/router.rs\<close>: assigned client addresses as a map, prefix
  routes by longest-prefix match, and the conversion of a client's advertised ranges into routes
  with its two safety rules.
\<close>

section \<open>Definitions\<close>

record route_entry =
  re_prefix :: ip_net
  re_ip_protocol :: u8
  re_session_id :: session_id

record route_table =
  rt_routes :: "route_entry list"
  rt_client_addrs :: "ip_addr \<rightharpoonup> session_id"

definition rt_new :: route_table where
  "rt_new = \<lparr>rt_routes = [], rt_client_addrs = Map.empty\<rparr>"

definition insert_client_addr :: "ip_addr \<Rightarrow> session_id \<Rightarrow> route_table \<Rightarrow> route_table" where
  "insert_client_addr addr session t = t\<lparr>rt_client_addrs := (rt_client_addrs t)(addr \<mapsto> session)\<rparr>"

definition insert_route :: "route_entry \<Rightarrow> route_table \<Rightarrow> route_table" where
  "insert_route entry t = t\<lparr>rt_routes := rt_routes t @ [entry]\<rparr>"

definition replace_session_routes ::
    "session_id \<Rightarrow> route_entry list \<Rightarrow> route_table \<Rightarrow> route_table" where
  "replace_session_routes session entries t =
     t\<lparr>rt_routes := filter (\<lambda>r. re_session_id r \<noteq> session) (rt_routes t) @ entries\<rparr>"

definition remove_session :: "session_id \<Rightarrow> route_table \<Rightarrow> route_table" where
  "remove_session session t =
     t\<lparr>rt_client_addrs := (\<lambda>a. if rt_client_addrs t a = Some session then None else rt_client_addrs t a),
       rt_routes := filter (\<lambda>r. re_session_id r \<noteq> session) (rt_routes t)\<rparr>"

text \<open>\<open>Iterator::max_by_key\<close>: the last element among those with the greatest key.\<close>

fun max_by_key :: "('a \<Rightarrow> 'k::linorder) \<Rightarrow> 'a list \<Rightarrow> 'a option" where
  "max_by_key f [] = None"
| "max_by_key f (x # xs) =
     (case max_by_key f xs of None \<Rightarrow> Some x | Some y \<Rightarrow> if f x \<le> f y then Some y else Some x)"

definition route_matches :: "ipnet_api \<Rightarrow> ip_addr \<Rightarrow> u8 \<Rightarrow> route_entry \<Rightarrow> bool" where
  "route_matches api dst proto r \<longleftrightarrow>
     net_contains api (re_prefix r) dst \<and>
     (re_ip_protocol r = 0 \<or> re_ip_protocol r = proto \<or> proto = (if is_ipv4 dst then 1 else 58))"

definition lookup :: "ipnet_api \<Rightarrow> route_table \<Rightarrow> ip_addr \<Rightarrow> u8 \<Rightarrow> session_id option" where
  "lookup api t dst proto = (case rt_client_addrs t dst of
      Some session \<Rightarrow> Some session
    | None \<Rightarrow> map_option re_session_id
        (max_by_key (\<lambda>r. net_prefix_len (re_prefix r)) (filter (route_matches api dst proto) (rt_routes t))))"

definition MAX_CLIENT_ROUTE_PREFIXES :: nat where
  "MAX_CLIENT_ROUTE_PREFIXES = 128"

definition overlaps :: "ipnet_api \<Rightarrow> ip_net \<Rightarrow> ip_net \<Rightarrow> bool" where
  "overlaps api a b \<longleftrightarrow> net_contains api a (net_network api b) \<or> net_contains api b (net_network api a)"

text \<open>The prefixes covering a range; \<open>None\<close> for a malformed one.\<close>

definition range_prefixes :: "ipnet_api \<Rightarrow> ip_address_range \<Rightarrow> ip_net list option" where
  "range_prefixes api rng = (case (ir_start_ip rng, ir_end_ip rng) of
      (V4 start, V4 stop) \<Rightarrow>
        if start \<le> stop then Some (List.map NetV4 (v4_subnets api start stop)) else None
    | (V6 start, V6 stop) \<Rightarrow>
        if start \<le> stop then Some (List.map NetV6 (v6_subnets api start stop)) else None
    | _ \<Rightarrow> None)"

text \<open>The innermost loop; the flag says that the cap ended the whole function.\<close>

fun push_entries ::
    "session_id \<Rightarrow> u8 \<Rightarrow> ip_net list \<Rightarrow> route_entry list \<Rightarrow> route_entry list \<times> bool" where
  "push_entries session proto [] entries = (entries, False)"
| "push_entries session proto (prefix # prefixes) entries =
     (if length entries \<ge> MAX_CLIENT_ROUTE_PREFIXES then (entries, True)
      else push_entries session proto prefixes
        (entries @ [\<lparr>re_prefix = prefix, re_ip_protocol = proto, re_session_id = session\<rparr>]))"

fun ranges_loop ::
    "ipnet_api \<Rightarrow> session_id \<Rightarrow> ip_net list \<Rightarrow> ip_address_range list \<Rightarrow> route_entry list \<Rightarrow> route_entry list" where
  "ranges_loop api session deny [] entries = entries"
| "ranges_loop api session deny (rng # ranges) entries = (case range_prefixes api rng of
      None \<Rightarrow> ranges_loop api session deny ranges entries
    | Some prefixes \<Rightarrow>
        if list_ex (\<lambda>prefix. list_ex (\<lambda>d. overlaps api d prefix) deny) prefixes
        then ranges_loop api session deny ranges entries
        else (case push_entries session (ir_ip_protocol rng) prefixes entries of
            (entries, True) \<Rightarrow> entries
          | (entries, False) \<Rightarrow> ranges_loop api session deny ranges entries))"

definition entries_from_client_ranges ::
    "ipnet_api \<Rightarrow> session_id \<Rightarrow> ip_address_range list \<Rightarrow> ip_net list \<Rightarrow> route_entry list" where
  "entries_from_client_ranges api session ranges deny = ranges_loop api session deny ranges []"

section \<open>Lookup\<close>

lemma max_by_key_None [simp]: "max_by_key f xs = None \<longleftrightarrow> xs = []"
  by (cases xs) (auto split: option.splits)

lemma max_by_key_Some:
  "max_by_key f xs = Some x \<Longrightarrow> x \<in> set xs \<and> (\<forall>y \<in> set xs. f y \<le> f x)"
proof (induction xs arbitrary: x)
  case (Cons a xs)
  then show ?case by (cases "max_by_key f xs") (fastforce split: if_splits)+
qed simp

lemma max_by_key_filter:
  "max_by_key f xs = Some x \<Longrightarrow> P x \<Longrightarrow> max_by_key f (filter P xs) = Some x"
proof (induction xs arbitrary: x)
  case (Cons a xs)
  show ?case
  proof (cases "max_by_key f xs")
    case None
    then show ?thesis using Cons.prems by auto
  next
    case (Some y)
    show ?thesis
    proof (cases "f a \<le> f y")
      case True
      then show ?thesis using Some Cons by auto
    next
      case False
      then have x: "x = a" using Some Cons.prems by simp
      have "f z < f a" if "max_by_key f (filter P xs) = Some z" for z
        using max_by_key_Some [OF that] max_by_key_Some [OF Some] False by fastforce
      then show ?thesis using x Cons.prems(2) by (fastforce split: option.split)
    qed
  qed
qed simp

text \<open>
  C34: longest-prefix match. An assigned client address wins; otherwise the packet goes to the
  session of a matching route that no other matching route is more specific than, and there is
  no session only when no route matches.
\<close>

theorem lookup_longest_prefix:
  "case rt_client_addrs t dst of Some s \<Rightarrow> lookup api t dst proto = Some s
   | None \<Rightarrow> (case lookup api t dst proto of
       None \<Rightarrow> \<not> list_ex (route_matches api dst proto) (rt_routes t)
     | Some s \<Rightarrow> \<exists>r. r \<in> set (rt_routes t) \<and> route_matches api dst proto r \<and> re_session_id r = s \<and>
         list_all (\<lambda>r'. net_prefix_len (re_prefix r') \<le> net_prefix_len (re_prefix r))
           (filter (route_matches api dst proto) (rt_routes t)))"
proof -
  let ?m = "max_by_key (\<lambda>r. net_prefix_len (re_prefix r)) (filter (route_matches api dst proto) (rt_routes t))"
  show ?thesis
  proof (cases ?m)
    case None
    then show ?thesis by (auto simp: lookup_def list_ex_iff filter_empty_conv split: option.split)
  next
    case (Some r)
    then show ?thesis
      using max_by_key_Some [OF Some] by (auto simp: lookup_def list_all_iff split: option.split)
  qed
qed

text \<open>
  Teardown is complete and local. After \<open>remove_session\<close> no packet is routed to the session,
  every packet that was routed to another session still is, and none that had no route gains one.
\<close>

theorem remove_session_local:
  "lookup api (remove_session s t) dst proto \<noteq> Some s \<and>
   (case lookup api t dst proto of
      Some s' \<Rightarrow> s' = s \<or> lookup api (remove_session s t) dst proto = Some s'
    | None \<Rightarrow> lookup api (remove_session s t) dst proto = None)"
proof -
  let ?f = "\<lambda>r. net_prefix_len (re_prefix r)"
  let ?m = "\<lambda>rs. max_by_key ?f (filter (route_matches api dst proto) rs)"
  have comm: "?m (filter (\<lambda>r. re_session_id r \<noteq> s) (rt_routes t)) =
      max_by_key ?f (filter (\<lambda>r. re_session_id r \<noteq> s) (filter (route_matches api dst proto) (rt_routes t)))"
    by (simp add: conj_commute)
  have gone: "lookup api (remove_session s t) dst proto \<noteq> Some s"
  proof
    assume a: "lookup api (remove_session s t) dst proto = Some s"
    then obtain r where "?m (filter (\<lambda>r. re_session_id r \<noteq> s) (rt_routes t)) = Some r" "re_session_id r = s"
      by (auto simp: lookup_def remove_session_def split: option.splits if_splits)
    then show False using max_by_key_Some by fastforce
  qed
  have keep: "lookup api (remove_session s t) dst proto = Some s'"
    if l: "lookup api t dst proto = Some s'" "s' \<noteq> s" for s'
  proof (cases "rt_client_addrs t dst")
    case (Some x)
    then show ?thesis using l by (simp add: lookup_def remove_session_def)
  next
    case None
    then obtain r where r: "?m (rt_routes t) = Some r" "re_session_id r = s'"
      using l by (auto simp: lookup_def)
    then have "?m (filter (\<lambda>r. re_session_id r \<noteq> s) (rt_routes t)) = Some r"
      using max_by_key_filter [OF r(1), of "\<lambda>r. re_session_id r \<noteq> s"] l(2) unfolding comm by simp
    then show ?thesis using None r by (simp add: lookup_def remove_session_def)
  qed
  have none: "lookup api (remove_session s t) dst proto = None" if "lookup api t dst proto = None"
    using that by (auto simp: lookup_def remove_session_def filter_empty_conv split: option.splits)
  show ?thesis using gone keep none by (auto split: option.split)
qed

section \<open>Client routes\<close>

lemma push_entries_eq:
  "push_entries s proto ps es =
     (let room = MAX_CLIENT_ROUTE_PREFIXES - length es;
          new = List.map (\<lambda>p. \<lparr>re_prefix = p, re_ip_protocol = proto, re_session_id = s\<rparr>) ps in
      (es @ take room new, room < length ps))"
proof (induction ps arbitrary: es)
  case (Cons p ps)
  show ?case
  proof (cases "length es \<ge> MAX_CLIENT_ROUTE_PREFIXES")
    case False
    then obtain n where "MAX_CLIENT_ROUTE_PREFIXES - length es = Suc n"
      by (metis Suc_diff_Suc not_le)
    moreover have "MAX_CLIENT_ROUTE_PREFIXES - Suc (length es) = n" using calculation by simp
    ultimately show ?thesis using False Cons.IH by (simp add: Let_def)
  qed (simp add: Let_def)
qed simp

lemma ranges_loop_length: "length es \<le> MAX_CLIENT_ROUTE_PREFIXES \<Longrightarrow>
    length (ranges_loop api s deny rs es) \<le> MAX_CLIENT_ROUTE_PREFIXES"
  by (induction rs arbitrary: es) (auto simp: push_entries_eq Let_def split: option.split prod.split bool.split)

text \<open>An entry of the result comes from an accepted range of the advertisement.\<close>

definition accepted :: "ipnet_api \<Rightarrow> ip_net list \<Rightarrow> ip_address_range \<Rightarrow> ip_net list \<Rightarrow> bool" where
  "accepted api deny g ps \<longleftrightarrow> range_prefixes api g = Some ps \<and>
     (\<forall>p \<in> set ps. \<forall>d \<in> set deny. \<not> overlaps api d p)"

lemma ranges_loop_accept:
  assumes "accepted api deny g ps"
  shows "ranges_loop api s deny (g # rs) es =
    (let (es', full) = push_entries s (ir_ip_protocol g) ps es in
     if full then es' else ranges_loop api s deny rs es')"
  using assms by (auto simp: accepted_def list_ex_iff split: prod.split bool.split)

lemma ranges_loop_reject:
  assumes "\<nexists>ps. accepted api deny g ps"
  shows "ranges_loop api s deny (g # rs) es = ranges_loop api s deny rs es"
  using assms by (auto simp: accepted_def list_ex_iff split: option.split)

declare ranges_loop.simps(2) [simp del]

lemma ranges_loop_sound:
  assumes "r \<in> set (ranges_loop api s deny rs es)"
  shows "r \<in> set es \<or> re_session_id r = s \<and>
    (\<exists>g ps. g \<in> set rs \<and> accepted api deny g ps \<and> re_prefix r \<in> set ps \<and> re_ip_protocol r = ir_ip_protocol g)"
  using assms
proof (induction rs arbitrary: es)
  case (Cons g rs)
  show ?case
  proof (cases "\<exists>ps. accepted api deny g ps")
    case True
    then obtain ps where ps: "accepted api deny g ps" by blast
    obtain es' b where p: "push_entries s (ir_ip_protocol g) ps es = (es', b)" by fastforce
    have "r \<in> set es' \<or> re_session_id r = s \<and>
      (\<exists>g ps. g \<in> set rs \<and> accepted api deny g ps \<and> re_prefix r \<in> set ps \<and> re_ip_protocol r = ir_ip_protocol g)"
      using Cons.prems Cons.IH [of es'] p unfolding ranges_loop_accept [OF ps] by (cases b) simp_all
    moreover have "r \<in> set es \<or> re_session_id r = s \<and> re_prefix r \<in> set ps \<and> re_ip_protocol r = ir_ip_protocol g"
      if "r \<in> set es'"
      using that p by (auto simp: push_entries_eq Let_def take_map dest!: in_set_takeD)
    ultimately show ?thesis using ps by auto
  next
    case False
    then show ?thesis using Cons.prems Cons.IH [of es] ranges_loop_reject [OF False] by auto
  qed
qed simp

lemma ranges_loop_mono: "set es \<subseteq> set (ranges_loop api s deny rs es)"
proof (induction rs arbitrary: es)
  case (Cons g rs)
  show ?case
  proof (cases "\<exists>ps. accepted api deny g ps")
    case True
    then obtain ps where ps: "accepted api deny g ps" by blast
    then show ?thesis
      using Cons.IH [of "fst (push_entries s (ir_ip_protocol g) ps es)"]
      by (auto simp: ranges_loop_accept [OF ps] push_entries_eq Let_def)
  next
    case False
    then show ?thesis using Cons.IH ranges_loop_reject [OF False] by simp
  qed
qed simp

lemma ranges_loop_complete:
  assumes "length (ranges_loop api s deny rs es) < MAX_CLIENT_ROUTE_PREFIXES"
    "g \<in> set rs" "accepted api deny g ps" "p \<in> set ps"
  shows "\<lparr>re_prefix = p, re_ip_protocol = ir_ip_protocol g, re_session_id = s\<rparr> \<in> set (ranges_loop api s deny rs es)"
  using assms
proof (induction rs arbitrary: es)
  case (Cons g' rs)
  show ?case
  proof (cases "\<exists>ps. accepted api deny g' ps")
    case True
    then obtain ps' where ps': "accepted api deny g' ps'" by blast
    obtain es' b where e: "push_entries s (ir_ip_protocol g') ps' es = (es', b)" by fastforce
    have "length es' \<ge> MAX_CLIENT_ROUTE_PREFIXES" if b
      using e that by (auto simp: push_entries_eq Let_def)
    then have run: "ranges_loop api s deny (g' # rs) es = ranges_loop api s deny rs es'" "\<not> b"
      using Cons.prems(1) ranges_loop_accept [OF ps', of s rs es] e by (cases b; simp)+
    show ?thesis
    proof (cases "g = g'")
      case True
      then have "ps' = ps" using ps' Cons.prems(3) by (simp add: accepted_def)
      then have "\<lparr>re_prefix = p, re_ip_protocol = ir_ip_protocol g, re_session_id = s\<rparr> \<in> set es'"
        using Cons.prems(4) run(2) True e by (auto simp: push_entries_eq Let_def)
      then show ?thesis using ranges_loop_mono [of es' api s deny rs] run by auto
    next
      case False
      then show ?thesis using Cons.IH [of es'] Cons.prems run by simp
    qed
  next
    case False
    then have "g \<in> set rs" using Cons.prems by auto
    then show ?thesis using Cons.IH [of es] Cons.prems ranges_loop_reject [OF False] by simp
  qed
qed simp

text \<open>An address of a range, and its relation to the prefixes covering the range.\<close>

definition in_range :: "ip_address_range \<Rightarrow> ip_addr \<Rightarrow> bool" where
  "in_range g a \<longleftrightarrow> is_ipv4 (ir_start_ip g) = is_ipv4 a \<and> is_ipv4 a = is_ipv4 (ir_end_ip g) \<and>
     ir_start_ip g \<le> a \<and> a \<le> ir_end_ip g"

context ipnet
begin

lemma range_prefixes_cover:
  assumes "range_prefixes api g = Some ps"
  shows "(\<exists>p \<in> set ps. net_contains api p a) \<longleftrightarrow> in_range g a"
    and "p \<in> set ps \<Longrightarrow> net_valid p"
proof -
  show "(\<exists>p \<in> set ps. net_contains api p a) \<longleftrightarrow> in_range g a"
  proof (cases "ir_start_ip g")
    case (V4 s)
    then obtain e where e: "ir_end_ip g = V4 e" "s \<le> e" "ps = List.map NetV4 (v4_subnets api s e)"
      using assms by (auto simp: range_prefixes_def split: ip_addr.splits if_splits)
    show ?thesis
    proof (cases a)
      case (V4 b)
      then show ?thesis
        using subnets_v4 [OF e(2), of b] e \<open>ir_start_ip g = V4 s\<close>
        by (simp add: in_range_def contains_v4)
    next
      case (V6 b)
      then show ?thesis
        using e \<open>ir_start_ip g = V4 s\<close> contains_family subnets_valid_v4
        by (fastforce simp: in_range_def)
    qed
  next
    case (V6 s)
    then obtain e where e: "ir_end_ip g = V6 e" "s \<le> e" "ps = List.map NetV6 (v6_subnets api s e)"
      using assms by (auto simp: range_prefixes_def split: ip_addr.splits if_splits)
    show ?thesis
    proof (cases a)
      case (V6 b)
      then show ?thesis
        using subnets_v6 [OF e(2), of b] e \<open>ir_start_ip g = V6 s\<close>
        by (simp add: in_range_def contains_v6)
    next
      case (V4 b)
      then show ?thesis
        using e \<open>ir_start_ip g = V6 s\<close> contains_family subnets_valid_v6
        by (fastforce simp: in_range_def)
    qed
  qed
  show "net_valid p" if "p \<in> set ps"
    using assms that subnets_valid_v4 subnets_valid_v6
    by (auto simp: range_prefixes_def split: ip_addr.splits if_splits)
qed

lemma accepted_iff:
  assumes "list_all net_valid deny" "range_prefixes api g = Some ps"
  shows "accepted api deny g ps \<longleftrightarrow> (\<forall>a d. in_range g a \<longrightarrow> d \<in> set deny \<longrightarrow> \<not> net_contains api d a)"
proof -
  have "overlaps api d p \<longleftrightarrow> (\<exists>a. net_contains api d a \<and> net_contains api p a)"
    if "d \<in> set deny" "p \<in> set ps" for d p
    using overlap_iff [of d p] assms(1) range_prefixes_cover(2) [OF assms(2) that(2)] that(1)
    by (simp add: overlaps_def list_all_iff)
  then show ?thesis
    using range_prefixes_cover(1) [OF assms(2)] assms(2) unfolding accepted_def by blast
qed

lemma entries_sound:
  assumes "list_all net_valid deny" "r \<in> set (entries_from_client_ranges api s ranges deny)"
    "net_contains api (re_prefix r) a"
  shows "re_session_id r = s" "\<not> list_ex (\<lambda>d. net_contains api d a) deny"
    "\<exists>g. g \<in> set ranges \<and> in_range g a \<and> re_ip_protocol r = ir_ip_protocol g"
proof -
  from ranges_loop_sound [OF assms(2) [unfolded entries_from_client_ranges_def]]
  obtain g ps where r: "re_session_id r = s" and g: "g \<in> set ranges" "accepted api deny g ps"
      "re_prefix r \<in> set ps" "re_ip_protocol r = ir_ip_protocol g" by auto
  have ps: "range_prefixes api g = Some ps" using g(2) by (simp add: accepted_def)
  have "in_range g a" using range_prefixes_cover(1) [OF ps, of a] g(3) assms(3) by blast
  then show "re_session_id r = s" "\<not> list_ex (\<lambda>d. net_contains api d a) deny"
      "\<exists>g. g \<in> set ranges \<and> in_range g a \<and> re_ip_protocol r = ir_ip_protocol g"
    using r g accepted_iff [OF assms(1) ps] by (auto simp: list_ex_iff)
qed

end

text \<open>
  C16: routes a client advertises never capture addresses of the denied prefixes, the proxy's
  own pools. Every installed route belongs to the advertising session, only covers addresses of
  an advertised range with that range's protocol, and there are at most 128 of them. Below that
  cap nothing is lost: every address of a range that avoids the denied prefixes is routed.
\<close>

theorem client_routes_safe:
  assumes "ipnet api" "list_all net_valid deny"
  shows "length (entries_from_client_ranges api s ranges deny) \<le> 128 \<and>
    (\<forall>r a. r \<in> set (entries_from_client_ranges api s ranges deny) \<and> net_contains api (re_prefix r) a \<longrightarrow>
      re_session_id r = s \<and> \<not> list_ex (\<lambda>d. net_contains api d a) deny \<and>
      (\<exists>g. g \<in> set ranges \<and> in_range g a \<and> re_ip_protocol r = ir_ip_protocol g)) \<and>
    (length (entries_from_client_ranges api s ranges deny) < 128 \<longrightarrow>
      (\<forall>g a. g \<in> set ranges \<and> in_range g a \<and>
          (\<forall>b. in_range g b \<longrightarrow> \<not> list_ex (\<lambda>d. net_contains api d b) deny) \<longrightarrow>
        (\<exists>r. r \<in> set (entries_from_client_ranges api s ranges deny) \<and>
          net_contains api (re_prefix r) a \<and> re_ip_protocol r = ir_ip_protocol g)))"
proof (intro conjI allI impI; (elim conjE)?)
  show "length (entries_from_client_ranges api s ranges deny) \<le> 128"
    using ranges_loop_length [of "[]" api s deny ranges]
    by (simp add: entries_from_client_ranges_def MAX_CLIENT_ROUTE_PREFIXES_def)
next
  fix r a
  assume "r \<in> set (entries_from_client_ranges api s ranges deny)" "net_contains api (re_prefix r) a"
  from ipnet.entries_sound [OF assms this]
  show "re_session_id r = s" "\<not> list_ex (\<lambda>d. net_contains api d a) deny"
      "\<exists>g. g \<in> set ranges \<and> in_range g a \<and> re_ip_protocol r = ir_ip_protocol g" .
next
  fix g a
  assume small: "length (entries_from_client_ranges api s ranges deny) < 128" and g: "g \<in> set ranges" "in_range g a"
    and free: "\<forall>b. in_range g b \<longrightarrow> \<not> list_ex (\<lambda>d. net_contains api d b) deny"
  have "range_prefixes api g \<noteq> None"
    using g(2) by (cases "ir_start_ip g"; cases "ir_end_ip g"; cases a)
      (auto simp: in_range_def range_prefixes_def)
  then obtain ps where ps: "range_prefixes api g = Some ps" by blast
  have "accepted api deny g ps"
    using free ipnet.accepted_iff [OF assms ps] by (auto simp: list_ex_iff)
  moreover obtain p where p: "p \<in> set ps" "net_contains api p a"
    using ipnet.range_prefixes_cover(1) [OF assms(1) ps, of a] g(2) by blast
  ultimately have "\<lparr>re_prefix = p, re_ip_protocol = ir_ip_protocol g, re_session_id = s\<rparr>
      \<in> set (entries_from_client_ranges api s ranges deny)"
    using ranges_loop_complete [of api s deny ranges "[]"] small g(1)
    by (simp add: entries_from_client_ranges_def MAX_CLIENT_ROUTE_PREFIXES_def)
  then show "\<exists>r. r \<in> set (entries_from_client_ranges api s ranges deny) \<and>
      net_contains api (re_prefix r) a \<and> re_ip_protocol r = ir_ip_protocol g"
    using p(2) by (intro exI conjI) auto
qed

definition sample_ranges :: "ip_address_range list" where
  "sample_ranges = [\<lparr>ir_ip_version = 4, ir_start_ip = V4 0x0A000005, ir_end_ip = V4 0x0A000005, ir_ip_protocol = 0\<rparr>,
     \<lparr>ir_ip_version = 4, ir_start_ip = V4 0xC0A80007, ir_end_ip = V4 0xC0A80007, ir_ip_protocol = 6\<rparr>]"

definition sample_deny :: "ip_net list" where
  "sample_deny = [NetV4 (Ipv4Net 0x0A000000 24)]"

theorem client_routes_safe_witness:
  "ipnet ref_ipnet \<and> list_all net_valid sample_deny \<and>
   (\<exists>r. r \<in> set (entries_from_client_ranges ref_ipnet 9 sample_ranges sample_deny) \<and>
      net_contains ref_ipnet (re_prefix r) (V4 0xC0A80007) \<and> re_ip_protocol r = 6)"
proof -
  have api: "ipnet ref_ipnet" by (rule ref.ipnet_axioms)
  have valid: "list_all net_valid sample_deny" by (simp add: sample_deny_def net_valid_def)
  have one: "ref_v4_subnets a a = [Ipv4Net a 32]" for a
  proof -
    have "\<not> s + 2 ^ Suc k \<le> Suc s" for k s
      using one_le_power [of "2::nat" k] unfolding power_Suc by linarith
    then have "best_block k s s = 0" for k s by (induction k) simp_all
    then show ?thesis by (simp add: ref_v4_subnets_def cover.simps [of _ "unat a"] cover.simps [of _ "Suc (unat a)"])
  qed
  have len: "length (entries_from_client_ranges ref_ipnet 9 sample_ranges sample_deny) < 128"
    by (auto simp: entries_from_client_ranges_def sample_ranges_def ranges_loop.simps range_prefixes_def
      ref_ipnet_def one MAX_CLIENT_ROUTE_PREFIXES_def)
  define g where "g = sample_ranges ! 1"
  have g: "g \<in> set sample_ranges" "in_range g (V4 0xC0A80007)" "ir_ip_protocol g = 6"
    by (simp_all add: g_def sample_ranges_def in_range_def)
  have "\<not> list_ex (\<lambda>d. net_contains ref_ipnet d b) sample_deny" if "in_range g b" for b
    using that by (cases b) (auto simp: g_def sample_ranges_def in_range_def sample_deny_def ref_ipnet_def
      ref_v4_contains_def ref_v4_network_def ref_v4_broadcast_def block_base_def block_top_def)
  then have "\<exists>r. r \<in> set (entries_from_client_ranges ref_ipnet 9 sample_ranges sample_deny) \<and>
      net_contains ref_ipnet (re_prefix r) (V4 0xC0A80007) \<and> re_ip_protocol r = ir_ip_protocol g"
    using client_routes_safe [OF api valid, of 9 sample_ranges] len g by blast
  then show ?thesis using api valid g by simp
qed

end
