(* ===== verification/Limiter.thy ===== *)
theory Limiter
  imports Straw_Prelude
begin

text \<open>
  Per-session token buckets, \<open>src/src/forwarding/limiter.rs\<close>. An \<open>Instant\<close> is the number of
  nanoseconds since some origin; \<open>duration_since\<close> saturates at zero and \<open>as_micros\<close> rounds
  down. Token counts are 64-bit words, the conversion of the refill to \<open>u64\<close> truncates.
\<close>

section \<open>Definitions\<close>

record rate_limits =
  packets_per_sec :: u64
  bytes_per_sec :: u64

definition is_unlimited :: "rate_limits \<Rightarrow> bool" where
  "is_unlimited l \<longleftrightarrow> packets_per_sec l = 0 \<and> bytes_per_sec l = 0"

type_synonym instant = nat

record session_limiter =
  sl_limits :: rate_limits
  packet_tokens :: u64
  byte_tokens :: u64
  last_refill :: instant

definition sl_new :: "rate_limits \<Rightarrow> instant \<Rightarrow> session_limiter" where
  "sl_new limits now = \<lparr>sl_limits = limits, packet_tokens = packets_per_sec limits,
     byte_tokens = bytes_per_sec limits, last_refill = now\<rparr>"

text \<open>The closure \<open>add\<close>: the tokens a rate earns in an elapsed time.\<close>

definition refill_amount :: "u64 \<Rightarrow> nat \<Rightarrow> u64" where
  "refill_amount rate elapsed = word_of_nat (unat rate * (elapsed div 1000) div 1000000)"

definition sl_refill :: "instant \<Rightarrow> session_limiter \<Rightarrow> session_limiter" where
  "sl_refill now s =
     (let elapsed = now - last_refill s in
      if elapsed \<noteq> 0 then
        s\<lparr>packet_tokens := min (packet_tokens s + refill_amount (packets_per_sec (sl_limits s)) elapsed)
             (packets_per_sec (sl_limits s)),
          byte_tokens := min (byte_tokens s + refill_amount (bytes_per_sec (sl_limits s)) elapsed)
             (bytes_per_sec (sl_limits s)),
          last_refill := now\<rparr>
      else s)"

definition try_consume_at :: "u64 \<Rightarrow> instant \<Rightarrow> session_limiter \<Rightarrow> bool \<times> session_limiter" where
  "try_consume_at bytes now s =
     (if is_unlimited (sl_limits s) then (True, s)
      else
        (let s = sl_refill now s;
             pps = packets_per_sec (sl_limits s); bps = bytes_per_sec (sl_limits s);
             packets_ok = (pps = 0 \<or> packet_tokens s \<ge> 1);
             bytes_ok = (bps = 0 \<or> byte_tokens s \<ge> bytes)
         in if \<not> (packets_ok \<and> bytes_ok) then (False, s)
            else (True, s\<lparr>packet_tokens := (if pps > 0 then packet_tokens s - 1 else packet_tokens s),
                          byte_tokens := (if bps > 0 then byte_tokens s - bytes else byte_tokens s)\<rparr>)))"

text \<open>A run of calls: each packet with its length and the time of the call.\<close>

fun admitted :: "(u64 \<times> instant) list \<Rightarrow> session_limiter \<Rightarrow> u64 list \<times> session_limiter" where
  "admitted [] s = ([], s)"
| "admitted ((bytes, now) # calls) s =
     (let (ok, s') = try_consume_at bytes now s; (rest, s'') = admitted calls s'
      in (if ok then bytes # rest else rest, s''))"

section \<open>Tokens\<close>

lemma unat_add_le: "unat (a + b) \<le> unat a + unat (b :: 'a::len word)"
  by (simp add: unat_word_ariths)

lemma unat_refill_le: "unat (refill_amount rate e) \<le> unat rate * (e div 1000) div 1000000"
  by (simp add: refill_amount_def unat_of_nat)

lemma refill_tokens_le:
  "unat (min (t + refill_amount rate e) rate) * 1000000 \<le> unat t * 1000000 + unat rate * (e div 1000)"
proof -
  have "unat (min (t + refill_amount rate e) rate) \<le> unat (t + refill_amount rate e)"
    by (simp add: min_def word_le_nat_alt)
  also have "\<dots> \<le> unat t + unat rate * (e div 1000) div 1000000"
    using unat_add_le [of t "refill_amount rate e"] unat_refill_le [of rate e] by linarith
  finally show ?thesis
    using div_times_less_eq_dividend [of "unat rate * (e div 1000)" 1000000] by linarith
qed

lemma micros_sum:
  assumes "(t :: nat) \<le> t'" "t' \<le> t''"
  shows "(t' - t) div 1000 + (t'' - t') div 1000 \<le> (t'' - t) div 1000"
proof -
  have "((t' - t) div 1000 + (t'' - t') div 1000) * 1000 \<le> (t' - t) + (t'' - t')"
    unfolding distrib_right by (intro add_mono div_times_less_eq_dividend)
  also have "\<dots> = t'' - t" using assms by simp
  finally show ?thesis by (simp add: less_eq_div_iff_mult_less_eq)
qed

lemma sl_refill_simps [simp]:
  "sl_limits (sl_refill now s) = sl_limits s"
  "last_refill s \<le> now \<Longrightarrow> last_refill (sl_refill now s) = now"
  by (simp_all add: sl_refill_def Let_def)

lemma try_consume_simps:
  "try_consume_at b now s = (ok, s') \<Longrightarrow> sl_limits s' = sl_limits s"
  by (auto simp: try_consume_at_def Let_def split: if_splits)

lemma try_consume_False:
  assumes "try_consume_at b now s = (False, s')"
  shows "s' = sl_refill now s"
  using assms by (auto simp: try_consume_at_def Let_def split: if_splits)

lemma try_consume_time:
  assumes "try_consume_at b now s = (ok, s')" "\<not> is_unlimited (sl_limits s)" "last_refill s \<le> now"
  shows "last_refill s' = now"
  using assms by (auto simp: try_consume_at_def Let_def split: if_splits)

section \<open>One bucket\<close>

text \<open>
  The two buckets follow one contract: refilled at their rate up to their rate, and charged
  the cost of every admitted packet. What the contract gives is proved once.
\<close>

locale bucket =
  fixes rate :: "rate_limits \<Rightarrow> u64"
    and tokens :: "session_limiter \<Rightarrow> u64"
    and cost :: "u64 \<Rightarrow> u64"
  assumes limited: "rate l \<noteq> 0 \<Longrightarrow> \<not> is_unlimited l"
    and full: "tokens (sl_new l t) = rate l"
    and refill: "tokens (sl_refill now s) = (if now - last_refill s = 0 then tokens s
      else min (tokens s + refill_amount (rate (sl_limits s)) (now - last_refill s)) (rate (sl_limits s)))"
    and charge: "try_consume_at b now s = (True, s') \<Longrightarrow> rate (sl_limits s) \<noteq> 0 \<Longrightarrow>
      cost b \<le> tokens (sl_refill now s) \<and> tokens s' = tokens (sl_refill now s) - cost b"
begin

lemma refill_le:
  "unat (tokens (sl_refill now s)) * 1000000 \<le>
    unat (tokens s) * 1000000 + unat (rate (sl_limits s)) * ((now - last_refill s) div 1000)"
  using refill_tokens_le [of "tokens s" "rate (sl_limits s)" "now - last_refill s"]
  by (simp add: refill)

lemma step:
  assumes "try_consume_at b now s = (ok, s')" "rate (sl_limits s) \<noteq> 0"
  shows "(unat (tokens s') + (if ok then unat (cost b) else 0)) * 1000000 \<le>
    unat (tokens s) * 1000000 + unat (rate (sl_limits s)) * ((now - last_refill s) div 1000)"
proof (cases ok)
  case True
  then have c: "cost b \<le> tokens (sl_refill now s)" "tokens s' = tokens (sl_refill now s) - cost b"
    using charge assms by simp_all
  then have "unat (tokens s') + unat (cost b) = unat (tokens (sl_refill now s))"
    by (simp add: unat_sub word_le_nat_alt)
  then show ?thesis using refill_le [of now s] True by simp
next
  case False
  then show ?thesis using try_consume_False assms(1) refill_le [of now s] by auto
qed

lemma bound:
  assumes "admitted calls s = (bs, s')" "rate (sl_limits s) \<noteq> 0"
    "sorted (last_refill s # List.map snd calls)" "t = last (last_refill s # List.map snd calls)"
  shows "(unat (tokens s') + sum_list (List.map (unat \<circ> cost) bs)) * 1000000 \<le>
    unat (tokens s) * 1000000 + unat (rate (sl_limits s)) * ((t - last_refill s) div 1000)"
  using assms
proof (induction calls arbitrary: s bs)
  case (Cons call calls)
  obtain b now where call: "call = (b, now)" by fastforce
  obtain ok s1 where c: "try_consume_at b now s = (ok, s1)" by fastforce
  obtain bs1 where a: "admitted calls s1 = (bs1, s')" "bs = (if ok then b # bs1 else bs1)"
    using Cons.prems(1) call c by (auto split: prod.splits)
  have now: "last_refill s \<le> now" "last_refill s1 = now"
    using Cons.prems(2,3) try_consume_time [OF c limited] call by auto
  have lim: "sl_limits s1 = sl_limits s" by (rule try_consume_simps [OF c])
  have srt: "sorted (last_refill s1 # List.map snd calls)" using Cons.prems(3) call now(2) by simp
  have t: "t = last (last_refill s1 # List.map snd calls)" using Cons.prems(4) call now(2) by simp
  have "t \<in> set (last_refill s1 # List.map snd calls)" unfolding t by (rule last_in_set) simp
  then have "now \<le> t" using srt now(2) by auto
  note IH = Cons.IH [OF a(1) _ srt t, unfolded lim now(2), OF Cons.prems(2)]
    and st = step [OF c Cons.prems(2)]
  have "unat (rate (sl_limits s)) * ((now - last_refill s) div 1000) +
      unat (rate (sl_limits s)) * ((t - now) div 1000) \<le>
      unat (rate (sl_limits s)) * ((t - last_refill s) div 1000)"
    unfolding distrib_left [symmetric] by (intro mult_le_mono2 micros_sum now(1) \<open>now \<le> t\<close>)
  then show ?case using IH st a(2) by (cases ok) (simp_all add: algebra_simps)
qed auto

end

lemma consume_charge:
  assumes "try_consume_at b now s = (True, s')"
  shows "packets_per_sec (sl_limits s) \<noteq> 0 \<Longrightarrow>
      1 \<le> packet_tokens (sl_refill now s) \<and> packet_tokens s' = packet_tokens (sl_refill now s) - 1"
    and "bytes_per_sec (sl_limits s) \<noteq> 0 \<Longrightarrow>
      b \<le> byte_tokens (sl_refill now s) \<and> byte_tokens s' = byte_tokens (sl_refill now s) - b"
  using assms by (auto simp: try_consume_at_def is_unlimited_def Let_def word_gt_0 split: if_splits)

interpretation packets: bucket packets_per_sec packet_tokens "\<lambda>_. 1"
proof
  show "packet_tokens (sl_refill now s) = (if now - last_refill s = 0 then packet_tokens s
      else min (packet_tokens s + refill_amount (packets_per_sec (sl_limits s)) (now - last_refill s))
        (packets_per_sec (sl_limits s)))" for now s
    by (simp add: sl_refill_def Let_def)
qed (use consume_charge(1) in \<open>auto simp: is_unlimited_def sl_new_def\<close>)

interpretation byte_bucket: bucket bytes_per_sec byte_tokens "\<lambda>b. b"
proof
  show "byte_tokens (sl_refill now s) = (if now - last_refill s = 0 then byte_tokens s
      else min (byte_tokens s + refill_amount (bytes_per_sec (sl_limits s)) (now - last_refill s))
        (bytes_per_sec (sl_limits s)))" for now s
    by (simp add: sl_refill_def Let_def)
qed (use consume_charge(2) in \<open>auto simp: is_unlimited_def sl_new_def\<close>)

section \<open>Properties\<close>

lemma admitted_bound:
  assumes "admitted calls (sl_new limits t0) = (bs, s')" "sorted (t0 # List.map snd calls)"
    and "t = last (t0 # List.map snd calls)"
  shows "(packets_per_sec limits \<noteq> 0 \<longrightarrow> length bs * 1000000 \<le>
      unat (packets_per_sec limits) * (1000000 + (t - t0) div 1000)) \<and>
    (bytes_per_sec limits \<noteq> 0 \<longrightarrow> sum_list (List.map unat bs) * 1000000 \<le>
      unat (bytes_per_sec limits) * (1000000 + (t - t0) div 1000))"
proof -
  have n: "sl_limits (sl_new limits t0) = limits" "last_refill (sl_new limits t0) = t0"
    by (simp_all add: sl_new_def)
  have len: "sum_list (List.map (unat \<circ> (\<lambda>_. 1 :: u64)) bs) = length bs"
    by (induction bs) simp_all
  show ?thesis
    using packets.bound [OF assms(1), unfolded n packets.full len, OF _ assms(2,3)]
      byte_bucket.bound [OF assms(1), unfolded n byte_bucket.full, OF _ assms(2,3)]
    by (auto simp: comp_def algebra_simps)
qed

text \<open>
  C37: over any run of calls a session gets at most one second of burst plus its rate times the
  elapsed time, in packets and in bytes: tokens are never created by rounding, by the
  truncation of the refill or by the timing of the calls.
\<close>

theorem limiter_bound:
  assumes "admitted calls (sl_new limits t0) = (bs, s')" "sorted (t0 # List.map snd calls)"
    and "t = last (t0 # List.map snd calls)"
  shows "(packets_per_sec limits \<noteq> 0 \<longrightarrow> length bs * 1000000 \<le>
      unat (packets_per_sec limits) * (1000000 + (t - t0) div 1000)) \<and>
    (bytes_per_sec limits \<noteq> 0 \<longrightarrow> sum_list (List.map unat bs) * 1000000 \<le>
      unat (bytes_per_sec limits) * (1000000 + (t - t0) div 1000))"
  by (rule admitted_bound) (fact assms)+

theorem limiter_bound_witness:
  "length (fst (admitted [(100, 5), (100, 6)] (sl_new \<lparr>packets_per_sec = 1, bytes_per_sec = 0\<rparr> 0)))
     * 1000000 \<le> unat (1 :: u64) * (1000000 + (6 - 0) div 1000)"
proof -
  obtain bs s' where a: "admitted [(100, 5), (100, 6)]
      (sl_new \<lparr>packets_per_sec = 1, bytes_per_sec = 0\<rparr> 0) = (bs, s')" by fastforce
  from limiter_bound [OF a, of 6] a show ?thesis by simp
qed

section \<open>Where the code departs from its intent\<close>

text \<open>
  Every call moves \<open>last_refill\<close> to the present, also when the refill rounds to zero tokens, so
  a session whose packets come faster than one token accrues is starved: once the bucket is
  empty no packet is admitted again, however long the session sends at that pace.
\<close>

lemma limiter_starves:
  assumes "packet_tokens s = 0" "packets_per_sec (sl_limits s) \<noteq> 0"
    and "sorted (last_refill s # List.map snd calls)"
    and "\<And>i. i < length calls \<Longrightarrow> unat (packets_per_sec (sl_limits s)) *
      (((last_refill s # List.map snd calls) ! Suc i - (last_refill s # List.map snd calls) ! i) div 1000)
      < 1000000"
  shows "fst (admitted calls s) = []"
  using assms
proof (induction calls arbitrary: s)
  case (Cons call calls)
  obtain b now where call: "call = (b, now)" by fastforce
  obtain ok s1 where c: "try_consume_at b now s = (ok, s1)" by fastforce
  have "unat (packets_per_sec (sl_limits s)) * ((now - last_refill s) div 1000) < 1000000"
    using Cons.prems(4) [of 0] call by simp
  then have "refill_amount (packets_per_sec (sl_limits s)) (now - last_refill s) = 0"
    by (simp add: refill_amount_def)
  then have r: "packet_tokens (sl_refill now s) = 0" using Cons.prems(1) by (simp add: packets.refill)
  then have no: "\<not> ok" using consume_charge(1) [of b now s s1] c Cons.prems(2) by auto
  then have s1: "s1 = sl_refill now s" using try_consume_False c by simp
  have now: "last_refill s1 = now" using s1 Cons.prems(3) call by simp
  have "fst (admitted calls s1) = []"
  proof (rule Cons.IH)
    show "packet_tokens s1 = 0" using s1 r by simp
    show "packets_per_sec (sl_limits s1) \<noteq> 0" using s1 Cons.prems(2) by simp
    show "sorted (last_refill s1 # List.map snd calls)" using Cons.prems(3) call now by simp
    show "unat (packets_per_sec (sl_limits s1)) *
      (((last_refill s1 # List.map snd calls) ! Suc i - (last_refill s1 # List.map snd calls) ! i) div 1000)
      < 1000000" if "i < length calls" for i
      using Cons.prems(4) [of "Suc i"] that call now s1 by simp
  qed
  then show ?case using call c no by (simp split: prod.split)
qed simp

end
