(* ===== verification/Text.thy ===== *)
theory Text
  imports Main
begin

text \<open>
  The operations on \<open>str\<close> the sources use: decimal and hexadecimal integers as \<open>Display\<close> prints
  them and \<open>from_str\<close>, \<open>from_str_radix\<close> parse them, prefixes, splitting, trimming and
  case-insensitive comparison. A string is the list of its characters; the sources apply these
  operations to header values and paths, which are ASCII.
\<close>

section \<open>Integers\<close>

definition digit_char :: "nat \<Rightarrow> char" where
  "digit_char d = (if d < 10 then char_of (48 + d) else char_of (87 + d))"

fun show_radix :: "nat \<Rightarrow> nat \<Rightarrow> string" where
  "show_radix r n = (if n < r \<or> r < 2 then [digit_char n] else show_radix r (n div r) @ [digit_char (n mod r)])"

declare show_radix.simps [simp del]

definition show_nat :: "nat \<Rightarrow> string" where
  "show_nat n = show_radix 10 n"

definition digit_val :: "nat \<Rightarrow> char \<Rightarrow> nat option" where
  "digit_val r c =
     (let n = (of_char c :: nat);
          d = (if 48 \<le> n \<and> n \<le> 57 then n - 48
               else if 97 \<le> n \<and> n \<le> 122 then n - 87
               else if 65 \<le> n \<and> n \<le> 90 then n - 55 else r) in
      if d < r then Some d else None)"

fun parse_digits :: "nat \<Rightarrow> nat \<Rightarrow> nat \<Rightarrow> string \<Rightarrow> nat option" where
  "parse_digits r m acc [] = Some acc"
| "parse_digits r m acc (c # cs) = (case digit_val r c of
      None \<Rightarrow> None
    | Some d \<Rightarrow> if acc * r + d > m then None else parse_digits r m (acc * r + d) cs)"

text \<open>\<open>from_str_radix\<close> of an unsigned type with greatest value \<open>m\<close>: a leading plus sign is allowed.\<close>

definition parse_uint :: "nat \<Rightarrow> nat \<Rightarrow> string \<Rightarrow> nat option" where
  "parse_uint r m s =
     (case s of [] \<Rightarrow> None
      | c # cs \<Rightarrow> if c = CHR ''+'' \<and> cs \<noteq> [] then parse_digits r m 0 cs else parse_digits r m 0 s)"

section \<open>Splitting\<close>

fun strip_prefix :: "string \<Rightarrow> string \<Rightarrow> string option" where
  "strip_prefix [] s = Some s"
| "strip_prefix (p # ps) (c # cs) = (if p = c then strip_prefix ps cs else None)"
| "strip_prefix (p # ps) [] = None"

definition starts_with :: "string \<Rightarrow> string \<Rightarrow> bool" where
  "starts_with p s \<longleftrightarrow> strip_prefix p s \<noteq> None"

definition strip_suffix_char :: "char \<Rightarrow> string \<Rightarrow> string option" where
  "strip_suffix_char c s = (if s \<noteq> [] \<and> last s = c then Some (butlast s) else None)"

definition split_once :: "char \<Rightarrow> string \<Rightarrow> (string \<times> string) option" where
  "split_once c s =
     (if c \<in> set s then Some (takeWhile (\<lambda>x. x \<noteq> c) s, tl (dropWhile (\<lambda>x. x \<noteq> c) s)) else None)"

definition rsplit_once :: "char \<Rightarrow> string \<Rightarrow> (string \<times> string) option" where
  "rsplit_once c s = map_option (\<lambda>(a, b). (rev b, rev a)) (split_once c (rev s))"

text \<open>White space of ASCII strings: tab, line feed, vertical tab, form feed, return and space.\<close>

definition is_space :: "char \<Rightarrow> bool" where
  "is_space c \<longleftrightarrow> (of_char c :: nat) \<in> {9, 10, 11, 12, 13, 32}"

definition trim :: "string \<Rightarrow> string" where
  "trim s = rev (dropWhile is_space (rev (dropWhile is_space s)))"

definition to_lower :: "char \<Rightarrow> char" where
  "to_lower c = (let n = (of_char c :: nat) in if 65 \<le> n \<and> n \<le> 90 then char_of (n + 32) else c)"

definition eq_ignore_ascii_case :: "string \<Rightarrow> string \<Rightarrow> bool" where
  "eq_ignore_ascii_case a b \<longleftrightarrow> map to_lower a = map to_lower b"

section \<open>Lemmas\<close>

lemma digit_val_char:
  assumes "d < r" "r \<le> 16"
  shows "digit_val r (digit_char d) = Some d"
  using assms by (cases "d < 10") (auto simp: digit_val_def digit_char_def Let_def of_char_of)

lemma parse_digits_append:
  "parse_digits r m acc (xs @ ys) =
     (case parse_digits r m acc xs of None \<Rightarrow> None | Some v \<Rightarrow> parse_digits r m v ys)"
  by (induction xs arbitrary: acc) (auto split: option.split)

lemma parse_show_radix:
  assumes "2 \<le> r" "r \<le> 16" "n \<le> m"
  shows "parse_digits r m 0 (show_radix r n) = Some n"
  using assms
proof (induction r n rule: show_radix.induct)
  case (1 r n)
  show ?case
  proof (cases "n < r")
    case True
    then show ?thesis using 1 by (simp add: show_radix.simps [of r n] digit_val_char)
  next
    case False
    have "n div r \<le> m" using 1(4) div_le_dividend order_trans by blast
    moreover have "n mod r < r" using 1 by simp
    ultimately show ?thesis
      using False 1 by (simp add: show_radix.simps [of r n] parse_digits_append digit_val_char)
  qed
qed

lemma show_radix_not_plus:
  assumes "2 \<le> r" "r \<le> 16"
  shows "\<exists>c cs. show_radix r n = c # cs \<and> c \<noteq> CHR ''+''"
  using assms
proof (induction r n rule: show_radix.induct)
  case (1 r n)
  have "digit_char d \<noteq> CHR ''+''" if "d < r" for d
    using digit_val_char [OF that 1(3)] by (auto simp: digit_val_def split: if_splits)
  then show ?case
    using 1 by (cases "n < r") (auto simp: show_radix.simps [of r n])
qed

lemma parse_uint_show:
  "n \<le> m \<Longrightarrow> parse_uint 10 m (show_nat n) = Some n"
  using show_radix_not_plus [of 10 n] parse_show_radix [of 10 n m]
  by (auto simp: parse_uint_def show_nat_def)

lemma parse_digits_bound: "parse_digits r m acc s = Some v \<Longrightarrow> acc \<le> m \<Longrightarrow> v \<le> m"
  by (induction s arbitrary: acc) (auto split: option.splits if_splits)

lemma parse_uint_bound: "parse_uint r m s = Some v \<Longrightarrow> v \<le> m"
  using parse_digits_bound [of r m 0 _ v]
  by (auto simp: parse_uint_def simp del: parse_digits.simps split: list.splits if_splits)

lemma strip_prefix_Some: "strip_prefix p s = Some r \<longleftrightarrow> s = p @ r"
  by (induction p s rule: strip_prefix.induct) auto

lemma scan_to:
  "c \<notin> set a \<Longrightarrow> takeWhile (\<lambda>x. x \<noteq> c) (a @ c # b) = a"
  "c \<notin> set a \<Longrightarrow> dropWhile (\<lambda>x. x \<noteq> c) (a @ c # b) = c # b"
  by (induction a) auto

lemma split_once_Some: "split_once c s = Some (a, b) \<longleftrightarrow> s = a @ c # b \<and> c \<notin> set a"
proof
  assume l: "split_once c s = Some (a, b)"
  then have s: "a = takeWhile (\<lambda>x. x \<noteq> c) s" "b = tl (dropWhile (\<lambda>x. x \<noteq> c) s)" "c \<in> set s"
    by (auto simp: split_once_def split: if_splits)
  then have "dropWhile (\<lambda>x. x \<noteq> c) s = c # b"
    by (metis (mono_tags, lifting) dropWhile_eq_Nil_conv hd_dropWhile list.collapse)
  then show "s = a @ c # b \<and> c \<notin> set a"
    using s(1) takeWhile_dropWhile_id [of "\<lambda>x. x \<noteq> c" s] by (auto dest: set_takeWhileD)
next
  assume r: "s = a @ c # b \<and> c \<notin> set a"
  then have "takeWhile (\<lambda>x. x \<noteq> c) s = a" "dropWhile (\<lambda>x. x \<noteq> c) s = c # b"
    using scan_to [of c a b] by simp_all
  then show "split_once c s = Some (a, b)" using r by (simp add: split_once_def)
qed

lemma split_once_None: "split_once c s = None \<longleftrightarrow> c \<notin> set s"
  by (simp add: split_once_def)

lemma rsplit_once_Some: "rsplit_once c s = Some (a, b) \<longleftrightarrow> s = a @ c # b \<and> c \<notin> set b"
proof -
  have "rsplit_once c s = Some (a, b) \<longleftrightarrow> split_once c (rev s) = Some (rev b, rev a)"
    by (auto simp: rsplit_once_def)
  also have "\<dots> \<longleftrightarrow> rev s = rev b @ c # rev a \<and> c \<notin> set b"
    by (simp add: split_once_Some)
  also have "\<dots> \<longleftrightarrow> s = a @ c # b \<and> c \<notin> set b"
    by (metis append_assoc append_Cons append_Nil rev.simps(2) rev_append rev_rev_ident)
  finally show ?thesis .
qed

end
