(* ===== verification/Metrics.thy ===== *)
theory Metrics
  imports Straw_Prelude Text
begin

text \<open>
  The counters of \<open>src/src/metrics.rs\<close> and their rendering in the Prometheus text format, with the
  proof that a scraper reads back every counter.
\<close>

section \<open>Definitions\<close>

record metrics =
  sessions_total :: u64
  auth_failures_total :: u64
  packets_hairpin_total :: u64
  packets_tun_out_total :: u64
  packets_to_client_total :: u64
  packets_dropped_total :: u64
  packets_rate_limited_total :: u64
  packets_mtu_dropped_total :: u64
  icmp_errors_sent_total :: u64
  bytes_from_client_total :: u64
  bytes_to_client_total :: u64

definition metrics_default :: metrics where
  "metrics_default = \<lparr>sessions_total = 0, auth_failures_total = 0, packets_hairpin_total = 0,
     packets_tun_out_total = 0, packets_to_client_total = 0, packets_dropped_total = 0,
     packets_rate_limited_total = 0, packets_mtu_dropped_total = 0, icmp_errors_sent_total = 0,
     bytes_from_client_total = 0, bytes_to_client_total = 0\<rparr>"

text \<open>\<open>fetch_add\<close> wraps; a counter is given by the update function of its field.\<close>

definition metric_add :: "((u64 \<Rightarrow> u64) \<Rightarrow> metrics \<Rightarrow> metrics) \<Rightarrow> u64 \<Rightarrow> metrics \<Rightarrow> metrics" where
  "metric_add counter n m = counter (\<lambda>v. v + n) m"

definition metric_incr :: "((u64 \<Rightarrow> u64) \<Rightarrow> metrics \<Rightarrow> metrics) \<Rightarrow> metrics \<Rightarrow> metrics" where
  "metric_incr counter m = counter (\<lambda>v. v + 1) m"

abbreviation newline :: char where
  "newline \<equiv> CHR 0x0A"

definition counter_text :: "string \<Rightarrow> string \<Rightarrow> u64 \<Rightarrow> string" where
  "counter_text name help value =
     ''# HELP straw_'' @ name @ '' '' @ help @ newline # ''# TYPE straw_'' @ name @ '' counter'' @
     newline # ''straw_'' @ name @ '' '' @ show_nat (unat value) @ [newline]"

definition render :: "metrics \<Rightarrow> nat \<Rightarrow> string" where
  "render m sessions_active =
     counter_text ''sessions_total'' ''Tunnel sessions established'' (sessions_total m) @
     counter_text ''auth_failures_total'' ''Rejected authentication attempts'' (auth_failures_total m) @
     counter_text ''packets_hairpin_total'' ''Packets forwarded client-to-client'' (packets_hairpin_total m) @
     counter_text ''packets_tun_out_total'' ''Packets forwarded to the TUN device'' (packets_tun_out_total m) @
     counter_text ''packets_to_client_total'' ''Packets delivered toward clients'' (packets_to_client_total m) @
     counter_text ''packets_dropped_total'' ''Packets dropped by validation or routing'' (packets_dropped_total m) @
     counter_text ''packets_rate_limited_total'' ''Packets dropped by per-session rate limits''
       (packets_rate_limited_total m) @
     counter_text ''packets_mtu_dropped_total'' ''Packets dropped for exceeding the tunnel MTU''
       (packets_mtu_dropped_total m) @
     counter_text ''icmp_errors_sent_total'' ''ICMP errors generated by the proxy'' (icmp_errors_sent_total m) @
     counter_text ''bytes_from_client_total'' ''Bytes received from clients over tunnels''
       (bytes_from_client_total m) @
     counter_text ''bytes_to_client_total'' ''Bytes sent toward clients over tunnels'' (bytes_to_client_total m) @
     ''# HELP straw_sessions_active Currently active tunnel sessions'' @
     newline # ''# TYPE straw_sessions_active gauge'' @
     newline # ''straw_sessions_active '' @ show_nat sessions_active @ [newline]"

text \<open>The HTTP response of \<open>serve_metrics\<close>.\<close>

definition metrics_response :: "metrics \<Rightarrow> nat \<Rightarrow> string" where
  "metrics_response m sessions_active =
     (let body = render m sessions_active; crlf = [CHR 0x0D, CHR 0x0A] in
      ''HTTP/1.1 200 OK'' @ crlf @ ''content-type: text/plain; version=0.0.4'' @ crlf @
      ''content-length: '' @ show_nat (length body) @ crlf @ ''connection: close'' @ crlf @ crlf @ body)"

section \<open>Scraping\<close>

text \<open>A reader of the format: sample lines are \<open>name value\<close>, lines starting with a hash are skipped.\<close>

fun lines :: "string \<Rightarrow> string \<Rightarrow> string list" where
  "lines acc [] = (if acc = [] then [] else [acc])"
| "lines acc (c # cs) = (if c = newline then acc # lines [] cs else lines (acc @ [c]) cs)"

fun sample_of :: "string \<Rightarrow> (string \<times> nat) option" where
  "sample_of l = (if l \<noteq> [] \<and> hd l = CHR ''#'' then None
     else case split_once CHR '' '' l of None \<Rightarrow> None
       | Some (name, v) \<Rightarrow> map_option (\<lambda>n. (name, n)) (parse_uint 10 (2 ^ 64 - 1) v))"

definition scrape :: "string \<Rightarrow> (string \<times> nat) list" where
  "scrape text = List.map_filter sample_of (lines [] text)"

lemma show_nat_chars: "c \<in> set (show_nat n) \<Longrightarrow> digit_val 10 c \<noteq> None"
proof -
  have "c \<in> set (show_radix r n) \<Longrightarrow> r = 10 \<Longrightarrow> digit_val r c \<noteq> None" for r
  proof (induction r n rule: show_radix.induct)
    case (1 r n)
    then show ?case
      using digit_val_char [of n r] digit_val_char [of "n mod r" r]
      by (cases "n < r") (auto simp: show_radix.simps [of 10 n])
  qed
  then show "c \<in> set (show_nat n) \<Longrightarrow> digit_val 10 c \<noteq> None" by (simp add: show_nat_def)
qed

lemma lines_line: "newline \<notin> set l \<Longrightarrow> lines acc (l @ newline # rest) = (acc @ l) # lines [] rest"
  by (induction l arbitrary: acc) auto

lemma show_nat_plain: "newline \<notin> set (show_nat n)"
  using show_nat_chars [of newline n] by (auto simp: digit_val_def)

lemma sample_value:
  "CHR '' '' \<notin> set name \<Longrightarrow> name \<noteq> [] \<Longrightarrow> hd name \<noteq> CHR ''#'' \<Longrightarrow> n < 2 ^ 64 \<Longrightarrow>
    sample_of (name @ CHR '' '' # show_nat n) = Some (name, n)"
  using split_once_Some [of "CHR '' ''" "name @ CHR '' '' # show_nat n" name "show_nat n"]
    parse_uint_show [of n "2 ^ 64 - 1"]
  by simp

lemma sample_comment: "sample_of (CHR ''#'' # l) = None"
  by simp

lemma scrape_counter:
  assumes "newline \<notin> set name" "newline \<notin> set help" "CHR '' '' \<notin> set name"
  shows "scrape (counter_text name help v @ rest) = (''straw_'' @ name, unat v) # scrape rest"
proof -
  have h: "lines [] (counter_text name help v @ rest) =
      (''# HELP straw_'' @ name @ '' '' @ help) # (''# TYPE straw_'' @ name @ '' counter'') #
      ((''straw_'' @ name) @ CHR '' '' # show_nat (unat v)) # lines [] rest"
    using assms show_nat_plain [of "unat v"]
      lines_line [of "''# HELP straw_'' @ name @ '' '' @ help" "[]"]
      lines_line [of "''# TYPE straw_'' @ name @ '' counter''" "[]"]
      lines_line [of "''straw_'' @ name @ '' '' @ show_nat (unat v)" "[]"]
    by (simp add: counter_text_def del: lines.simps)
  have "sample_of ((''straw_'' @ name) @ CHR '' '' # show_nat (unat v)) = Some (''straw_'' @ name, unat v)"
    using assms unsigned_less [of v, where ?'a = nat] by (intro sample_value) simp_all
  then show ?thesis
    unfolding scrape_def h by (simp add: map_filter_simps sample_comment del: sample_of.simps)
qed

text \<open>
  What \<open>/metrics\<close> serves can be scraped back. Reading the rendered text yields exactly the
  eleven counters, each under its name with its current value, followed by the number of active
  sessions.
\<close>

lemma render_scrape:
  assumes "sessions_active < 2 ^ 64"
  shows "scrape (render m sessions_active) =
    [(''straw_sessions_total'', unat (sessions_total m)),
     (''straw_auth_failures_total'', unat (auth_failures_total m)),
     (''straw_packets_hairpin_total'', unat (packets_hairpin_total m)),
     (''straw_packets_tun_out_total'', unat (packets_tun_out_total m)),
     (''straw_packets_to_client_total'', unat (packets_to_client_total m)),
     (''straw_packets_dropped_total'', unat (packets_dropped_total m)),
     (''straw_packets_rate_limited_total'', unat (packets_rate_limited_total m)),
     (''straw_packets_mtu_dropped_total'', unat (packets_mtu_dropped_total m)),
     (''straw_icmp_errors_sent_total'', unat (icmp_errors_sent_total m)),
     (''straw_bytes_from_client_total'', unat (bytes_from_client_total m)),
     (''straw_bytes_to_client_total'', unat (bytes_to_client_total m)),
     (''straw_sessions_active'', sessions_active)]"
proof -
  have h: "lines [] (''# HELP straw_sessions_active Currently active tunnel sessions'' @
     newline # ''# TYPE straw_sessions_active gauge'' @
     newline # ''straw_sessions_active '' @ show_nat sessions_active @ [newline]) =
      [''# HELP straw_sessions_active Currently active tunnel sessions'',
       ''# TYPE straw_sessions_active gauge'', ''straw_sessions_active'' @ CHR '' '' # show_nat sessions_active]"
    using show_nat_plain [of sessions_active]
      lines_line [of "''# HELP straw_sessions_active Currently active tunnel sessions''" "[]"]
      lines_line [of "''# TYPE straw_sessions_active gauge''" "[]"]
      lines_line [of "''straw_sessions_active '' @ show_nat sessions_active" "[]" "[]"]
    by simp
  have "sample_of (''straw_sessions_active'' @ CHR '' '' # show_nat sessions_active) =
      Some (''straw_sessions_active'', sessions_active)"
    using assms by (intro sample_value) simp_all
  then have gauge: "scrape (''# HELP straw_sessions_active Currently active tunnel sessions'' @
     newline # ''# TYPE straw_sessions_active gauge'' @
     newline # ''straw_sessions_active '' @ show_nat sessions_active @ [newline]) =
      [(''straw_sessions_active'', sessions_active)]"
    unfolding scrape_def h by (simp add: map_filter_simps sample_comment del: sample_of.simps)
  define active where "active = ''# HELP straw_sessions_active Currently active tunnel sessions'' @
     newline # ''# TYPE straw_sessions_active gauge'' @
     newline # ''straw_sessions_active '' @ show_nat sessions_active @ [newline]"
  show ?thesis
    unfolding render_def active_def [symmetric] by (simp add: scrape_counter gauge [folded active_def])
qed

lemma render_scrape_witness:
  "\<exists>rest. scrape (render (metrics_default\<lparr>sessions_total := 7\<rparr>) 3) = (''straw_sessions_total'', 7) # rest"
  using render_scrape [of 3 "metrics_default\<lparr>sessions_total := 7\<rparr>"] by simp

end
