(* ===== verification/Forwarding.thy ===== *)
theory Forwarding
  imports Icmp Router Limiter Datagram Metrics
begin

text \<open>
  The forwarding engine, \<open>src/src/forwarding/mod.rs\<close>: the shared tables of the proxy and the two
  packet paths, from a client tunnel and from the network. What leaves the engine is appended
  to the list \<open>fe_out\<close>; whether a queue or a connection accepts a packet, the size of its
  datagrams and the clock are the environment of a call.
\<close>

section \<open>Definitions\<close>

type_synonym chan = nat
type_synonym conn = nat

datatype session_sink = SinkChannel chan | SinkDatagram conn u64

datatype forwarded = Hairpin session_id | Tun

datatype egress = QueueOut chan bytes | DatagramOut conn bytes | TunOut bytes | NotifyWaiters session_id

record net_env =
  ne_now :: instant
  ne_max_datagram_size :: "conn \<Rightarrow> nat option"
  ne_send_ok :: "conn \<Rightarrow> bytes \<Rightarrow> bool"
  ne_queue_ok :: "chan \<Rightarrow> bytes \<Rightarrow> bool"
  ne_tun_ok :: "bytes \<Rightarrow> bool"

type_synonym egress_policy = "ip_address_range list"

definition policy_allows :: "egress_policy \<Rightarrow> ip_addr \<Rightarrow> u8 \<Rightarrow> bool" where
  "policy_allows ranges dst proto = list_ex (\<lambda>r. range_contains r dst proto) ranges"

record engine =
  fe_route_table :: route_table
  fe_session_sinks :: "session_id \<rightharpoonup> session_sink"
  fe_session_notify :: "session_id set"
  fe_policies :: "session_id \<rightharpoonup> egress_policy"
  fe_limiters :: "session_id \<rightharpoonup> session_limiter"
  fe_session_mtus :: "session_id \<rightharpoonup> nat"
  fe_tun_tx :: bool
  fe_mtu :: nat
  fe_icmp_source :: icmp_source
  fe_limits :: rate_limits
  fe_metrics :: metrics
  fe_out :: "egress list"

type_synonym 'a fwd = "(engine, forwarding_error, 'a) action"

definition fe_new :: "route_table \<Rightarrow> bool \<Rightarrow> u16 \<Rightarrow> icmp_source \<Rightarrow> rate_limits \<Rightarrow> metrics \<Rightarrow> engine" where
  "fe_new route_table tun_tx mtu source limits m =
     \<lparr>fe_route_table = route_table, fe_session_sinks = Map.empty, fe_session_notify = {},
      fe_policies = Map.empty, fe_limiters = Map.empty, fe_session_mtus = Map.empty,
      fe_tun_tx = tun_tx, fe_mtu = unat mtu, fe_icmp_source = source, fe_limits = limits,
      fe_metrics = m, fe_out = []\<rparr>"

definition register_session ::
    "instant \<Rightarrow> session_id \<Rightarrow> session_sink \<Rightarrow> egress_policy \<Rightarrow> nat \<Rightarrow> engine \<Rightarrow> engine" where
  "register_session now i sink policy mtu e =
     e\<lparr>fe_session_sinks := (fe_session_sinks e)(i \<mapsto> sink),
       fe_policies := (fe_policies e)(i \<mapsto> policy),
       fe_session_mtus := (fe_session_mtus e)(i \<mapsto> mtu),
       fe_limiters := (if is_unlimited (fe_limits e) then fe_limiters e
                       else (fe_limiters e)(i \<mapsto> sl_new (fe_limits e) now)),
       fe_session_notify := insert i (fe_session_notify e)\<rparr>"

definition unregister_session :: "session_id \<Rightarrow> engine \<Rightarrow> engine" where
  "unregister_session i e =
     e\<lparr>fe_session_sinks := (fe_session_sinks e)(i := None),
       fe_policies := (fe_policies e)(i := None),
       fe_session_mtus := (fe_session_mtus e)(i := None),
       fe_limiters := (fe_limiters e)(i := None),
       fe_session_notify := fe_session_notify e - {i},
       fe_out := (if i \<in> fe_session_notify e then fe_out e @ [NotifyWaiters i] else fe_out e)\<rparr>"

definition session_mtu :: "engine \<Rightarrow> session_id \<Rightarrow> nat" where
  "session_mtu e i = (case fe_session_mtus e i of Some m \<Rightarrow> m | None \<Rightarrow> fe_mtu e)"

definition session_accepts :: "engine \<Rightarrow> session_id \<Rightarrow> packet_info \<Rightarrow> bool" where
  "session_accepts e target info = (case fe_policies e target of
      Some p \<Rightarrow> policy_allows p (pi_src info) (pi_protocol info) | None \<Rightarrow> False)"

definition count :: "(metrics \<Rightarrow> metrics) \<Rightarrow> unit fwd" where
  "count f = upd (fe_metrics_update f)"

definition emit :: "egress \<Rightarrow> unit fwd" where
  "emit x = upd (fe_out_update (\<lambda>out. out @ [x]))"

definition deliver_to_session :: "net_env \<Rightarrow> session_id \<Rightarrow> bytes \<Rightarrow> unit fwd" where
  "deliver_to_session env i packet =
     rbind (rbind (peek (\<lambda>e. fe_session_sinks e i)) (\<lambda>sink. case sink of
        None \<Rightarrow> rfail NoRoute
      | Some (SinkChannel tx) \<Rightarrow>
          if ne_queue_ok env tx packet then emit (QueueOut tx packet) else rfail Congested
      | Some (SinkDatagram conn qsid) \<Rightarrow>
          rbind (rlift (unwrap (encode_quic_datagram qsid (dg_ip_packet packet)))) (\<lambda>wire.
            if (case ne_max_datagram_size env conn of Some m \<Rightarrow> length wire > m | None \<Rightarrow> False)
            then rbind (count (metric_incr packets_mtu_dropped_total_update)) (\<lambda>_. rfail MtuExceeded)
            else if ne_send_ok env conn wire then emit (DatagramOut conn wire) else rfail Congested)))
     (\<lambda>_. rbind (count (metric_incr packets_to_client_total_update)) (\<lambda>_.
       count (metric_add bytes_to_client_total_update (word_of_nat (length packet)))))"

definition send_icmp_error :: "net_env \<Rightarrow> session_id \<Rightarrow> icmp_error_kind \<Rightarrow> bytes \<Rightarrow> unit fwd" where
  "send_icmp_error env i kind original =
     rbind (peek fe_icmp_source) (\<lambda>source.
       case build_icmp_error kind source original of
         None \<Rightarrow> rret ()
       | Some icmp_packet \<Rightarrow>
           rbind (attempt (deliver_to_session env i icmp_packet)) (\<lambda>r. case r of
             Err _ \<Rightarrow> rret ()
           | _ \<Rightarrow> count (metric_incr icmp_errors_sent_total_update)))"

definition reject :: "net_env \<Rightarrow> session_id \<Rightarrow> icmp_error_kind \<Rightarrow> bytes \<Rightarrow> forwarding_error \<Rightarrow> 'a fwd" where
  "reject env i kind packet err = rbind (send_icmp_error env i kind packet) (\<lambda>_. rfail err)"

definition hairpin :: "net_env \<Rightarrow> session_id \<Rightarrow> session_id \<Rightarrow> packet_info \<Rightarrow> bytes \<Rightarrow> forwarded fwd" where
  "hairpin env from target info packet e =
     (if \<not> session_accepts e target info
      then reject env from AdminProhibited packet (NotAllowed (pi_dst info)) e
      else if length packet > session_mtu e target
      then rbind (count (metric_incr packets_mtu_dropped_total_update)) (\<lambda>_.
        reject env from (PacketTooBig (word_of_nat (session_mtu e target))) packet MtuExceeded) e
      else rbind (deliver_to_session env target packet) (\<lambda>_. rret (Hairpin target)) e)"

definition forward_validated ::
    "net_env \<Rightarrow> ipnet_api \<Rightarrow> session_id \<Rightarrow> assigned_address list \<Rightarrow> bytes \<Rightarrow> forwarded fwd" where
  "forward_validated env api from assigned packet e =
     rbind (rlift (parse_packet packet)) (\<lambda>info.
     rbind (rlift (validate_source api info assigned)) (\<lambda>_.
     if length packet > fe_mtu e
     then reject env from (PacketTooBig (word_of_nat (fe_mtu e))) packet MtuExceeded
     else rbind (rlift (validate_destination (pi_dst info))) (\<lambda>_.
     if \<not> (case fe_policies e from of Some p \<Rightarrow> policy_allows p (pi_dst info) (pi_protocol info) | None \<Rightarrow> False)
     then reject env from AdminProhibited packet (NotAllowed (pi_dst info))
     else case decrement_ttl packet of
         Panic \<Rightarrow> rlift Panic
       | Err TtlExpired \<Rightarrow> reject env from TimeExceeded packet TtlExpired
       | Err err \<Rightarrow> rfail err
       | Ok packet \<Rightarrow>
           (case lookup api (fe_route_table e) (pi_dst info) (pi_protocol info) of
              Some target \<Rightarrow> hairpin env from target info packet
            | None \<Rightarrow>
                if fe_tun_tx e then
                  (if ne_tun_ok env packet then rbind (emit (TunOut packet)) (\<lambda>_. rret Tun)
                   else rfail Congested)
                else reject env from KNoRoute packet NoRoute)))) e"

text \<open>Rate limiting, before any validation.\<close>

definition limiter_step :: "net_env \<Rightarrow> session_id \<Rightarrow> bytes \<Rightarrow> engine \<Rightarrow> bool \<times> engine" where
  "limiter_step env from packet e = (case fe_limiters e from of None \<Rightarrow> (True, e)
     | Some l \<Rightarrow> (let (ok, l') = try_consume_at (word_of_nat (length packet)) (ne_now env) l in
         (ok, e\<lparr>fe_limiters := (fe_limiters e)(from \<mapsto> l')\<rparr>)))"

definition forward_from_client ::
    "net_env \<Rightarrow> ipnet_api \<Rightarrow> session_id \<Rightarrow> assigned_address list \<Rightarrow> bytes \<Rightarrow> forwarded fwd" where
  "forward_from_client env api from assigned packet =
     rbind (count (metric_add bytes_from_client_total_update (word_of_nat (length packet)))) (\<lambda>_ e.
       (let (ok, e) = limiter_step env from packet e in
        if \<not> ok then rbind (count (metric_incr packets_rate_limited_total_update)) (\<lambda>_. rfail RateLimited) e
        else rbind (attempt (forward_validated env api from assigned packet)) (\<lambda>r.
          rbind (case r of
              Ok (Hairpin _) \<Rightarrow> count (metric_incr packets_hairpin_total_update)
            | Ok Tun \<Rightarrow> count (metric_incr packets_tun_out_total_update)
            | _ \<Rightarrow> count (metric_incr packets_dropped_total_update)) (\<lambda>_. rlift r)) e))"

definition dispatch_from_network :: "net_env \<Rightarrow> ipnet_api \<Rightarrow> bytes \<Rightarrow> session_id fwd" where
  "dispatch_from_network env api packet e =
     rbind (rlift (parse_packet packet)) (\<lambda>info.
     rbind (rlift (ok_or NoRoute (lookup api (fe_route_table e) (pi_dst info) (pi_protocol info)))) (\<lambda>target.
     if \<not> session_accepts e target info then rfail (NotAllowed (pi_src info))
     else if length packet > session_mtu e target
     then rbind (count (metric_incr packets_mtu_dropped_total_update)) (\<lambda>_. rfail MtuExceeded)
     else rbind (rlift (decrement_ttl packet)) (\<lambda>packet.
       rbind (deliver_to_session env target packet) (\<lambda>_. rret target)))) e"

section \<open>Deliveries\<close>

text \<open>How a packet shows up behind a sink, and the tables a call leaves alone.\<close>

fun carries :: "net_env \<Rightarrow> session_sink \<Rightarrow> bytes \<Rightarrow> egress \<Rightarrow> bool" where
  "carries env (SinkChannel tx) packet x \<longleftrightarrow> x = QueueOut tx packet"
| "carries env (SinkDatagram conn qsid) packet x \<longleftrightarrow>
     (\<exists>wire. encode_quic_datagram qsid (dg_ip_packet packet) = Ok wire \<and> x = DatagramOut conn wire \<and>
       (case ne_max_datagram_size env conn of Some m \<Rightarrow> length wire \<le> m | None \<Rightarrow> True))"

definition intake :: "metrics \<Rightarrow> u64 \<times> u64 \<times> u64 \<times> u64 \<times> u64" where
  "intake m = (packets_hairpin_total m, packets_tun_out_total m, packets_dropped_total m,
     packets_rate_limited_total m, bytes_from_client_total m)"

definition same_tables :: "engine \<Rightarrow> engine \<Rightarrow> bool" where
  "same_tables e e' \<longleftrightarrow> e'\<lparr>fe_metrics := fe_metrics e, fe_out := fe_out e\<rparr> = e \<and>
     intake (fe_metrics e') = intake (fe_metrics e)"

lemma same_tables_refl [simp]: "same_tables e e"
  by (simp add: same_tables_def)

lemma intake_delivery [simp]:
  "intake (metric_incr packets_mtu_dropped_total_update m) = intake m"
  "intake (metric_incr packets_to_client_total_update m) = intake m"
  "intake (metric_incr icmp_errors_sent_total_update m) = intake m"
  "intake (metric_add bytes_to_client_total_update n m) = intake m"
  by (simp_all add: intake_def metric_incr_def metric_add_def)

lemma same_tables_metrics [simp]:
  assumes "\<And>m. intake (f m) = intake m"
  shows "same_tables e (fe_metrics_update f e') \<longleftrightarrow> same_tables e e'"
    and "same_tables (fe_metrics_update f e) e' \<longleftrightarrow> same_tables e e'"
  using assms by (cases e; cases e'; simp add: same_tables_def)+

lemma same_tables_out [simp]: "same_tables e (fe_out_update f e') \<longleftrightarrow> same_tables e e'"
  by (cases e; cases e') (simp add: same_tables_def)

lemmas fwd_simps = rbind_def peek_def upd_def rret_def rfail_def rlift_def attempt_def count_def emit_def

definition qsids_ok :: "engine \<Rightarrow> bool" where
  "qsids_ok e \<longleftrightarrow> (\<forall>i conn qsid. fe_session_sinks e i = Some (SinkDatagram conn qsid) \<longrightarrow> qsid \<le> VARINT_MAX)"

lemma encode_quic_no_panic:
  "qsid \<le> VARINT_MAX \<Longrightarrow> \<exists>wire. encode_quic_datagram qsid (dg_ip_packet p) = Ok wire"
  using write_varint_Ok [of qsid] write_varint_Ok [of CONTEXT_ID_IP_PACKET]
  by (auto simp: encode_quic_datagram_def dg_encoded_len_def dg_encode_def dg_ip_packet_def
    CONTEXT_ID_IP_PACKET_def VARINT_MAX_def)

lemma deliver_outcome:
  assumes "deliver_to_session env i p e = (r, e')"
  shows "same_tables e e'"
    and "r = Ok () \<Longrightarrow> \<exists>sink x. fe_session_sinks e i = Some sink \<and> carries env sink p x \<and> fe_out e' = fe_out e @ [x]"
    and "r \<noteq> Ok () \<Longrightarrow> fe_out e' = fe_out e"
    and "qsids_ok e \<Longrightarrow> r \<noteq> Panic"
proof -
  show "same_tables e e'"
    using assms unfolding deliver_to_session_def
    by (auto simp: fwd_simps split: option.splits session_sink.splits if_splits res.splits)
  show "\<exists>sink x. fe_session_sinks e i = Some sink \<and> carries env sink p x \<and> fe_out e' = fe_out e @ [x]"
    if "r = Ok ()"
    using assms that unfolding deliver_to_session_def
    by (auto simp: fwd_simps res_simps split: option.splits session_sink.splits if_splits res.splits)
  show "fe_out e' = fe_out e" if "r \<noteq> Ok ()"
    using assms that unfolding deliver_to_session_def
    by (auto simp: fwd_simps split: option.splits session_sink.splits if_splits res.splits)
  show "r \<noteq> Panic" if q: "qsids_ok e"
  proof (cases "fe_session_sinks e i")
    case (Some sink)
    then show ?thesis
    proof (cases sink)
      case (SinkDatagram conn qsid)
      then have "qsid \<le> VARINT_MAX" using q Some by (auto simp: qsids_ok_def)
      then obtain wire where "encode_quic_datagram qsid (dg_ip_packet p) = Ok wire"
        using encode_quic_no_panic by blast
      then show ?thesis using assms Some SinkDatagram
        by (auto simp: deliver_to_session_def fwd_simps split: if_splits)
    qed (use assms Some in \<open>auto simp: deliver_to_session_def fwd_simps split: if_splits\<close>)
  qed (use assms in \<open>auto simp: deliver_to_session_def fwd_simps\<close>)
qed

text \<open>A refused packet: the caller's error, and at most an ICMP error back to the sender.\<close>

definition icmp_reply :: "net_env \<Rightarrow> session_id \<Rightarrow> engine \<Rightarrow> bytes \<Rightarrow> egress list \<Rightarrow> bool" where
  "icmp_reply env from e packet new \<longleftrightarrow> new = [] \<or>
     (\<exists>kind reply sink x. build_icmp_error kind (fe_icmp_source e) packet = Some reply \<and>
        fe_session_sinks e from = Some sink \<and> carries env sink reply x \<and> new = [x])"

lemma reject_outcome:
  assumes "reject env i kind packet err e = (r, e')"
  shows "same_tables e e'" and "\<exists>new. fe_out e' = fe_out e @ new \<and> icmp_reply env i e packet new"
    and "r = Err err \<or> r = Panic" and "qsids_ok e \<Longrightarrow> r = Err err"
proof -
  have "same_tables e e' \<and> (\<exists>new. fe_out e' = fe_out e @ new \<and> icmp_reply env i e packet new) \<and>
      (r = Err err \<or> r = Panic) \<and> (qsids_ok e \<longrightarrow> r = Err err)"
  proof (cases "build_icmp_error kind (fe_icmp_source e) packet")
    case None
    then show ?thesis using assms by (auto simp: reject_def send_icmp_error_def fwd_simps icmp_reply_def)
  next
    case (Some reply)
    obtain d e1 where d: "deliver_to_session env i reply e = (d, e1)" by fastforce
    note out = deliver_outcome [OF d]
    show ?thesis
    proof (cases d)
      case (Ok u)
      then have "r = Err err" "same_tables e e'" "fe_out e' = fe_out e1"
        using assms Some d out(1) by (auto simp: reject_def send_icmp_error_def fwd_simps)
      then show ?thesis using out(2) Ok Some by (auto simp: icmp_reply_def)
    next
      case (Err x)
      then show ?thesis using assms Some d out by (auto simp: reject_def send_icmp_error_def fwd_simps icmp_reply_def)
    next
      case Panic
      then show ?thesis using assms Some d out by (auto simp: reject_def send_icmp_error_def fwd_simps icmp_reply_def)
    qed
  qed
  then show "same_tables e e'" and "\<exists>new. fe_out e' = fe_out e @ new \<and> icmp_reply env i e packet new"
    and "r = Err err \<or> r = Panic" and "qsids_ok e \<Longrightarrow> r = Err err" by auto
qed

section \<open>From a client\<close>

text \<open>What a client packet must satisfy to be forwarded, and how it looks after one hop.\<close>

definition admissible ::
    "ipnet_api \<Rightarrow> engine \<Rightarrow> session_id \<Rightarrow> assigned_address list \<Rightarrow> bytes \<Rightarrow> packet_info \<Rightarrow> bytes \<Rightarrow> bool" where
  "admissible api e from assigned p info q \<longleftrightarrow>
     parse_packet p = Ok info \<and> validate_source api info assigned = Ok () \<and> length p \<le> fe_mtu e \<and>
     validate_destination (pi_dst info) = Ok () \<and>
     (\<exists>pol. fe_policies e from = Some pol \<and> policy_allows pol (pi_dst info) (pi_protocol info)) \<and>
     decrement_ttl p = Ok q"

text \<open>What a forwarded packet looks like at the exit the engine chose.\<close>

definition leaves ::
    "net_env \<Rightarrow> ipnet_api \<Rightarrow> engine \<Rightarrow> packet_info \<Rightarrow> bytes \<Rightarrow> forwarded \<Rightarrow> egress \<Rightarrow> bool" where
  "leaves env api e info q fw x = (case fw of
      Hairpin t \<Rightarrow> lookup api (fe_route_table e) (pi_dst info) (pi_protocol info) = Some t \<and>
        session_accepts e t info \<and> length q \<le> session_mtu e t \<and>
        (\<exists>sink. fe_session_sinks e t = Some sink \<and> carries env sink q x)
    | Tun \<Rightarrow> lookup api (fe_route_table e) (pi_dst info) (pi_protocol info) = None \<and>
        fe_tun_tx e \<and> x = TunOut q)"

definition forward_spec ::
    "net_env \<Rightarrow> ipnet_api \<Rightarrow> engine \<Rightarrow> session_id \<Rightarrow> assigned_address list \<Rightarrow> bytes \<Rightarrow>
     (forwarding_error, forwarded) res \<Rightarrow> egress list \<Rightarrow> bool" where
  "forward_spec env api e from assigned p r new = (case r of
      Ok fw \<Rightarrow> \<exists>info q x. admissible api e from assigned p info q \<and> leaves env api e info q fw x \<and> new = [x]
    | Err err \<Rightarrow> icmp_reply env from e p new \<or> (\<exists>q. decrement_ttl p = Ok q \<and> icmp_reply env from e q new)
    | Panic \<Rightarrow> \<not> qsids_ok e)"

lemma parse_no_panic: "parse_packet p \<noteq> Panic"
proof -
  have "ipv6_chain n p x k \<noteq> Panic" for n x k
    by (induction n arbitrary: x k) (auto simp: Let_def)
  then show ?thesis
    by (auto simp: parse_packet_def ipv6_final_protocol_def Let_def res_simps)
qed

lemma validate_no_panic: "validate_source api info assigned \<noteq> Panic" "validate_destination dst \<noteq> Panic"
  by (auto simp: validate_source_def validate_destination_def Let_def)

lemma decrement_no_panic: "parse_packet p = Ok info \<Longrightarrow> decrement_ttl p \<noteq> Panic"
  using decrement_ttl_hop [of p info] by (auto split: if_splits)

lemma spec_reject:
  assumes "reject env from kind q err e = (r, e')" "q = p \<or> decrement_ttl p = Ok q"
  shows "same_tables e e' \<and> (\<exists>new. fe_out e' = fe_out e @ new \<and> forward_spec env api e from assigned p r new)"
proof -
  obtain new where new: "fe_out e' = fe_out e @ new" "icmp_reply env from e q new"
    using reject_outcome(2) [OF assms(1)] by blast
  show ?thesis
    using reject_outcome(1,3,4) [OF assms(1)] new assms(2) by (auto simp: forward_spec_def)
qed

lemma admissible_update [simp]:
  "admissible api (fe_metrics_update f e) from assigned p info q = admissible api e from assigned p info q"
  "admissible api (fe_limiters_update g e) from assigned p info q = admissible api e from assigned p info q"
  by (simp_all add: admissible_def)

lemma qsids_ok_update [simp]:
  "qsids_ok (fe_metrics_update f e) = qsids_ok e" "qsids_ok (fe_limiters_update g e) = qsids_ok e"
  by (simp_all add: qsids_ok_def)

lemma icmp_reply_update [simp]:
  "icmp_reply env from (fe_metrics_update f e) p new = icmp_reply env from e p new"
  "icmp_reply env from (fe_limiters_update g e) p new = icmp_reply env from e p new"
  by (simp_all add: icmp_reply_def)

lemma session_update [simp]:
  "session_accepts (fe_metrics_update f e) t info = session_accepts e t info"
  "session_accepts (fe_limiters_update g e) t info = session_accepts e t info"
  "session_mtu (fe_metrics_update f e) t = session_mtu e t"
  "session_mtu (fe_limiters_update g e) t = session_mtu e t"
  by (simp_all add: session_accepts_def session_mtu_def split: option.split)

lemma leaves_update [simp]:
  "leaves env api (fe_metrics_update f e) info q fw x = leaves env api e info q fw x"
  "leaves env api (fe_limiters_update g e) info q fw x = leaves env api e info q fw x"
  by (simp_all add: leaves_def split: forwarded.split)

lemma spec_update [simp]:
  "forward_spec env api (fe_metrics_update f e) from assigned p r new = forward_spec env api e from assigned p r new"
  "forward_spec env api (fe_limiters_update g e) from assigned p r new = forward_spec env api e from assigned p r new"
  by (simp_all add: forward_spec_def split: res.split)

lemma spec_silent [simp]: "forward_spec env api e from assigned p (Err err) []"
  by (simp add: forward_spec_def icmp_reply_def)

lemma hairpin_spec:
  assumes "admissible api e from assigned p info q"
    "lookup api (fe_route_table e) (pi_dst info) (pi_protocol info) = Some t"
    "hairpin env from t info q e = (r, e')"
  shows "same_tables e e' \<and> (\<exists>new. fe_out e' = fe_out e @ new \<and> forward_spec env api e from assigned p r new)"
proof -
  have q: "q = p \<or> decrement_ttl p = Ok q" using assms(1) by (simp add: admissible_def)
  show ?thesis
  proof (cases "session_accepts e t info")
    case False
    then show ?thesis using assms(3) spec_reject [OF _ q] by (auto simp: hairpin_def)
  next
    case acc: True
    show ?thesis
    proof (cases "length q > session_mtu e t")
      case True
      let ?e = "fe_metrics_update (metric_incr packets_mtu_dropped_total_update) e"
      have "reject env from (PacketTooBig (word_of_nat (session_mtu e t))) q MtuExceeded ?e = (r, e')"
        using assms(3) acc True by (simp add: hairpin_def count_def rbind_basic)
      from spec_reject [OF this q, of api assigned] show ?thesis by simp
    next
      case False
      obtain d e1 where d: "deliver_to_session env t q e = (d, e1)" by fastforce
      note out = deliver_outcome [OF d]
      show ?thesis
      proof (cases d)
        case (Ok u)
        then have "r = Ok (Hairpin t)" "e' = e1"
          using assms(3) acc False d by (auto simp: hairpin_def fwd_simps)
        then show ?thesis
          using out(1,2) Ok assms(1,2) acc False by (fastforce simp: forward_spec_def leaves_def)
      next
        case (Err x)
        then have "r = Err x" "e' = e1"
          using assms(3) acc False d by (auto simp: hairpin_def fwd_simps)
        then show ?thesis using out(1,3) Err by (simp add: forward_spec_def icmp_reply_def)
      next
        case Panic
        then have "r = Panic" "e' = e1"
          using assms(3) acc False d by (auto simp: hairpin_def fwd_simps)
        then show ?thesis using out(1,3,4) Panic by (auto simp: forward_spec_def)
      qed
    qed
  qed
qed

lemma forward_validated_spec:
  assumes "forward_validated env api from assigned p e = (r, e')"
  shows "same_tables e e' \<and> (\<exists>new. fe_out e' = fe_out e @ new \<and> forward_spec env api e from assigned p r new)"
proof (cases "\<exists>info. parse_packet p = Ok info \<and> validate_source api info assigned = Ok ()")
  case False
  have "\<exists>err. forward_validated env api from assigned p e = (Err err, e)"
  proof (cases "parse_packet p")
    case (Ok info)
    then obtain err where "validate_source api info assigned = Err err"
      using False validate_no_panic(1) [of api info assigned] by (cases "validate_source api info assigned") auto
    then show ?thesis using Ok by (simp add: forward_validated_def rbind_basic)
  next
    case (Err x)
    then show ?thesis by (simp add: forward_validated_def rbind_basic)
  next
    case Panic
    then show ?thesis using parse_no_panic by blast
  qed
  then show ?thesis using assms by auto
next
  case True
  then obtain info where info: "parse_packet p = Ok info" "validate_source api info assigned = Ok ()" by blast
  let ?allowed = "case fe_policies e from of Some pol \<Rightarrow> policy_allows pol (pi_dst info) (pi_protocol info) | None \<Rightarrow> False"
  show ?thesis
  proof (cases "length p > fe_mtu e")
    case True
    then have "reject env from (PacketTooBig (word_of_nat (fe_mtu e))) p MtuExceeded e = (r, e')"
      using assms info by (simp add: forward_validated_def rbind_basic)
    then show ?thesis by (rule spec_reject) simp
  next
    case len: False
    show ?thesis
    proof (cases "validate_destination (pi_dst info) = Ok () \<and> ?allowed")
      case False
      show ?thesis
      proof (cases "validate_destination (pi_dst info)")
        case (Ok u)
        then have "reject env from AdminProhibited p (NotAllowed (pi_dst info)) e = (r, e')"
          using assms info len False by (auto simp: forward_validated_def rbind_basic)
        then show ?thesis by (rule spec_reject) simp
      next
        case (Err x)
        then have "r = Err x" "e' = e"
          using assms info len by (auto simp: forward_validated_def rbind_basic)
        then show ?thesis by simp
      qed (use validate_no_panic(2) in blast)
    next
      case ok: True
      show ?thesis
      proof (cases "decrement_ttl p")
        case (Ok q)
        have adm: "admissible api e from assigned p info q"
          using info len ok Ok by (auto simp: admissible_def split: option.splits)
        let ?dst = "lookup api (fe_route_table e) (pi_dst info) (pi_protocol info)"
        have run: "(case ?dst of Some target \<Rightarrow> hairpin env from target info q
            | None \<Rightarrow> if fe_tun_tx e then (if ne_tun_ok env q then rbind (emit (TunOut q)) (\<lambda>_. rret Tun) else rfail Congested)
                else reject env from KNoRoute q NoRoute) e = (r, e')"
          using assms info len ok Ok by (simp add: forward_validated_def rbind_basic)
        show ?thesis
        proof (cases ?dst)
          case (Some t)
          then show ?thesis using hairpin_spec [OF adm Some] run by simp
        next
          case None
          show ?thesis
          proof (cases "fe_tun_tx e")
            case True
            then show ?thesis
              using None run adm
              by (auto simp: fwd_simps forward_spec_def leaves_def icmp_reply_def split: if_splits)
          next
            case False
            then have "reject env from KNoRoute q NoRoute e = (r, e')" using None run by simp
            then show ?thesis by (rule spec_reject) (simp add: Ok)
          qed
        qed
      next
        case (Err x)
        show ?thesis
        proof (cases "x = TtlExpired")
          case True
          then have "reject env from TimeExceeded p TtlExpired e = (r, e')"
            using assms info len ok Err by (auto simp: forward_validated_def rbind_basic)
          then show ?thesis by (rule spec_reject) simp
        next
          case False
          then have "r = Err x" "e' = e"
            using assms info len ok Err
            by (cases x; simp add: forward_validated_def rbind_basic rfail_def)+
          then show ?thesis by simp
        qed
      qed (use decrement_no_panic info in blast)
    qed
  qed
qed

text \<open>The four outcomes of a client packet are counted apart; their sum counts the packets.\<close>

definition packets_seen :: "metrics \<Rightarrow> u64" where
  "packets_seen m = packets_hairpin_total m + packets_tun_out_total m + packets_dropped_total m +
     packets_rate_limited_total m"

lemma limiter_step_update:
  "\<exists>g. limiter_step env from packet e = (fst (limiter_step env from packet e), fe_limiters_update g e) \<and>
     dom (g (fe_limiters e)) = dom (fe_limiters e)"
proof (cases "fe_limiters e from")
  case None
  then show ?thesis by (intro exI [of _ "\<lambda>x. x"]) (simp add: limiter_step_def)
next
  case (Some l)
  obtain ok l' where "try_consume_at (word_of_nat (length packet)) (ne_now env) l = (ok, l')" by fastforce
  then have "limiter_step env from packet e = (ok, fe_limiters_update (\<lambda>m. m(from \<mapsto> l')) e)"
    using Some by (simp add: limiter_step_def)
  then show ?thesis using Some by (intro exI [of _ "\<lambda>m. m(from \<mapsto> l')"]) auto
qed

definition same_but_limiters :: "engine \<Rightarrow> engine \<Rightarrow> bool" where
  "same_but_limiters e e' \<longleftrightarrow>
     e'\<lparr>fe_metrics := fe_metrics e, fe_out := fe_out e, fe_limiters := fe_limiters e\<rparr> = e"

lemma forward_from_client_spec:
  assumes "forward_from_client env api from assigned p e = (r, e')"
  shows "\<exists>new. fe_out e' = fe_out e @ new \<and> forward_spec env api e from assigned p r new"
    and "same_but_limiters e e'" and "dom (fe_limiters e') = dom (fe_limiters e)"
    and "r \<noteq> Panic \<Longrightarrow> packets_seen (fe_metrics e') = packets_seen (fe_metrics e) + 1 \<and>
      bytes_from_client_total (fe_metrics e') = bytes_from_client_total (fe_metrics e) + word_of_nat (length p)"
proof -
  let ?e1 = "fe_metrics_update (metric_add bytes_from_client_total_update (word_of_nat (length p))) e"
  obtain ok g where l: "limiter_step env from p ?e1 = (ok, fe_limiters_update g ?e1)"
    and g: "dom (g (fe_limiters ?e1)) = dom (fe_limiters ?e1)"
    using limiter_step_update by blast
  let ?e2 = "fe_limiters_update g ?e1"
  have "(\<exists>new. fe_out e' = fe_out e @ new \<and> forward_spec env api e from assigned p r new) \<and>
    same_but_limiters e e' \<and> dom (fe_limiters e') = dom (fe_limiters e) \<and> (r \<noteq> Panic \<longrightarrow> packets_seen (fe_metrics e') = packets_seen (fe_metrics e) + 1 \<and>
      bytes_from_client_total (fe_metrics e') = bytes_from_client_total (fe_metrics e) + word_of_nat (length p))"
  proof (cases ok)
    case False
    then have "r = Err RateLimited" "e' = fe_metrics_update (metric_incr packets_rate_limited_total_update) ?e2"
      using assms l by (simp_all add: forward_from_client_def fwd_simps)
    then show ?thesis using g
      by (cases e) (simp add: same_but_limiters_def packets_seen_def metric_incr_def metric_add_def)
  next
    case True
    obtain r1 e3 where f: "forward_validated env api from assigned p ?e2 = (r1, e3)" by fastforce
    from forward_validated_spec [OF f] obtain new where
      st: "same_tables ?e2 e3" and new: "fe_out e3 = fe_out e @ new" "forward_spec env api e from assigned p r1 new"
      by auto
    have tot: "intake (fe_metrics e3) = intake (fe_metrics ?e2)"
      and rest: "e3\<lparr>fe_metrics := fe_metrics ?e2, fe_out := fe_out ?e2\<rparr> = ?e2"
      using st by (simp_all add: same_tables_def)
    have sbl: "same_but_limiters e e3 \<and> dom (fe_limiters e3) = dom (fe_limiters e)"
      using rest g by (cases e; cases e3) (auto simp: same_but_limiters_def)
    show ?thesis
    proof (cases r1)
      case Panic
      then have "r = Panic" "e' = e3"
        using assms l True f by (simp_all add: forward_from_client_def fwd_simps)
      then show ?thesis using new sbl Panic by auto
    next
      case (Err x)
      then have "r = Err x" "e' = fe_metrics_update (metric_incr packets_dropped_total_update) e3"
        using assms l True f by (simp_all add: forward_from_client_def fwd_simps)
      then show ?thesis
        using new sbl Err tot by (cases e; cases e3)
          (auto simp: same_but_limiters_def packets_seen_def intake_def metric_incr_def metric_add_def)
    next
      case (Ok fw)
      then have "r = Ok fw" "e' = fe_metrics_update (case fw of Hairpin _ \<Rightarrow> metric_incr packets_hairpin_total_update
          | Tun \<Rightarrow> metric_incr packets_tun_out_total_update) e3"
        using assms l True f
        by (cases fw; simp add: forward_from_client_def fwd_simps)+
      then show ?thesis
        using new sbl Ok tot by (cases e; cases e3; cases fw)
          (auto simp: same_but_limiters_def packets_seen_def intake_def metric_incr_def metric_add_def)
    qed
  qed
  then show "\<exists>new. fe_out e' = fe_out e @ new \<and> forward_spec env api e from assigned p r new"
    and "same_but_limiters e e'" and "dom (fe_limiters e') = dom (fe_limiters e)"
    and "r \<noteq> Panic \<Longrightarrow> packets_seen (fe_metrics e') = packets_seen (fe_metrics e) + 1 \<and>
      bytes_from_client_total (fe_metrics e') = bytes_from_client_total (fe_metrics e) + word_of_nat (length p)"
    by auto
qed

section \<open>Properties\<close>

lemma validate_source_Ok:
  "validate_source api info assigned = Ok () \<longleftrightarrow> (\<exists>a net. a \<in> set assigned \<and>
     net_new api (aa_ip_address a) (aa_prefix_length a) = Some net \<and> net_contains api net (pi_src info))"
  by (auto simp: validate_source_def list_ex_iff split: option.splits)

text \<open>Two clients behind one proxy: session 7 owns 192.0.2.1, session 9 owns 198.51.100.2.\<close>

definition sample_full_range :: egress_policy where
  "sample_full_range = [\<lparr>ir_ip_version = 4, ir_start_ip = V4 0, ir_end_ip = V4 0xFFFFFFFF, ir_ip_protocol = 0\<rparr>]"

definition sample_engine :: engine where
  "sample_engine =
     register_session 0 9 (SinkDatagram 2 1) sample_full_range 1400
       (register_session 0 7 (SinkDatagram 1 0) sample_full_range 1400
         (fe_new (insert_client_addr (V4 0xC6336402) 9 (insert_client_addr (V4 0xC0000201) 7 rt_new))
            False 1500 sample_source \<lparr>packets_per_sec = 0, bytes_per_sec = 0\<rparr> metrics_default))"

definition sample_env :: net_env where
  "sample_env = \<lparr>ne_now = 0, ne_max_datagram_size = (\<lambda>_. None), ne_send_ok = (\<lambda>_ _. True),
     ne_queue_ok = (\<lambda>_ _. True), ne_tun_ok = (\<lambda>_. True)\<rparr>"

definition sample_assigned :: "assigned_address list" where
  "sample_assigned = [\<lparr>aa_request_id = 0, aa_ip_version = 4, aa_ip_address = V4 0xC0000201, aa_prefix_length = 32\<rparr>]"

definition sample_info :: packet_info where
  "sample_info = \<lparr>pi_version = 4, pi_src = V4 0xC0000201, pi_dst = V4 0xC6336402, pi_protocol = 1\<rparr>"

lemma sample_parses: "parse_packet sample_packet = Ok sample_info"
  by (simp add: parse_sample_packet sample_info_def)

lemma sample_engine_simps [simp]:
  "fe_limiters sample_engine = Map.empty" "fe_mtu sample_engine = 1500" "fe_out sample_engine = []"
  "fe_policies sample_engine = [7 \<mapsto> sample_full_range, 9 \<mapsto> sample_full_range]"
  "fe_session_sinks sample_engine = [7 \<mapsto> SinkDatagram 1 0, 9 \<mapsto> SinkDatagram 2 1]"
  "fe_session_mtus sample_engine = [7 \<mapsto> 1400, 9 \<mapsto> 1400]"
  "lookup api (fe_route_table sample_engine) (V4 0xC6336402) proto = Some 9"
  by (simp_all add: sample_engine_def register_session_def fe_new_def is_unlimited_def lookup_def
    insert_client_addr_def)

lemma sample_allowed: "policy_allows sample_full_range (V4 a) proto"
  by (simp add: policy_allows_def sample_full_range_def range_contains_iff proto_ok_def word_le_nat_alt
    unat_u32_less [of a, THEN less_imp_le_nat] Suc_leI [of _ "4294967296::nat", simplified])

lemma sample_qsids: "qsids_ok sample_engine"
  by (auto simp: qsids_ok_def VARINT_MAX_def split: if_splits)

lemma sample_source_ok: "validate_source ref_ipnet sample_info sample_assigned = Ok ()"
  by (simp add: validate_source_def sample_assigned_def sample_info_def ref_ipnet_def ref_v4_contains_def
    ref_v4_network_def ref_v4_broadcast_def block_base_def block_top_def)

lemma sample_destination_ok: "validate_destination (pi_dst sample_info) = Ok ()"
  by (simp add: validate_destination_def sample_info_def is_loopback4_def is_link_local4_def
    is_unspecified4_def is_broadcast4_def)

lemma sample_accepts: "session_accepts sample_engine 9 sample_info"
  by (simp add: session_accepts_def sample_info_def sample_allowed)

lemma sample_hop: "\<exists>q. decrement_ttl sample_packet = Ok q \<and> length q = 28"
proof -
  have h: "hop_index sample_packet = 8" "sample_packet ! 8 = 64" "length sample_packet = 28"
    by (simp_all add: hop_index_def sample_packet_def ver_def)
  show ?thesis using decrement_ttl_hop [OF sample_parses] unfolding h by (auto simp: word_le_nat_alt)
qed

lemma sample_forward:
  "\<exists>e'. forward_from_client sample_env ref_ipnet 7 sample_assigned sample_packet sample_engine = (Ok (Hairpin 9), e')"
proof -
  obtain q where q: "decrement_ttl sample_packet = Ok q" "length q = 28" using sample_hop by blast
  obtain wire where w: "encode_quic_datagram 1 (dg_ip_packet q) = Ok wire"
    using encode_quic_no_panic [of 1 q] by (auto simp: VARINT_MAX_def)
  define dst where "dst = pi_dst sample_info"
  have dst: "dst = V4 0xC6336402" by (simp add: dst_def sample_info_def)
  let ?e = "fe_metrics_update (metric_add bytes_from_client_total_update (word_of_nat (length sample_packet))) sample_engine"
  have "fst (hairpin sample_env 7 9 sample_info q ?e) = Ok (Hairpin 9)"
    using q w sample_accepts by (simp add: hairpin_def deliver_to_session_def fwd_simps session_mtu_def sample_env_def)
  moreover have "forward_validated sample_env ref_ipnet 7 sample_assigned sample_packet ?e =
      hairpin sample_env 7 9 sample_info q ?e"
    using q sample_source_ok sample_destination_ok sample_allowed sample_parses
    by (simp add: forward_validated_def rbind_basic flip: dst_def) (simp add: dst sample_packet_def)
  ultimately show ?thesis
    by (cases "hairpin sample_env 7 9 sample_info q ?e")
       (auto simp: forward_from_client_def limiter_step_def fwd_simps)
qed

text \<open>
  C5: the proxy is no open relay. A packet a client sends is forwarded only if it parses, its
  source lies in an address assigned to the session (BCP 38), it fits the MTU, its destination
  is not loopback, link-local, unspecified or broadcast, lies in a range advertised to the
  session for its protocol, and its TTL survives the hop. Then exactly one packet leaves, the
  received one after that hop: to the session the route table names, if that session's scope
  accepts the sender and its MTU the size, and to the TUN device only when no session owns the
  destination.
\<close>

theorem forward_safe:
  assumes "forward_from_client env api src assigned p e = (Ok fw, e')"
  shows "\<exists>info a net pol q x. parse_packet p = Ok info \<and> a \<in> set assigned \<and>
    net_new api (aa_ip_address a) (aa_prefix_length a) = Some net \<and> net_contains api net (pi_src info) \<and>
    length p \<le> fe_mtu e \<and> validate_destination (pi_dst info) = Ok () \<and>
    fe_policies e src = Some pol \<and> policy_allows pol (pi_dst info) (pi_protocol info) \<and>
    decrement_ttl p = Ok q \<and> fe_out e' = fe_out e @ [x] \<and>
    (case fw of
       Hairpin t \<Rightarrow> lookup api (fe_route_table e) (pi_dst info) (pi_protocol info) = Some t \<and>
         session_accepts e t info \<and> length q \<le> session_mtu e t \<and>
         (\<exists>sink. fe_session_sinks e t = Some sink \<and> carries env sink q x)
     | Tun \<Rightarrow> lookup api (fe_route_table e) (pi_dst info) (pi_protocol info) = None \<and>
         fe_tun_tx e \<and> x = TunOut q)"
proof -
  obtain info q x where "admissible api e src assigned p info q" "leaves env api e info q fw x"
      "fe_out e' = fe_out e @ [x]"
    using forward_from_client_spec(1) [OF assms] by (auto simp: forward_spec_def)
  then show ?thesis unfolding admissible_def leaves_def validate_source_Ok by blast
qed

theorem forward_safe_witness:
  "\<exists>e' q x. forward_from_client sample_env ref_ipnet 7 sample_assigned sample_packet sample_engine = (Ok (Hairpin 9), e') \<and>
     decrement_ttl sample_packet = Ok q \<and> fe_out e' = [x] \<and> carries sample_env (SinkDatagram 2 1) q x"
proof -
  obtain e' where e: "forward_from_client sample_env ref_ipnet 7 sample_assigned sample_packet sample_engine =
      (Ok (Hairpin 9), e')" using sample_forward by blast
  show ?thesis using forward_safe [OF e] e by (fastforce simp del: carries.simps)
qed

text \<open>
  C14: refused packets leak nothing. With Quarter Stream IDs in range the engine never panics, and
  when it refuses a client packet nothing leaves except possibly one ICMP error, about that
  packet and to the session that sent it.
\<close>

theorem forward_refused:
  assumes "qsids_ok e"
  shows "case forward_from_client env api src assigned p e of
      (Ok fw, e') \<Rightarrow> True
    | (Panic, e') \<Rightarrow> False
    | (Err err, e') \<Rightarrow> fe_out e' = fe_out e \<or>
        (\<exists>q kind reply sink x. (q = p \<or> decrement_ttl p = Ok q) \<and>
          build_icmp_error kind (fe_icmp_source e) q = Some reply \<and> fe_session_sinks e src = Some sink \<and>
          carries env sink reply x \<and> fe_out e' = fe_out e @ [x])"
proof -
  obtain r e' where f: "forward_from_client env api src assigned p e = (r, e')" by fastforce
  note spec = forward_from_client_spec(1) [OF f]
  show ?thesis
  proof (cases r)
    case (Err err)
    then obtain new q where "fe_out e' = fe_out e @ new" "q = p \<or> decrement_ttl p = Ok q" "icmp_reply env src e q new"
      using spec by (auto simp: forward_spec_def)
    then have "fe_out e' = fe_out e \<or>
        (\<exists>q kind reply sink x. (q = p \<or> decrement_ttl p = Ok q) \<and>
          build_icmp_error kind (fe_icmp_source e) q = Some reply \<and> fe_session_sinks e src = Some sink \<and>
          carries env sink reply x \<and> fe_out e' = fe_out e @ [x])"
      unfolding icmp_reply_def by (metis append_Nil2)
    then show ?thesis unfolding f Err by simp
  qed (use spec assms in \<open>auto simp: f forward_spec_def\<close>)
qed

theorem forward_refused_witness:
  "qsids_ok sample_engine \<and>
   (case forward_from_client sample_env ref_ipnet 7 sample_assigned [0xFF] sample_engine of
      (Ok fw, e') \<Rightarrow> True
    | (Panic, e') \<Rightarrow> False
    | (Err err, e') \<Rightarrow> fe_out e' = [] \<or>
        (\<exists>q kind reply sink x. (q = [0xFF] \<or> decrement_ttl [0xFF] = Ok q) \<and>
          build_icmp_error kind (fe_icmp_source sample_engine) q = Some reply \<and>
          fe_session_sinks sample_engine 7 = Some sink \<and> carries sample_env sink reply x \<and> fe_out e' = [x]))"
  using forward_refused [OF sample_qsids, where env = sample_env and api = ref_ipnet and src = 7 and
      assigned = sample_assigned and p = "[0xFF]"] sample_qsids
  by (simp only: sample_engine_simps append_Nil)

text \<open>
  The counters account for every client packet once: each call increments exactly one of
  hairpin, TUN, dropped and rate-limited, and adds the packet's length to the bytes received.
\<close>

theorem forward_counted_once:
  assumes "qsids_ok e" "forward_from_client env api src assigned p e = (r, e')"
  shows "packets_seen (fe_metrics e') = packets_seen (fe_metrics e) + 1 \<and>
    bytes_from_client_total (fe_metrics e') = bytes_from_client_total (fe_metrics e) + word_of_nat (length p)"
proof -
  have "r \<noteq> Panic" using forward_from_client_spec(1) [OF assms(2)] assms(1) by (auto simp: forward_spec_def)
  then show ?thesis using forward_from_client_spec(4) [OF assms(2)] by simp
qed

theorem forward_counted_once_witness:
  "\<exists>r e'. qsids_ok sample_engine \<and>
     forward_from_client sample_env ref_ipnet 7 sample_assigned sample_packet sample_engine = (r, e') \<and>
     packets_seen (fe_metrics e') = packets_seen (fe_metrics sample_engine) + 1"
proof -
  obtain r e' where e: "forward_from_client sample_env ref_ipnet 7 sample_assigned sample_packet sample_engine = (r, e')"
    by fastforce
  show ?thesis using forward_counted_once [OF sample_qsids e] sample_qsids e by blast
qed

lemma forward_passes:
  assumes "fe_limiters e src = None" "parse_packet p = Ok info" "validate_source api info assigned = Ok ()"
    "length p \<le> fe_mtu e" "validate_destination (pi_dst info) = Ok ()" "fe_policies e src = Some pol"
    "policy_allows pol (pi_dst info) (pi_protocol info)" "p ! hop_index p > 1"
  shows "\<exists>q. decrement_ttl p = Ok q \<and>
    (case lookup api (fe_route_table e) (pi_dst info) (pi_protocol info) of
       None \<Rightarrow> fe_tun_tx e \<and> ne_tun_ok env q \<longrightarrow> fst (forward_from_client env api src assigned p e) = Ok Tun
     | Some t \<Rightarrow> session_accepts e t info \<and> length p \<le> session_mtu e t \<and>
         (\<exists>conn qsid wire. fe_session_sinks e t = Some (SinkDatagram conn qsid) \<and>
           encode_quic_datagram qsid (dg_ip_packet q) = Ok wire \<and> ne_send_ok env conn wire \<and>
           (case ne_max_datagram_size env conn of Some m \<Rightarrow> length wire \<le> m | None \<Rightarrow> True)) \<longrightarrow>
         fst (forward_from_client env api src assigned p e) = Ok (Hairpin t))"
proof -
  have "\<not> p ! hop_index p \<le> 1" using assms(8) by simp
  then obtain q where q: "decrement_ttl p = Ok q" "length q = length p"
    using decrement_ttl_hop [OF assms(2)] by auto
  let ?dst = "lookup api (fe_route_table e) (pi_dst info) (pi_protocol info)"
  let ?e1 = "fe_metrics_update (metric_add bytes_from_client_total_update (word_of_nat (length p))) e"
  have run: "forward_validated env api src assigned p ?e1 =
      (case ?dst of Some target \<Rightarrow> hairpin env src target info q
       | None \<Rightarrow> if fe_tun_tx e then (if ne_tun_ok env q then rbind (emit (TunOut q)) (\<lambda>_. rret Tun) else rfail Congested)
           else reject env src KNoRoute q NoRoute) ?e1"
    using assms q by (simp add: forward_validated_def rbind_basic)
  have out: "fst (forward_from_client env api src assigned p e) = Ok fw"
    if "fst (forward_validated env api src assigned p ?e1) = Ok fw" for fw
    using that assms(1) by (cases "forward_validated env api src assigned p ?e1"; cases fw)
      (auto simp: forward_from_client_def limiter_step_def fwd_simps)
  show ?thesis
  proof (cases ?dst)
    case None
    then show ?thesis using q out [of Tun] run by (auto simp: fwd_simps)
  next
    case (Some t)
    have "fst (hairpin env src t info q ?e1) = Ok (Hairpin t)"
      if "session_accepts e t info" "length p \<le> session_mtu e t" "fe_session_sinks e t = Some (SinkDatagram conn qsid)"
        "encode_quic_datagram qsid (dg_ip_packet q) = Ok wire" "ne_send_ok env conn wire"
        "case ne_max_datagram_size env conn of Some m \<Rightarrow> length wire \<le> m | None \<Rightarrow> True" for conn qsid wire
      using that q by (auto simp: hairpin_def deliver_to_session_def fwd_simps split: option.splits)
    then show ?thesis using q Some run out [of "Hairpin t"] by auto
  qed
qed

text \<open>
  C13: no false drops. An unlimited session's packet that passes every check is forwarded: through
  the sink of the session that owns its destination when that session accepts it and its
  connection takes the datagram, and to the TUN device when no session owns it and the device's
  queue takes it.
\<close>

theorem forward_complete:
  assumes "fe_limiters e src = None" "parse_packet p = Ok info" "validate_source api info assigned = Ok ()"
    "length p \<le> fe_mtu e" "validate_destination (pi_dst info) = Ok ()" "fe_policies e src = Some pol"
    "policy_allows pol (pi_dst info) (pi_protocol info)" "p ! hop_index p > 1"
  shows "\<exists>q. decrement_ttl p = Ok q \<and>
    (case lookup api (fe_route_table e) (pi_dst info) (pi_protocol info) of
       None \<Rightarrow> fe_tun_tx e \<and> ne_tun_ok env q \<longrightarrow> fst (forward_from_client env api src assigned p e) = Ok Tun
     | Some t \<Rightarrow> session_accepts e t info \<and> length p \<le> session_mtu e t \<and>
         (\<exists>conn qsid wire. fe_session_sinks e t = Some (SinkDatagram conn qsid) \<and>
           encode_quic_datagram qsid (dg_ip_packet q) = Ok wire \<and> ne_send_ok env conn wire \<and>
           (case ne_max_datagram_size env conn of Some m \<Rightarrow> length wire \<le> m | None \<Rightarrow> True)) \<longrightarrow>
         fst (forward_from_client env api src assigned p e) = Ok (Hairpin t))"
  by (rule forward_passes) (fact assms)+

theorem forward_complete_witness:
  "fst (forward_from_client sample_env ref_ipnet 7 sample_assigned sample_packet sample_engine) = Ok (Hairpin 9)"
proof -
  obtain q where q: "decrement_ttl sample_packet = Ok q" using sample_hop by blast
  obtain wire where w: "encode_quic_datagram 1 (dg_ip_packet q) = Ok wire"
    using encode_quic_no_panic [of 1 q] by (auto simp: VARINT_MAX_def)
  have hop: "sample_packet ! hop_index sample_packet > 1"
    by (simp add: sample_packet_def hop_index_def ver_def word_less_nat_alt)
  have pol: "policy_allows sample_full_range (pi_dst sample_info) (pi_protocol sample_info)"
    by (simp add: sample_info_def sample_allowed)
  have dst: "lookup ref_ipnet (fe_route_table sample_engine) (pi_dst sample_info) (pi_protocol sample_info) = Some 9"
    by (simp add: sample_info_def)
  have "fe_session_sinks sample_engine 9 = Some (SinkDatagram 2 1)" "length sample_packet \<le> session_mtu sample_engine 9"
      "ne_send_ok sample_env 2 wire" "ne_max_datagram_size sample_env 2 = None"
    by (simp_all add: session_mtu_def sample_packet_def sample_env_def)
  then show ?thesis
    using forward_complete [of sample_engine 7 sample_packet sample_info ref_ipnet sample_assigned sample_full_range,
        where env = sample_env]
      sample_parses sample_source_ok sample_destination_ok hop pol q w sample_accepts
    unfolding dst by (auto simp: sample_packet_def)
qed

lemma dispatch_outcome:
  assumes "dispatch_from_network env api p e = (r, e')"
  shows "same_tables e e'"
    and "case r of
      Ok t \<Rightarrow> \<exists>info q sink x. parse_packet p = Ok info \<and>
        lookup api (fe_route_table e) (pi_dst info) (pi_protocol info) = Some t \<and> session_accepts e t info \<and>
        length p \<le> session_mtu e t \<and> decrement_ttl p = Ok q \<and> fe_session_sinks e t = Some sink \<and>
        carries env sink q x \<and> fe_out e' = fe_out e @ [x]
    | _ \<Rightarrow> fe_out e' = fe_out e"
proof -
  let ?safe = "\<lambda>r. case r of
      Ok t \<Rightarrow> \<exists>info q sink x. parse_packet p = Ok info \<and>
        lookup api (fe_route_table e) (pi_dst info) (pi_protocol info) = Some t \<and> session_accepts e t info \<and>
        length p \<le> session_mtu e t \<and> decrement_ttl p = Ok q \<and> fe_session_sinks e t = Some sink \<and>
        carries env sink q x \<and> fe_out e' = fe_out e @ [x]
    | _ \<Rightarrow> fe_out e' = fe_out e"
  have "same_tables e e' \<and> ?safe r"
  proof (cases "\<exists>info t q. parse_packet p = Ok info \<and>
      lookup api (fe_route_table e) (pi_dst info) (pi_protocol info) = Some t \<and> session_accepts e t info \<and>
      length p \<le> session_mtu e t \<and> decrement_ttl p = Ok q")
    case True
    then obtain info t q where h: "parse_packet p = Ok info"
        "lookup api (fe_route_table e) (pi_dst info) (pi_protocol info) = Some t" "session_accepts e t info"
        "length p \<le> session_mtu e t" "decrement_ttl p = Ok q" by blast
    obtain d e1 where d: "deliver_to_session env t q e = (d, e1)" by fastforce
    have run: "e' = e1" "r = (case d of Ok _ \<Rightarrow> Ok t | Err x \<Rightarrow> Err x | Panic \<Rightarrow> Panic)"
      using assms h d by (auto simp: dispatch_from_network_def fwd_simps ok_or_def split: res.splits)
    show ?thesis
      using deliver_outcome(1,2,3) [OF d] run h by (cases d) auto
  next
    case False
    then have "same_tables e e' \<and> fe_out e' = fe_out e \<and> (\<forall>t. r \<noteq> Ok t)"
      using assms by (auto simp: dispatch_from_network_def fwd_simps ok_or_def split: res.splits option.splits if_splits)
    then show ?thesis by (cases r) auto
  qed
  then show "same_tables e e'" "?safe r" by simp_all
qed

text \<open>
  C15: packets from the network reach only the session that owns their destination, after one
  hop, when its scope accepts the sender and its MTU the size; a refused one leaves no trace, not
  even an ICMP error.
\<close>

theorem dispatch_safe:
  assumes "dispatch_from_network env api p e = (r, e')"
  shows "case r of
      Ok t \<Rightarrow> \<exists>info q sink x. parse_packet p = Ok info \<and>
        lookup api (fe_route_table e) (pi_dst info) (pi_protocol info) = Some t \<and> session_accepts e t info \<and>
        length p \<le> session_mtu e t \<and> decrement_ttl p = Ok q \<and> fe_session_sinks e t = Some sink \<and>
        carries env sink q x \<and> fe_out e' = fe_out e @ [x]
    | _ \<Rightarrow> fe_out e' = fe_out e"
  by (rule dispatch_outcome(2) [OF assms])

theorem dispatch_safe_witness:
  "\<exists>q sink x e'. dispatch_from_network sample_env ref_ipnet sample_packet sample_engine = (Ok 9, e') \<and>
     decrement_ttl sample_packet = Ok q \<and> fe_session_sinks sample_engine 9 = Some sink \<and>
     carries sample_env sink q x \<and> fe_out e' = [x]"
proof -
  obtain q where q: "decrement_ttl sample_packet = Ok q" using sample_hop by blast
  obtain wire where w: "encode_quic_datagram 1 (dg_ip_packet q) = Ok wire"
    using encode_quic_no_panic [of 1 q] by (auto simp: VARINT_MAX_def)
  have "fst (dispatch_from_network sample_env ref_ipnet sample_packet sample_engine) = Ok 9"
    using q w sample_accepts sample_parses
    by (simp add: dispatch_from_network_def deliver_to_session_def fwd_simps sample_info_def ok_or_def
      session_mtu_def sample_env_def) (simp add: sample_packet_def)
  then obtain e' where e: "dispatch_from_network sample_env ref_ipnet sample_packet sample_engine = (Ok 9, e')"
    by (metis prod.collapse)
  show ?thesis using dispatch_safe [OF e] e by (fastforce simp del: carries.simps)
qed

end
