(* ===== verification/Proxy_Error.thy ===== *)
theory Proxy_Error
  imports Buf_Reader Text
begin

text \<open>
  The top-level error of \<open>src/src/error.rs\<close>. Errors of the network stacks carry the message of
  the library, which is a parameter wherever it occurs.
\<close>

datatype proxy_error =
    PDecode decode_error
  | PForwarding forwarding_error
  | PIo string
  | InvalidRequest string
  | AuthFailed string
  | SessionNotFound u64
  | PTls string
  | PQuic string
  | PHttp string
  | PConfig string
  | DnsFailure string
  | PoolExhausted

text \<open>The conversions from the h3 and QUIC error types keep their text.\<close>

definition of_h3_error :: "string \<Rightarrow> proxy_error" where
  "of_h3_error e = PHttp e"

definition of_quic_error :: "string \<Rightarrow> proxy_error" where
  "of_quic_error e = PQuic e"

end
