(* ===== verification/Ip_Text.thy ===== *)
theory Ip_Text
  imports Net_Types Text
begin

unbundle bit_operations_syntax

text \<open>
  Textual IP addresses as \<open>std::net\<close> parses and prints them. The parser works on the characters
  not yet read and gives them back unread when it fails, as \<open>read_atomically\<close> does.
\<close>

section \<open>Parsing\<close>

type_synonym 'a scanner = "string \<Rightarrow> ('a \<times> string) option"

definition read_char :: "char \<Rightarrow> unit scanner" where
  "read_char c s = (case s of [] \<Rightarrow> None | x # xs \<Rightarrow> if x = c then Some ((), xs) else None)"

text \<open>\<open>read_number\<close> with at most \<open>k\<close> digits: one digit more makes it fail.\<close>

definition read_number :: "nat \<Rightarrow> nat \<Rightarrow> bool \<Rightarrow> nat \<Rightarrow> nat scanner" where
  "read_number r k allow_zero_prefix m s =
     (let ds = takeWhile (\<lambda>c. digit_val r c \<noteq> None) s;
          v = foldl (\<lambda>acc c. acc * r + the (digit_val r c)) 0 ds in
      if ds = [] \<or> length ds > k then None
      else if \<not> allow_zero_prefix \<and> hd ds = CHR ''0'' \<and> length ds > 1 then None
      else if v > m then None
      else Some (v, drop (length ds) s))"

definition read_octet :: "nat scanner" where
  "read_octet = read_number 10 3 False 255"

text \<open>Four octets with dots between them.\<close>

fun read_octets :: "nat \<Rightarrow> nat list scanner" where
  "read_octets 0 s = Some ([], s)"
| "read_octets (Suc n) s = (case read_octet s of
      None \<Rightarrow> None
    | Some (v, s') \<Rightarrow>
        if n = 0 then Some ([v], s')
        else (case read_char CHR ''.'' s' of
            None \<Rightarrow> None
          | Some (_, s'') \<Rightarrow> (case read_octets n s'' of
              None \<Rightarrow> None | Some (vs, s3) \<Rightarrow> Some (v # vs, s3))))"

definition read_ipv4_addr :: "ipv4 scanner" where
  "read_ipv4_addr s = map_option (\<lambda>(vs, s'). (of_octets4 (List.map word_of_nat vs), s')) (read_octets 4 s)"

text \<open>\<open>read_separator\<close>: from the second group on, a colon first.\<close>

definition read_separator :: "nat \<Rightarrow> 'a scanner \<Rightarrow> 'a scanner" where
  "read_separator i inner s =
     (if i > 0 then (case read_char CHR '':'' s of None \<Rightarrow> None | Some (_, s') \<Rightarrow> inner s') else inner s)"

text \<open>
  \<open>read_groups\<close>: the 16-bit groups read so far, whether the last two came from an embedded IPv4
  address, and the rest. The first argument counts the groups still wanted.
\<close>

fun read_groups :: "nat \<Rightarrow> nat \<Rightarrow> string \<Rightarrow> nat list \<times> bool \<times> string" where
  "read_groups 0 i s = ([], False, s)"
| "read_groups (Suc n) i s =
     (case (if n > 0 then read_separator i read_ipv4_addr s else None) of
        Some (a, s') \<Rightarrow> ([unat a div 65536, unat a mod 65536], True, s')
      | None \<Rightarrow>
          (case read_separator i (read_number 16 4 True 65535) s of
             None \<Rightarrow> ([], False, s)
           | Some (g, s') \<Rightarrow> (let (gs, v4, rest) = read_groups n (i + 1) s' in (g # gs, v4, rest))))"

definition of_groups :: "nat list \<Rightarrow> ipv6" where
  "of_groups gs = word_of_nat (foldl (\<lambda>acc g. acc * 65536 + g) 0 gs)"

definition read_ipv6_addr :: "ipv6 scanner" where
  "read_ipv6_addr s =
     (let (head, head_ipv4, s1) = read_groups 8 0 s in
      if length head = 8 then Some (of_groups head, s1)
      else if head_ipv4 then None
      else (case read_char CHR '':'' s1 of None \<Rightarrow> None
        | Some (_, s2) \<Rightarrow> (case read_char CHR '':'' s2 of None \<Rightarrow> None
          | Some (_, s3) \<Rightarrow>
              (let (tail, _, s4) = read_groups (8 - (length head + 1)) 0 s3 in
               Some (of_groups (head @ replicate (8 - length head - length tail) 0 @ tail), s4)))))"

definition read_ip_addr :: "ip_addr scanner" where
  "read_ip_addr s = (case read_ipv4_addr s of
      Some (a, s') \<Rightarrow> Some (V4 a, s')
    | None \<Rightarrow> (case read_ipv6_addr s of Some (a, s') \<Rightarrow> Some (V6 a, s') | None \<Rightarrow> None))"

text \<open>\<open>parse_with\<close>: the whole text must be consumed.\<close>

definition parse_with :: "'a scanner \<Rightarrow> string \<Rightarrow> 'a option" where
  "parse_with p s = (case p s of Some (x, []) \<Rightarrow> Some x | _ \<Rightarrow> None)"

definition parse_ip :: "string \<Rightarrow> ip_addr option" where
  "parse_ip = parse_with read_ip_addr"

text \<open>\<open>SocketAddr\<close>: \<open>a.b.c.d:port\<close> or \<open>[v6]:port\<close>, here without an IPv6 scope.\<close>

definition read_port :: "u16 scanner" where
  "read_port s = (case read_char CHR '':'' s of None \<Rightarrow> None
     | Some (_, s') \<Rightarrow>
         (let ds = takeWhile (\<lambda>c. digit_val 10 c \<noteq> None) s' in
          if ds = [] then None
          else case parse_digits 10 65535 0 ds of None \<Rightarrow> None
            | Some v \<Rightarrow> Some (word_of_nat v, drop (length ds) s')))"

definition read_socket_addr :: "sock_addr scanner" where
  "read_socket_addr s = (case (case read_ipv4_addr s of None \<Rightarrow> None
        | Some (a, s') \<Rightarrow> map_option (\<lambda>(p, s''). (SocketAddr (V4 a) p, s'')) (read_port s')) of
      Some r \<Rightarrow> Some r
    | None \<Rightarrow> (case read_char CHR ''['' s of None \<Rightarrow> None
        | Some (_, s1) \<Rightarrow> (case read_ipv6_addr s1 of None \<Rightarrow> None
          | Some (a, s2) \<Rightarrow> (case read_char CHR '']'' s2 of None \<Rightarrow> None
            | Some (_, s3) \<Rightarrow> map_option (\<lambda>(p, s4). (SocketAddr (V6 a) p, s4)) (read_port s3)))))"

definition parse_socket_addr :: "string \<Rightarrow> sock_addr option" where
  "parse_socket_addr = parse_with read_socket_addr"

section \<open>Printing\<close>

fun join :: "string \<Rightarrow> string list \<Rightarrow> string" where
  "join sep [] = []"
| "join sep [x] = x"
| "join sep (x # y # ys) = x @ sep @ join sep (y # ys)"

definition show_ipv4 :: "ipv4 \<Rightarrow> string" where
  "show_ipv4 a = join ''.'' (List.map (\<lambda>b. show_nat (unat b)) (octets4 a))"

text \<open>
  IPv6: an IPv4-mapped address keeps its dotted form; otherwise the first longest run of at least
  two zero groups is written as two colons.
\<close>

fun pairs16 :: "bytes \<Rightarrow> nat list" where
  "pairs16 (a # b # rest) = (unat a * 256 + unat b) # pairs16 rest"
| "pairs16 _ = []"

definition segments6 :: "ipv6 \<Rightarrow> nat list" where
  "segments6 a = pairs16 (octets6 a)"

fun zero_run :: "nat \<Rightarrow> nat list \<Rightarrow> nat \<times> nat \<Rightarrow> nat \<times> nat \<Rightarrow> nat \<times> nat" where
  "zero_run i [] cur longest = longest"
| "zero_run i (g # gs) cur longest =
     (if g = 0 then
        (let cur = (if snd cur = 0 then i else fst cur, snd cur + 1) in
         zero_run (i + 1) gs cur (if snd cur > snd longest then cur else longest))
      else zero_run (i + 1) gs (0, 0) longest)"

definition show_groups :: "nat list \<Rightarrow> string" where
  "show_groups gs = join '':'' (List.map (show_radix 16) gs)"

definition show_ipv6 :: "ipv6 \<Rightarrow> string" where
  "show_ipv6 a =
     (let gs = segments6 a in
      if take 6 gs = [0, 0, 0, 0, 0, 0xffff] then ''::ffff:'' @ show_ipv4 (of_octets4 (drop 12 (octets6 a)))
      else
        (let (start, len) = zero_run 0 gs (0, 0) (0, 0) in
         if len > 1 then show_groups (take start gs) @ ''::'' @ show_groups (drop (start + len) gs)
         else show_groups gs))"

fun show_ip :: "ip_addr \<Rightarrow> string" where
  "show_ip (V4 a) = show_ipv4 a"
| "show_ip (V6 a) = show_ipv6 a"

fun show_socket_addr :: "sock_addr \<Rightarrow> string" where
  "show_socket_addr (SocketAddr (V4 a) p) = show_ipv4 a @ '':'' @ show_nat (unat p)"
| "show_socket_addr (SocketAddr (V6 a) p) = ''['' @ show_ipv6 a @ '']:'' @ show_nat (unat p)"

section \<open>Round trip\<close>

lemma takeWhile_digits:
  assumes "list_all (\<lambda>c. digit_val r c \<noteq> None) ds" "rest = [] \<or> digit_val r (hd rest) = None"
  shows "takeWhile (\<lambda>c. digit_val r c \<noteq> None) (ds @ rest) = ds"
  using assms
proof (induction ds)
  case Nil
  then show ?case by (cases rest) auto
qed auto

lemma show_radix_digits:
  assumes "2 \<le> r" "r \<le> 16"
  shows "list_all (\<lambda>c. digit_val r c \<noteq> None) (show_radix r n)"
  using assms
proof (induction r n rule: show_radix.induct)
  case (1 r n)
  then show ?case
    using digit_val_char [of n r] digit_val_char [of "n mod r" r]
    by (cases "n < r") (simp_all add: show_radix.simps [of r n])
qed

lemma show_radix_value:
  assumes "2 \<le> r" "r \<le> 16"
  shows "foldl (\<lambda>acc c. acc * r + the (digit_val r c)) 0 (show_radix r n) = n"
  using assms
proof (induction r n rule: show_radix.induct)
  case (1 r n)
  then show ?case
    using digit_val_char [of n r] digit_val_char [of "n mod r" r]
    by (cases "n < r") (simp_all add: show_radix.simps [of r n])
qed

lemma show_radix_shape:
  assumes "2 \<le> r" "r \<le> 16" "n < r ^ k" "0 < k"
  shows "show_radix r n \<noteq> []" "length (show_radix r n) \<le> k"
    "hd (show_radix r n) = CHR ''0'' \<Longrightarrow> length (show_radix r n) = 1"
proof -
  show "show_radix r n \<noteq> []" using show_radix_not_plus [OF assms(1,2), of n] by auto
  show "length (show_radix r n) \<le> k"
    using assms
  proof (induction r n arbitrary: k rule: show_radix.induct)
    case (1 r n)
    show ?case
    proof (cases "n < r")
      case False
      then obtain j where j: "k = Suc j" "0 < j" using 1(4,5) by (cases k; cases "k - 1") auto
      have "n div r < r ^ j" using 1(4) j by (simp add: less_mult_imp_div_less mult.commute)
      then show ?thesis using 1(1) [of j] False 1(2,3) j by (simp add: show_radix.simps [of r n])
    qed (use 1 in \<open>simp add: show_radix.simps [of r n]\<close>)
  qed
  show "length (show_radix r n) = 1" if "hd (show_radix r n) = CHR ''0''"
    using assms(1,2) that
  proof (induction r n rule: show_radix.induct)
    case (1 r n)
    show ?case
    proof (cases "n < r")
      case False
      have ne: "show_radix r (n div r) \<noteq> []" using show_radix_not_plus [OF 1(2,3)] by (metis list.discI)
      then have "hd (show_radix r (n div r)) = CHR ''0''"
        using 1(4) False 1(2) by (simp add: show_radix.simps [of r n])
      then have one: "length (show_radix r (n div r)) = 1" using 1 False by simp
      then have "show_radix r (n div r) = [CHR ''0'']"
        using \<open>hd (show_radix r (n div r)) = CHR ''0''\<close> by (cases "show_radix r (n div r)") auto
      then have "n div r = 0"
        using show_radix_value [OF 1(2,3), of "n div r"] 1(2) by (simp add: digit_val_def)
      then show ?thesis using False 1(2) by (simp add: div_eq_0_iff)
    qed (simp add: show_radix.simps [of r n])
  qed
qed

lemma read_octet_show:
  assumes "v \<le> 255" "rest = [] \<or> digit_val 10 (hd rest) = None"
  shows "read_octet (show_nat v @ rest) = Some (v, rest)"
proof -
  have v: "v < 10 ^ 3" using assms(1) by simp
  note t = takeWhile_digits [OF show_radix_digits [of 10 v] assms(2)]
  show ?thesis
    using show_radix_shape [of 10 v 3] show_radix_value [of 10 v] v assms(1) t
    by (auto simp: read_octet_def read_number_def Let_def show_nat_def)
qed

lemma read_octets_show:
  assumes "list_all (\<lambda>v. v \<le> 255) vs" "vs \<noteq> []" "rest = [] \<or> digit_val 10 (hd rest) = None"
  shows "read_octets (length vs) (join ''.'' (List.map show_nat vs) @ rest) = Some (vs, rest)"
  using assms
proof (induction vs)
  case (Cons v vs)
  show ?case
  proof (cases vs)
    case Nil
    then show ?thesis using Cons read_octet_show [of v rest] by simp
  next
    case (Cons w ws)
    let ?t = "join ''.'' (List.map show_nat vs) @ rest"
    have "join ''.'' (List.map show_nat (v # vs)) @ rest = show_nat v @ CHR ''.'' # ?t" using Cons by simp
    moreover have "digit_val 10 CHR ''.'' = None" by (simp add: digit_val_def)
    ultimately show ?thesis
      using Cons.IH Cons.prems Cons read_octet_show [of v "CHR ''.'' # ?t"] by (simp add: read_char_def)
  qed
qed simp

lemma read_ipv4_show:
  assumes "rest = [] \<or> digit_val 10 (hd rest) = None"
  shows "read_ipv4_addr (show_ipv4 a @ rest) = Some (a, rest)"
proof -
  let ?vs = "List.map unat (octets4 a)"
  have len: "length ?vs = 4" by simp
  have "?vs \<noteq> []" using len by (metis length_0_conv zero_neq_numeral)
  moreover have "list_all (\<lambda>v. v \<le> 255) ?vs" by (simp add: list_all_iff)
  ultimately have "read_octets 4 (join ''.'' (List.map show_nat ?vs) @ rest) = Some (?vs, rest)"
    using read_octets_show [of ?vs rest] len assms by simp
  moreover have "show_ipv4 a = join ''.'' (List.map show_nat ?vs)" by (simp add: show_ipv4_def o_def)
  moreover have "List.map word_of_nat ?vs = octets4 a" by (simp add: o_def)
  ultimately show ?thesis by (simp add: read_ipv4_addr_def)
qed

lemma parse_show_ipv4: "parse_ip (show_ipv4 a) = Some (V4 a)"
  using read_ipv4_show [of "[]" a] by (simp add: parse_ip_def parse_with_def read_ip_addr_def)

lemma parse_show_socket4: "parse_socket_addr (show_socket_addr (SocketAddr (V4 a) p)) = Some (SocketAddr (V4 a) p)"
proof -
  have p: "unat p \<le> 65535" using unsigned_less [of p] by (simp add: less_Suc_eq_le [symmetric])
  have t: "takeWhile (\<lambda>c. digit_val 10 c \<noteq> None) (show_nat (unat p)) = show_nat (unat p)"
    using takeWhile_digits [OF show_radix_digits [of 10 "unat p"], of "[]"] by (simp add: show_nat_def)
  have "parse_digits 10 65535 0 (show_nat (unat p)) = Some (unat p)"
    using parse_show_radix [of 10 "unat p" 65535] p by (simp add: show_nat_def)
  moreover have "show_nat (unat p) \<noteq> []" using show_radix_shape(1) [of 10 "unat p" 5] p by (simp add: show_nat_def)
  ultimately have "read_port (CHR '':'' # show_nat (unat p)) = Some (p, [])"
    by (simp add: read_port_def read_char_def Let_def t del: not_None_eq)
  moreover have "digit_val 10 CHR '':'' = None" by (simp add: digit_val_def)
  ultimately show ?thesis
    using read_ipv4_show [of "CHR '':'' # show_nat (unat p)" a]
    by (simp add: parse_socket_addr_def parse_with_def read_socket_addr_def)
qed

end
