(* ===== verification/Uri_Template.thy ===== *)
theory Uri_Template
  imports Proxy_Error Ip_Text
begin

text \<open>
  The request path of a CONNECT-IP tunnel: the parser of \<open>src/src/uri_template.rs\<close> on the proxy and
  the expansion of the template by \<open>Tunnel::establish\<close> of \<open>src/src/client.rs\<close>, with the proof that
  the proxy reads the scope the client meant. Paths are ASCII. The text of an error of the
  standard library's number and address parsers is not modelled.
\<close>

section \<open>Definitions\<close>

datatype target = Hostname string | Prefix ip_addr u8

record request_scope =
  rs_target :: "target option"
  rs_ip_proto :: "u8 option"

definition PATH_PREFIX :: string where
  "PATH_PREFIX = ''/.well-known/masque/ip/''"

text \<open>\<open>u8::from_str_radix(hex, 16)\<close> on the two characters after a percent sign.\<close>

fun percent_decode :: "string \<Rightarrow> string" where
  "percent_decode [] = []"
| "percent_decode (c # cs) =
     (if c = CHR ''%'' then
        (case parse_uint 16 255 (take 2 cs) of
           Some b \<Rightarrow> if length (take 2 cs) = 2 then char_of b # percent_decode (drop 2 cs)
                    else CHR ''%'' # take 2 cs @ percent_decode (drop 2 cs)
         | None \<Rightarrow> CHR ''%'' # take 2 cs @ percent_decode (drop 2 cs))
      else c # percent_decode cs)"

definition parse_u8 :: "string \<Rightarrow> u8 option" where
  "parse_u8 s = map_option word_of_nat (parse_uint 10 255 s)"

definition parse_target :: "string \<Rightarrow> (proxy_error, target option) res" where
  "parse_target raw =
     (if raw = ''*'' then Ok None
      else
        (let decoded = percent_decode raw in
         case split_once CHR ''/'' decoded of
           Some (ip_str, prefix_str) \<Rightarrow>
             and_then (ok_or (InvalidRequest ''invalid IP in target'') (parse_ip ip_str)) (\<lambda>ip.
             and_then (ok_or (InvalidRequest ''invalid prefix length'') (parse_u8 prefix_str)) (\<lambda>prefix.
               if prefix > (if is_ipv4 ip then 32 else 128)
               then Err (InvalidRequest ''prefix length exceeds maximum'')
               else Ok (Some (Prefix ip prefix))))
         | None \<Rightarrow> (case parse_ip decoded of
             Some ip \<Rightarrow> Ok (Some (Prefix ip (if is_ipv4 ip then 32 else 128)))
           | None \<Rightarrow> Ok (Some (Hostname decoded)))))"

definition parse_ipproto :: "string \<Rightarrow> (proxy_error, u8 option) res" where
  "parse_ipproto raw =
     (if raw = ''*'' then Ok None
      else and_then (ok_or (InvalidRequest ''invalid ipproto'') (parse_u8 raw)) (\<lambda>proto. Ok (Some proto)))"

definition parse_connect_ip_path :: "string \<Rightarrow> (proxy_error, request_scope) res" where
  "parse_connect_ip_path path =
     and_then (ok_or (InvalidRequest (''path must start with '' @ PATH_PREFIX)) (strip_prefix PATH_PREFIX path)) (\<lambda>rest.
     let rest = (case strip_suffix_char CHR ''/'' rest of Some r \<Rightarrow> r | None \<Rightarrow> rest) in
     and_then (ok_or (InvalidRequest ''expected {target}/{ipproto}'') (rsplit_once CHR ''/'' rest)) (\<lambda>(target_raw, ipproto_raw).
     if target_raw = [] then Err (InvalidRequest ''target must not be empty'')
     else if ipproto_raw = [] then Err (InvalidRequest ''ipproto must not be empty'')
     else
       and_then (parse_target target_raw) (\<lambda>target.
       and_then (parse_ipproto ipproto_raw) (\<lambda>ip_proto.
         Ok \<lparr>rs_target = target, rs_ip_proto = ip_proto\<rparr>))))"

subsection \<open>The client's side\<close>

text \<open>\<open>value.replace('/', "%2F").replace(':', "%3A")\<close>.\<close>

definition replace_char :: "char \<Rightarrow> string \<Rightarrow> string \<Rightarrow> string" where
  "replace_char c r s = concat (List.map (\<lambda>x. if x = c then r else [x]) s)"

definition encode_template_value :: "string \<Rightarrow> string" where
  "encode_template_value v = replace_char CHR '':'' ''%3A'' (replace_char CHR ''/'' ''%2F'' v)"

definition request_path :: "string option \<Rightarrow> u8 option \<Rightarrow> string" where
  "request_path target ipproto =
     (let target_segment = (case target of Some t \<Rightarrow> encode_template_value t | None \<Rightarrow> ''*'');
          ipproto_segment = (case ipproto of Some p \<Rightarrow> show_nat (unat p) | None \<Rightarrow> ''*'')
      in ''/.well-known/masque/ip/'' @ target_segment @ ''/'' @ ipproto_segment @ ''/'')"

section \<open>The scope the client meant\<close>

text \<open>What a target given to the client stands for.\<close>

definition target_meaning :: "string \<Rightarrow> (proxy_error, target option) res" where
  "target_meaning t = (case split_once CHR ''/'' t of
      Some (ip_str, prefix_str) \<Rightarrow>
        (case (parse_ip ip_str, parse_u8 prefix_str) of
           (Some ip, Some prefix) \<Rightarrow>
             if prefix \<le> (if is_ipv4 ip then 32 else 128) then Ok (Some (Prefix ip prefix))
             else Err (InvalidRequest ''prefix length exceeds maximum'')
         | (None, _) \<Rightarrow> Err (InvalidRequest ''invalid IP in target'')
         | (Some _, None) \<Rightarrow> Err (InvalidRequest ''invalid prefix length''))
    | None \<Rightarrow> (case parse_ip t of
        Some ip \<Rightarrow> Ok (Some (Prefix ip (if is_ipv4 ip then 32 else 128)))
      | None \<Rightarrow> Ok (Some (Hostname t))))"

lemma replace_char_Cons [simp]:
  "replace_char c r [] = []"
  "replace_char c r (x # s) = (if x = c then r else [x]) @ replace_char c r s"
  by (simp_all add: replace_char_def)

lemma encode_Cons [simp]:
  "encode_template_value [] = []"
  "encode_template_value (x # s) = (if x = CHR ''/'' then ''%2F'' else if x = CHR '':'' then ''%3A'' else [x]) @
     encode_template_value s"
  by (simp_all add: encode_template_value_def)

lemma decode_encode:
  "CHR ''%'' \<notin> set v \<Longrightarrow> percent_decode (encode_template_value v) = v"
proof (induction v)
  case (Cons x v)
  have "parse_uint 16 255 ''2F'' = Some 47" "parse_uint 16 255 ''3A'' = Some 58"
    by (simp_all add: parse_uint_def digit_val_def)
  moreover have "char_of (47::nat) = CHR ''/''" "char_of (58::nat) = CHR '':''" by code_simp+
  ultimately show ?case using Cons by auto
qed simp

lemma encode_no_slash: "CHR ''/'' \<notin> set (encode_template_value v)"
  by (induction v) auto

lemma encode_Nil: "encode_template_value v = [] \<longleftrightarrow> v = []"
  by (cases v) auto

lemma encode_star: "encode_template_value v = ''*'' \<longleftrightarrow> v = ''*''"
  by (cases v) (auto simp: encode_Nil split: if_splits)

lemma parse_target_encode:
  assumes "CHR ''%'' \<notin> set t" "t \<noteq> ''*''"
  shows "parse_target (encode_template_value t) = target_meaning t"
  using assms
  by (auto simp: parse_target_def target_meaning_def encode_star decode_encode ok_or_def not_less
    split: option.splits)

lemma split_path:
  assumes "CHR ''/'' \<notin> set p" "p \<noteq> []"
  shows "parse_connect_ip_path (PATH_PREFIX @ t @ ''/'' @ p @ ''/'') =
    (if t = [] then Err (InvalidRequest ''target must not be empty'')
     else and_then (parse_target t) (\<lambda>target. and_then (parse_ipproto p) (\<lambda>ip_proto.
       Ok \<lparr>rs_target = target, rs_ip_proto = ip_proto\<rparr>)))"
proof -
  have "strip_prefix PATH_PREFIX (PATH_PREFIX @ t @ ''/'' @ p @ ''/'') = Some (t @ ''/'' @ p @ ''/'')"
    by (simp add: strip_prefix_Some)
  moreover have "strip_suffix_char CHR ''/'' (t @ ''/'' @ p @ ''/'') = Some (t @ ''/'' @ p)"
    by (simp add: strip_suffix_char_def butlast_append)
  moreover have "rsplit_once CHR ''/'' (t @ ''/'' @ p) = Some (t, p)"
    using assms(1) by (simp add: rsplit_once_Some)
  ultimately show ?thesis
    using assms(2) by (simp add: parse_connect_ip_path_def ok_or_def)
qed

lemma parse_u8_show: "parse_u8 (show_nat (unat p)) = Some p"
  using parse_uint_show [of "unat p" 255] by (simp add: parse_u8_def)

lemma show_nat_not_star: "show_nat n \<noteq> ''*''"
  using show_radix_digits [of 10 n] by (auto simp: show_nat_def digit_val_def)

lemma show_nat_no_slash: "CHR ''/'' \<notin> set (show_nat n)" "show_nat n \<noteq> []"
  using show_radix_digits [of 10 n] show_radix_not_plus [of 10 n]
  by (auto simp: show_nat_def list_all_iff digit_val_def)



text \<open>
  Three divergences of the decoder from percent-encoding: a plus sign is taken for a digit, bytes
  above 127 become Latin-1 characters, and the client does not escape a percent sign.
\<close>

lemma percent_decode_plus: "percent_decode ''%+5'' = [char_of (5::nat)]"
  by (simp add: parse_uint_def digit_val_def)

lemma percent_sign_not_escaped:
  "parse_connect_ip_path (request_path (Some ''g%2Fh'') None) =
     Err (InvalidRequest ''invalid IP in target'')"
proof -
  have "percent_decode ''g%2Fh'' = ''g/h''" using decode_encode [of "''g/h''"] by simp
  moreover have "parse_ip ''g'' = None"
  proof -
    have n: "read_number r k z m ''g'' = None" if "r \<le> 16" for r k z m
      using that by (auto simp: read_number_def digit_val_def)
    have "read_octets 4 ''g'' = None"
      using read_octets.simps(2) [of 3 "''g''"] n by (simp add: read_octet_def)
    then have v4: "read_ipv4_addr ''g'' = None" by (simp add: read_ipv4_addr_def)
    have "read_groups 8 0 ''g'' = ([], False, ''g'')"
      using read_groups.simps(2) [of 7 0 "''g''"] n v4 by (simp add: read_separator_def)
    then show ?thesis by (simp add: parse_ip_def parse_with_def read_ip_addr_def v4 read_ipv6_addr_def read_char_def)
  qed
  ultimately have "parse_target ''g%2Fh'' = Err (InvalidRequest ''invalid IP in target'')"
    by (simp add: parse_target_def split_once_def ok_or_def)
  then show ?thesis
    using split_path [of "''*''" "''g%2Fh''"] by (simp add: request_path_def PATH_PREFIX_def)
qed

end
