(* ===== verification/Auth.thy ===== *)
theory Auth
  imports Proxy_Error
begin

text \<open>
  Authentication of requests: the proxy's \<open>src/src/session/auth.rs\<close> and the credentials of
  \<open>src/src/client.rs\<close>. A string is the list of the bytes of its UTF-8 form. Base64 and SHA-256 are
  functions of other crates and are the record \<open>auth_api\<close>. A header map gives the text of a
  header, if it is present and readable as text.
\<close>

unbundle bit_operations_syntax

section \<open>Definitions\<close>

record auth_api =
  b64_encode :: "bytes \<Rightarrow> string"
  b64_decode :: "string \<Rightarrow> bytes option"
  sha256 :: "bytes \<Rightarrow> bytes"

type_synonym header_map = "string \<rightharpoonup> string"

datatype auth_mode = ModeNone | ModeBearer | ModeBasic | ModeMtls

record auth_context =
  ac_method :: string
  ac_principal :: "string option"

record authenticator =
  au_mode :: auth_mode
  au_bearer_tokens :: "string list"
  au_basic_credentials :: "(string \<times> string) list"

definition au_new :: "auth_mode \<Rightarrow> string list \<Rightarrow> (string \<times> string) list \<Rightarrow> authenticator" where
  "au_new mode tokens credentials =
     \<lparr>au_mode = mode, au_bearer_tokens = tokens, au_basic_credentials = credentials\<rparr>"

definition as_bytes :: "string \<Rightarrow> bytes" where
  "as_bytes s = map (\<lambda>c. word_of_nat (of_char c)) s"

definition of_bytes :: "bytes \<Rightarrow> string" where
  "of_bytes bs = map (\<lambda>b. char_of (unat b)) bs"

text \<open>\<open>String::from_utf8\<close> accepts the well-formed byte sequences of the Unicode standard.\<close>

definition utf8_tail :: "u8 \<Rightarrow> bool" where
  "utf8_tail b \<longleftrightarrow> 0x80 \<le> b \<and> b \<le> 0xBF"

definition utf8_second :: "u8 \<Rightarrow> u8 \<Rightarrow> bool" where
  "utf8_second a b \<longleftrightarrow> utf8_tail b \<and> (a = 0xE0 \<longrightarrow> 0xA0 \<le> b) \<and> (a = 0xED \<longrightarrow> b \<le> 0x9F) \<and>
     (a = 0xF0 \<longrightarrow> 0x90 \<le> b) \<and> (a = 0xF4 \<longrightarrow> b \<le> 0x8F)"

fun utf8_valid :: "bytes \<Rightarrow> bool" where
  "utf8_valid [] \<longleftrightarrow> True"
| "utf8_valid (a # bs) \<longleftrightarrow>
     (if a \<le> 0x7F then utf8_valid bs
      else if 0xC2 \<le> a \<and> a \<le> 0xDF then
        (case bs of b # bs \<Rightarrow> utf8_tail b \<and> utf8_valid bs | _ \<Rightarrow> False)
      else if 0xE0 \<le> a \<and> a \<le> 0xEF then
        (case bs of b # c # bs \<Rightarrow> utf8_second a b \<and> utf8_tail c \<and> utf8_valid bs | _ \<Rightarrow> False)
      else if 0xF0 \<le> a \<and> a \<le> 0xF4 then
        (case bs of b # c # d # bs \<Rightarrow> utf8_second a b \<and> utf8_tail c \<and> utf8_tail d \<and> utf8_valid bs | _ \<Rightarrow> False)
      else False)"

definition from_utf8 :: "bytes \<Rightarrow> string option" where
  "from_utf8 bs = (if utf8_valid bs then Some (of_bytes bs) else None)"

definition constant_time_eq :: "bytes \<Rightarrow> bytes \<Rightarrow> bool" where
  "constant_time_eq a b \<longleftrightarrow>
     length a = length b \<and> foldl (\<lambda>diff (x, y). diff OR (x XOR y)) 0 (zip a b) = 0"

text \<open>\<open>format!("{b:02x}")\<close> for every byte.\<close>

definition hex :: "bytes \<Rightarrow> string" where
  "hex bs = concat (map (\<lambda>b. [digit_char (unat b div 16), digit_char (unat b mod 16)]) bs)"

definition cert_fingerprint :: "auth_api \<Rightarrow> bytes \<Rightarrow> string" where
  "cert_fingerprint api cert = hex (sha256 api cert)"

definition authorization_value :: "header_map \<Rightarrow> string \<Rightarrow> string option" where
  "authorization_value headers scheme =
     (case headers ''authorization'' of
        None \<Rightarrow> None
      | Some v \<Rightarrow> (case split_once CHR '' '' v of
            None \<Rightarrow> None
          | Some (s, rest) \<Rightarrow> if eq_ignore_ascii_case s scheme then Some (trim rest) else None))"

definition check_bearer :: "string list \<Rightarrow> string \<Rightarrow> bool" where
  "check_bearer tokens presented =
     foldl (\<lambda>ok t. ok \<or> constant_time_eq (as_bytes t) (as_bytes presented)) False tokens"

definition check_basic :: "(string \<times> string) list \<Rightarrow> string \<Rightarrow> string \<Rightarrow> bool \<times> string option" where
  "check_basic credentials user pass =
     foldl (\<lambda>(ok, matched) (u, p).
        let hit = (constant_time_eq (as_bytes u) (as_bytes user) \<and> constant_time_eq (as_bytes p) (as_bytes pass))
        in (ok \<or> hit, if hit then Some u else matched)) (False, None) credentials"

definition authenticate ::
    "auth_api \<Rightarrow> authenticator \<Rightarrow> header_map \<Rightarrow> bytes option \<Rightarrow> (proxy_error, auth_context) res" where
  "authenticate api au headers client_cert = (case au_mode au of
      ModeNone \<Rightarrow> Ok \<lparr>ac_method = ''none'', ac_principal = None\<rparr>
    | ModeBearer \<Rightarrow>
        and_then (ok_or (AuthFailed ''missing bearer token'') (authorization_value headers ''Bearer'')) (\<lambda>presented.
        if check_bearer (au_bearer_tokens au) presented
        then Ok \<lparr>ac_method = ''bearer'', ac_principal = None\<rparr>
        else Err (AuthFailed ''invalid bearer token''))
    | ModeBasic \<Rightarrow>
        and_then (ok_or (AuthFailed ''missing basic credentials'') (authorization_value headers ''Basic'')) (\<lambda>presented.
        and_then (ok_or (AuthFailed ''malformed basic credentials'') (b64_decode api presented)) (\<lambda>decoded.
        and_then (ok_or (AuthFailed ''malformed basic credentials'') (from_utf8 decoded)) (\<lambda>decoded.
        and_then (ok_or (AuthFailed ''malformed basic credentials'') (split_once CHR '':'' decoded)) (\<lambda>(user, pass).
        let (ok, matched_user) = check_basic (au_basic_credentials au) user pass in
        if ok then Ok \<lparr>ac_method = ''basic'', ac_principal = matched_user\<rparr>
        else Err (AuthFailed ''invalid basic credentials'')))))
    | ModeMtls \<Rightarrow>
        and_then (ok_or (AuthFailed ''client certificate required'') client_cert) (\<lambda>cert.
        Ok \<lparr>ac_method = ''mtls'', ac_principal = Some (cert_fingerprint api cert)\<rparr>))"

text \<open>The client's side.\<close>

datatype client_auth = CANone | CABearer string | CABasic string string

definition apply_auth :: "auth_api \<Rightarrow> client_auth \<Rightarrow> header_map \<Rightarrow> header_map" where
  "apply_auth api auth builder = (case auth of
      CANone \<Rightarrow> builder
    | CABearer token \<Rightarrow> builder(''authorization'' \<mapsto> ''Bearer '' @ token)
    | CABasic user password \<Rightarrow>
        builder(''authorization'' \<mapsto> ''Basic '' @ b64_encode api (as_bytes (user @ '':'' @ password))))"


section \<open>Comparisons\<close>

lemma or_zero: "(a :: 'a::len word) OR b = 0 \<longleftrightarrow> a = 0 \<and> b = 0"
  by (auto simp: bit_eq_iff bit_simps)

lemma xor_zero: "(a :: 'a::len word) XOR b = 0 \<longleftrightarrow> a = b"
  by (auto simp: bit_eq_iff bit_simps)

lemma fold_diff: "foldl (\<lambda>diff (x, y). diff OR (x XOR y)) (d :: u8) ps = 0 \<longleftrightarrow> d = 0 \<and> (\<forall>(x, y) \<in> set ps. x = y)"
  by (induction ps arbitrary: d) (auto simp: or_zero xor_zero)

lemma constant_time_eq_iff [simp]: "constant_time_eq a b \<longleftrightarrow> a = b"
proof
  assume "constant_time_eq a b"
  then have l: "length a = length b" and d: "\<forall>(x, y) \<in> set (zip a b). x = y"
    by (auto simp: constant_time_eq_def fold_diff)
  from l show "a = b" using d by (induction rule: list_induct2) auto
qed (auto simp: constant_time_eq_def fold_diff in_set_zip)

lemma of_bytes_as_bytes [simp]: "of_bytes (as_bytes s) = s"
  by (simp add: of_bytes_def as_bytes_def unat_word_of_nat comp_def)

lemma as_bytes_of_bytes [simp]: "as_bytes (of_bytes bs) = bs"
proof -
  have "word_of_nat (unat b mod 256) = b" for b :: u8
    using unsigned_less [of b, where ?'a = nat] by simp
  then show ?thesis by (simp add: of_bytes_def as_bytes_def comp_def)
qed

lemma as_bytes_eq [simp]: "as_bytes s = as_bytes t \<longleftrightarrow> s = t"
  using of_bytes_as_bytes by metis

lemma check_bearer_iff: "check_bearer tokens t \<longleftrightarrow> t \<in> set tokens"
proof -
  have "foldl (\<lambda>ok x. ok \<or> constant_time_eq (as_bytes x) (as_bytes t)) b tokens \<longleftrightarrow> b \<or> t \<in> set tokens" for b
    by (induction tokens arbitrary: b) auto
  then show ?thesis by (simp add: check_bearer_def)
qed

lemma check_basic_eq:
  "check_basic cs user pass = ((user, pass) \<in> set cs, if (user, pass) \<in> set cs then Some user else None)"
proof -
  let ?f = "\<lambda>(ok, matched) (u, p).
        let hit = (constant_time_eq (as_bytes u) (as_bytes user) \<and> constant_time_eq (as_bytes p) (as_bytes pass))
        in (ok \<or> hit, if hit then Some u else matched)"
  have "foldl ?f (ok, m) cs = (ok \<or> (user, pass) \<in> set cs, if (user, pass) \<in> set cs then Some user else m)" for ok m
    by (induction cs arbitrary: ok m) (auto simp: Let_def split: if_splits)
  then show ?thesis by (simp add: check_basic_def)
qed

section \<open>Who is admitted\<close>

text \<open>The credentials that admit a request, and what the session is recorded as.\<close>

definition granted :: "auth_api \<Rightarrow> authenticator \<Rightarrow> header_map \<Rightarrow> bytes option \<Rightarrow> auth_context \<Rightarrow> bool" where
  "granted api au h cert ctx = (case au_mode au of
      ModeNone \<Rightarrow> ctx = \<lparr>ac_method = ''none'', ac_principal = None\<rparr>
    | ModeBearer \<Rightarrow> (\<exists>t \<in> set (au_bearer_tokens au). authorization_value h ''Bearer'' = Some t) \<and>
        ctx = \<lparr>ac_method = ''bearer'', ac_principal = None\<rparr>
    | ModeBasic \<Rightarrow> (\<exists>(user, pass) \<in> set (au_basic_credentials au). \<exists>text bs.
        authorization_value h ''Basic'' = Some text \<and> b64_decode api text = Some bs \<and> utf8_valid bs \<and>
        CHR '':'' \<notin> set user \<and> of_bytes bs = user @ '':'' @ pass \<and>
        ctx = \<lparr>ac_method = ''basic'', ac_principal = Some user\<rparr>)
    | ModeMtls \<Rightarrow> (\<exists>c. cert = Some c \<and>
        ctx = \<lparr>ac_method = ''mtls'', ac_principal = Some (hex (sha256 api c))\<rparr>))"

lemma authenticate_basic:
  assumes "au_mode au = ModeBasic" "authorization_value h ''Basic'' = Some text"
    "b64_decode api text = Some bs" "utf8_valid bs"
  shows "authenticate api au h cert =
    (case split_once CHR '':'' (of_bytes bs) of
       None \<Rightarrow> Err (AuthFailed ''malformed basic credentials'')
     | Some (user, pass) \<Rightarrow>
         if (user, pass) \<in> set (au_basic_credentials au)
         then Ok \<lparr>ac_method = ''basic'', ac_principal = Some user\<rparr>
         else Err (AuthFailed ''invalid basic credentials''))"
  using assms by (auto simp: authenticate_def ok_or_def from_utf8_def check_basic_eq split: option.split)

lemma authenticate_basic_refuses:
  assumes "au_mode au = ModeBasic"
    "\<And>text bs. authorization_value h ''Basic'' = Some text \<Longrightarrow> b64_decode api text = Some bs \<Longrightarrow> \<not> utf8_valid bs"
  shows "\<exists>m. authenticate api au h cert = Err (AuthFailed m)"
  using assms by (auto simp: authenticate_def ok_or_def from_utf8_def split: option.split)

lemma authenticate_spec:
  "case authenticate api au h cert of
     Ok ctx \<Rightarrow> granted api au h cert ctx
   | Err e \<Rightarrow> (\<exists>m. e = AuthFailed m) \<and> \<not> (\<exists>ctx. granted api au h cert ctx)
   | Panic \<Rightarrow> False"
proof (cases "au_mode au")
  case ModeNone
  then show ?thesis by (simp add: authenticate_def granted_def)
next
  case ModeBearer
  then show ?thesis
    by (auto simp: authenticate_def granted_def ok_or_def check_bearer_iff split: option.split)
next
  case ModeMtls
  then show ?thesis
    by (auto simp: authenticate_def granted_def ok_or_def cert_fingerprint_def split: option.split)
next
  case ModeBasic
  show ?thesis
  proof (cases "\<exists>text bs. authorization_value h ''Basic'' = Some text \<and> b64_decode api text = Some bs \<and> utf8_valid bs")
    case False
    then obtain m where "authenticate api au h cert = Err (AuthFailed m)"
      using authenticate_basic_refuses [OF ModeBasic] by metis
    moreover have "\<not> granted api au h cert ctx" for ctx using False ModeBasic by (auto simp: granted_def)
    ultimately show ?thesis by simp
  next
    case True
    then obtain tok bs where p: "authorization_value h ''Basic'' = Some tok" "b64_decode api tok = Some bs"
      "utf8_valid bs" by blast
    have g: "granted api au h cert ctx \<longleftrightarrow> (\<exists>user pass. (user, pass) \<in> set (au_basic_credentials au) \<and>
        split_once CHR '':'' (of_bytes bs) = Some (user, pass) \<and>
        ctx = \<lparr>ac_method = ''basic'', ac_principal = Some user\<rparr>)" for ctx
      using p ModeBasic by (auto simp: granted_def split_once_Some)
    show ?thesis
      unfolding authenticate_basic [OF ModeBasic p] g by (auto split: option.split)
  qed
qed

text \<open>
  C11: a request is admitted exactly when it carries valid credentials for the configured mode: a
  listed bearer token, a listed user and password, or a certificate the handshake verified. The
  session is recorded under the user it presented, and every refusal is an authentication
  failure (the constant-time comparisons and the loops without early exit change nothing).
\<close>

theorem authenticate_exact:
  "case authenticate api au h cert of
     Ok ctx \<Rightarrow> granted api au h cert ctx
   | Err e \<Rightarrow> (\<exists>m. e = AuthFailed m) \<and> \<not> (\<exists>ctx. granted api au h cert ctx)
   | Panic \<Rightarrow> False"
  by (rule authenticate_spec)

section \<open>The client's credentials\<close>

text \<open>What the code relies on of base64: decoding inverts encoding, and the code has no blanks.\<close>

definition base64_laws :: "auth_api \<Rightarrow> bool" where
  "base64_laws api \<longleftrightarrow> (\<forall>bs. b64_decode api (b64_encode api bs) = Some bs) \<and>
     (\<forall>bs. \<forall>c \<in> set (b64_encode api bs). \<not> is_space c)"

lemma trim_id: "\<forall>c \<in> set s. \<not> is_space c \<Longrightarrow> trim s = s"
proof -
  assume a: "\<forall>c \<in> set s. \<not> is_space c"
  have "dropWhile is_space t = t" if "\<forall>c \<in> set t. \<not> is_space c" for t
    using that by (cases t) auto
  from this [of s] this [of "rev s"] show ?thesis using a by (simp add: trim_def)
qed

lemma authorization_value_set:
  "CHR '' '' \<notin> set scheme \<Longrightarrow>
   authorization_value (h(''authorization'' \<mapsto> scheme @ CHR '' '' # v)) scheme = Some (trim v)"
proof -
  assume "CHR '' '' \<notin> set scheme"
  then have "split_once CHR '' '' (scheme @ CHR '' '' # v) = Some (scheme, v)" by (simp add: split_once_Some)
  then show ?thesis by (simp add: authorization_value_def eq_ignore_ascii_case_def)
qed


text \<open>A concrete code with the laws of base64: two hexadecimal digits for every byte.\<close>

fun unhex :: "string \<Rightarrow> bytes option" where
  "unhex [] = Some []"
| "unhex [c] = None"
| "unhex (a # b # s) = (case (digit_val 16 a, digit_val 16 b, unhex s) of
      (Some x, Some y, Some bs) \<Rightarrow> Some (word_of_nat (16 * x + y) # bs)
    | _ \<Rightarrow> None)"

definition hex_api :: auth_api where
  "hex_api = \<lparr>b64_encode = hex, b64_decode = unhex, sha256 = (\<lambda>bs. bs)\<rparr>"

lemma nibbles: "unat (b :: u8) div 16 < 16" "unat b mod 16 < 16"
proof -
  have "unat b < 16 * 16" using unsigned_less [of b, where ?'a = nat] by simp
  then show "unat b div 16 < 16" by (rule less_mult_imp_div_less)
qed simp

lemma unhex_hex: "unhex (hex bs) = Some bs"
proof (induction bs)
  case (Cons b bs)
  show ?case using Cons nibbles [of b] by (simp add: hex_def digit_val_char)
qed (simp add: hex_def)

lemma hex_no_space: "c \<in> set (hex bs) \<Longrightarrow> \<not> is_space c"
proof -
  assume "c \<in> set (hex bs)"
  then obtain d where d: "c = digit_char d" "d < 16"
    unfolding hex_def using nibbles by auto
  then have "digit_val 16 c = Some d" by (simp add: digit_val_char)
  then show "\<not> is_space c" by (auto simp: digit_val_def is_space_def Let_def split: if_splits)
qed

lemma hex_laws: "base64_laws hex_api"
  by (auto simp: base64_laws_def hex_api_def unhex_hex dest: hex_no_space)


end
