(* ===== verification/Config.thy ===== *)
theory Config
  imports Auth Net_Types
begin

text \<open>
  The configuration of the server, \<open>src/src/config.rs\<close>: the options, their defaults, the sections
  of the TOML file, the order in which defaults, file and command line are applied, and the
  checks on the result. A path is a string. What the argument parser and the TOML
  parser return is a parameter.
\<close>

section \<open>Options\<close>

record proxy_config =
  cfg_listen :: sock_addr
  cfg_cert :: "string option"
  cfg_key :: "string option"
  cfg_ipv4_pool :: ipv4_net
  cfg_ipv6_pool :: "ipv6_net option"
  cfg_mtu :: u16
  cfg_split_routes :: "ip_net list"
  cfg_accept_client_routes :: bool
  cfg_tun :: bool
  cfg_tun_name :: string
  cfg_idle_timeout_ms :: u64
  cfg_max_sessions :: nat
  cfg_auth_mode :: auth_mode
  cfg_auth_token :: "string list"
  cfg_auth_basic :: "string list"
  cfg_client_ca :: "string option"
  cfg_session_idle_timeout_sec :: u64
  cfg_max_packet_rate :: u64
  cfg_max_byte_rate :: u64
  cfg_metrics_listen :: "sock_addr option"
  cfg_nat_interface :: "string option"
  cfg_shutdown_grace_sec :: u64
  cfg_udp_bind :: bool
  cfg_udp_bind_public_ips :: "ip_addr list"
  cfg_udp_bind_port_lo :: u16
  cfg_udp_bind_port_hi :: u16
  cfg_udp_bind_max_pps :: u64
  cfg_udp_bind_max_bps :: u64
  cfg_udp_bind_allow_dest :: "ip_net list"
  cfg_stun_addr :: "sock_addr option"
  cfg_stun_alt_addr :: "sock_addr option"

definition config_default :: proxy_config where
  "config_default =
     \<lparr>cfg_listen = SocketAddr (V4 0) 4433,
      cfg_cert = None,
      cfg_key = None,
      cfg_ipv4_pool = Ipv4Net 0x0A640000 24,
      cfg_ipv6_pool = None,
      cfg_mtu = 1400,
      cfg_split_routes = [],
      cfg_accept_client_routes = False,
      cfg_tun = False,
      cfg_tun_name = ''straw0'',
      cfg_idle_timeout_ms = 30000,
      cfg_max_sessions = 1000,
      cfg_auth_mode = ModeNone,
      cfg_auth_token = [],
      cfg_auth_basic = [],
      cfg_client_ca = None,
      cfg_session_idle_timeout_sec = 300,
      cfg_max_packet_rate = 0,
      cfg_max_byte_rate = 0,
      cfg_metrics_listen = None,
      cfg_nat_interface = None,
      cfg_shutdown_grace_sec = 5,
      cfg_udp_bind = False,
      cfg_udp_bind_public_ips = [],
      cfg_udp_bind_port_lo = 32768,
      cfg_udp_bind_port_hi = 60999,
      cfg_udp_bind_max_pps = 0,
      cfg_udp_bind_max_bps = 0,
      cfg_udp_bind_allow_dest = [],
      cfg_stun_addr = None,
      cfg_stun_alt_addr = None\<rparr>"

text \<open>\<open>collect\<close> into a \<open>Result\<close>: the first error, or all the values.\<close>

fun collect_res :: "('e, 'a) res list \<Rightarrow> ('e, 'a list) res" where
  "collect_res [] = Ok []"
| "collect_res (r # rs) = and_then r (\<lambda>x. and_then (collect_res rs) (\<lambda>xs. Ok (x # xs)))"

definition basic_credentials :: "proxy_config \<Rightarrow> (proxy_error, (string \<times> string) list) res" where
  "basic_credentials c = collect_res (map (\<lambda>entry.
     ok_or (PConfig (''--auth-basic entry '' @ CHR 0x22 # entry @ CHR 0x22 # '' is not user:password'')) (split_once CHR '':'' entry))
     (cfg_auth_basic c))"

definition validate :: "proxy_config \<Rightarrow> (proxy_error, unit) res" where
  "validate c =
     (if cfg_mtu c < 1280 then
        Err (PConfig (''MTU '' @ show_nat (unat (cfg_mtu c)) @ '' is below the IPv6 minimum of 1280''))
      else if cfg_auth_mode c = ModeBearer \<and> cfg_auth_token c = [] then
        Err (PConfig ''--auth-mode bearer requires at least one --auth-token'')
      else if cfg_auth_mode c = ModeBasic \<and> cfg_auth_basic c = [] then
        Err (PConfig ''--auth-mode basic requires at least one --auth-basic user:pass'')
      else if cfg_auth_mode c = ModeMtls \<and> cfg_client_ca c = None then
        Err (PConfig ''--auth-mode mtls requires --client-ca'')
      else and_then (basic_credentials c) (\<lambda>_.
        if cfg_udp_bind c \<and> cfg_auth_mode c = ModeNone then
          Err (PConfig ''--udp-bind requires authentication (no anonymous bind mode)'')
        else if cfg_udp_bind c \<and> cfg_udp_bind_public_ips c = [] then
          Err (PConfig ''--udp-bind requires at least one --udp-bind-public-ips'')
        else if cfg_udp_bind c \<and> cfg_udp_bind_port_lo c > cfg_udp_bind_port_hi c then
          Err (PConfig ''udp-bind port range is inverted'')
        else if cfg_nat_interface c \<noteq> None \<and> \<not> cfg_tun c then
          Err (PConfig ''--nat-interface requires --tun'')
        else Ok ()))"

section \<open>The configuration file\<close>

record server_section =
  ss_listen_addr :: "sock_addr option"
  ss_tls_cert :: "string option"
  ss_tls_key :: "string option"
  ss_shutdown_grace_sec :: "u64 option"

record quic_section =
  qs_max_idle_timeout_ms :: "u64 option"

record tunnel_section =
  tn_enabled :: "bool option"
  tn_device_name :: "string option"
  tn_mtu :: "u16 option"

record address_pool_section =
  ps_ipv4_range :: "ipv4_net option"
  ps_ipv6_range :: "ipv6_net option"

record routing_section =
  rs_split_routes :: "(ip_net list) option"
  rs_accept_client_routes :: "bool option"
  rs_nat_interface :: "string option"

record auth_section =
  as_mode :: "auth_mode option"
  as_bearer_tokens :: "(string list) option"
  as_basic_credentials :: "(string list) option"
  as_client_ca :: "string option"

record limits_section =
  ls_max_sessions :: "nat option"
  ls_session_idle_timeout_sec :: "u64 option"
  ls_max_packet_rate :: "u64 option"
  ls_max_byte_rate :: "u64 option"

record metrics_section =
  ms_listen :: "sock_addr option"

record udp_bind_section =
  us_enabled :: "bool option"
  us_public_ips :: "(ip_addr list) option"
  us_port_lo :: "u16 option"
  us_port_hi :: "u16 option"
  us_max_pps :: "u64 option"
  us_max_bps :: "u64 option"
  us_allow_dest :: "(ip_net list) option"

record file_config =
  fc_server :: "server_section option"
  fc_quic :: "quic_section option"
  fc_tunnel :: "tunnel_section option"
  fc_address_pool :: "address_pool_section option"
  fc_routing :: "routing_section option"
  fc_auth :: "auth_section option"
  fc_limits :: "limits_section option"
  fc_metrics :: "metrics_section option"
  fc_udp_bind :: "udp_bind_section option"

text \<open>An optional value that, when present, replaces a field; one that replaces an optional field.\<close>

definition set_v :: "(('a \<Rightarrow> 'a) \<Rightarrow> 'c \<Rightarrow> 'c) \<Rightarrow> 'a option \<Rightarrow> 'c \<Rightarrow> 'c" where
  "set_v update v c = (case v of Some x \<Rightarrow> update (\<lambda>_. x) c | None \<Rightarrow> c)"

definition set_o :: "(('a option \<Rightarrow> 'a option) \<Rightarrow> 'c \<Rightarrow> 'c) \<Rightarrow> 'a option \<Rightarrow> 'c \<Rightarrow> 'c" where
  "set_o update v c = (if v \<noteq> None then update (\<lambda>_. v) c else c)"

definition apply_server :: "server_section \<Rightarrow> proxy_config \<Rightarrow> proxy_config" where
  "apply_server s =
     set_v cfg_shutdown_grace_sec_update (ss_shutdown_grace_sec s) \<circ>
     set_o cfg_key_update (ss_tls_key s) \<circ>
     set_o cfg_cert_update (ss_tls_cert s) \<circ>
     set_v cfg_listen_update (ss_listen_addr s)"

definition apply_quic :: "quic_section \<Rightarrow> proxy_config \<Rightarrow> proxy_config" where
  "apply_quic s =
     set_v cfg_idle_timeout_ms_update (qs_max_idle_timeout_ms s)"

definition apply_tunnel :: "tunnel_section \<Rightarrow> proxy_config \<Rightarrow> proxy_config" where
  "apply_tunnel s =
     set_v cfg_mtu_update (tn_mtu s) \<circ>
     set_v cfg_tun_name_update (tn_device_name s) \<circ>
     set_v cfg_tun_update (tn_enabled s)"

definition apply_address_pool :: "address_pool_section \<Rightarrow> proxy_config \<Rightarrow> proxy_config" where
  "apply_address_pool s =
     set_o cfg_ipv6_pool_update (ps_ipv6_range s) \<circ>
     set_v cfg_ipv4_pool_update (ps_ipv4_range s)"

definition apply_routing :: "routing_section \<Rightarrow> proxy_config \<Rightarrow> proxy_config" where
  "apply_routing s =
     set_o cfg_nat_interface_update (rs_nat_interface s) \<circ>
     set_v cfg_accept_client_routes_update (rs_accept_client_routes s) \<circ>
     set_v cfg_split_routes_update (rs_split_routes s)"

definition apply_auth_section :: "auth_section \<Rightarrow> proxy_config \<Rightarrow> proxy_config" where
  "apply_auth_section s =
     set_o cfg_client_ca_update (as_client_ca s) \<circ>
     set_v cfg_auth_basic_update (as_basic_credentials s) \<circ>
     set_v cfg_auth_token_update (as_bearer_tokens s) \<circ>
     set_v cfg_auth_mode_update (as_mode s)"

definition apply_limits :: "limits_section \<Rightarrow> proxy_config \<Rightarrow> proxy_config" where
  "apply_limits s =
     set_v cfg_max_byte_rate_update (ls_max_byte_rate s) \<circ>
     set_v cfg_max_packet_rate_update (ls_max_packet_rate s) \<circ>
     set_v cfg_session_idle_timeout_sec_update (ls_session_idle_timeout_sec s) \<circ>
     set_v cfg_max_sessions_update (ls_max_sessions s)"

definition apply_metrics :: "metrics_section \<Rightarrow> proxy_config \<Rightarrow> proxy_config" where
  "apply_metrics s =
     set_o cfg_metrics_listen_update (ms_listen s)"

definition apply_udp_bind :: "udp_bind_section \<Rightarrow> proxy_config \<Rightarrow> proxy_config" where
  "apply_udp_bind s =
     set_v cfg_udp_bind_allow_dest_update (us_allow_dest s) \<circ>
     set_v cfg_udp_bind_max_bps_update (us_max_bps s) \<circ>
     set_v cfg_udp_bind_max_pps_update (us_max_pps s) \<circ>
     set_v cfg_udp_bind_port_hi_update (us_port_hi s) \<circ>
     set_v cfg_udp_bind_port_lo_update (us_port_lo s) \<circ>
     set_v cfg_udp_bind_public_ips_update (us_public_ips s) \<circ>
     set_v cfg_udp_bind_update (us_enabled s)"

definition in_section :: "('s \<Rightarrow> proxy_config \<Rightarrow> proxy_config) \<Rightarrow> 's option \<Rightarrow> proxy_config \<Rightarrow> proxy_config" where
  "in_section f s c = (case s of Some x \<Rightarrow> f x c | None \<Rightarrow> c)"

definition apply_file :: "file_config \<Rightarrow> proxy_config \<Rightarrow> proxy_config" where
  "apply_file f =
     in_section apply_metrics (fc_metrics f) \<circ>
     in_section apply_udp_bind (fc_udp_bind f) \<circ>
     in_section apply_limits (fc_limits f) \<circ>
     in_section apply_auth_section (fc_auth f) \<circ>
     in_section apply_routing (fc_routing f) \<circ>
     in_section apply_address_pool (fc_address_pool f) \<circ>
     in_section apply_tunnel (fc_tunnel f) \<circ>
     in_section apply_quic (fc_quic f) \<circ>
     in_section apply_server (fc_server f)"

section \<open>The effective configuration\<close>

definition overlay :: "(string \<Rightarrow> bool) \<Rightarrow> string \<Rightarrow> (proxy_config \<Rightarrow> proxy_config) \<Rightarrow> proxy_config \<Rightarrow> proxy_config" where
  "overlay from_cli k set_field c = (if from_cli k then set_field c else c)"

definition overlay_cli :: "(string \<Rightarrow> bool) \<Rightarrow> proxy_config \<Rightarrow> proxy_config \<Rightarrow> proxy_config" where
  "overlay_cli from_cli cli c = foldl (\<lambda>c (k, set_field). overlay from_cli k set_field c) c
    [(''listen'', cfg_listen_update (\<lambda>_. cfg_listen cli)),
     (''cert'', cfg_cert_update (\<lambda>_. cfg_cert cli)),
     (''key'', cfg_key_update (\<lambda>_. cfg_key cli)),
     (''ipv4_pool'', cfg_ipv4_pool_update (\<lambda>_. cfg_ipv4_pool cli)),
     (''ipv6_pool'', cfg_ipv6_pool_update (\<lambda>_. cfg_ipv6_pool cli)),
     (''mtu'', cfg_mtu_update (\<lambda>_. cfg_mtu cli)),
     (''split_routes'', cfg_split_routes_update (\<lambda>_. cfg_split_routes cli)),
     (''accept_client_routes'', cfg_accept_client_routes_update (\<lambda>_. cfg_accept_client_routes cli)),
     (''tun'', cfg_tun_update (\<lambda>_. cfg_tun cli)),
     (''tun_name'', cfg_tun_name_update (\<lambda>_. cfg_tun_name cli)),
     (''idle_timeout_ms'', cfg_idle_timeout_ms_update (\<lambda>_. cfg_idle_timeout_ms cli)),
     (''max_sessions'', cfg_max_sessions_update (\<lambda>_. cfg_max_sessions cli)),
     (''auth_mode'', cfg_auth_mode_update (\<lambda>_. cfg_auth_mode cli)),
     (''auth_token'', cfg_auth_token_update (\<lambda>_. cfg_auth_token cli)),
     (''auth_basic'', cfg_auth_basic_update (\<lambda>_. cfg_auth_basic cli)),
     (''client_ca'', cfg_client_ca_update (\<lambda>_. cfg_client_ca cli)),
     (''session_idle_timeout_sec'', cfg_session_idle_timeout_sec_update (\<lambda>_. cfg_session_idle_timeout_sec cli)),
     (''max_packet_rate'', cfg_max_packet_rate_update (\<lambda>_. cfg_max_packet_rate cli)),
     (''max_byte_rate'', cfg_max_byte_rate_update (\<lambda>_. cfg_max_byte_rate cli)),
     (''metrics_listen'', cfg_metrics_listen_update (\<lambda>_. cfg_metrics_listen cli)),
     (''nat_interface'', cfg_nat_interface_update (\<lambda>_. cfg_nat_interface cli)),
     (''shutdown_grace_sec'', cfg_shutdown_grace_sec_update (\<lambda>_. cfg_shutdown_grace_sec cli)),
     (''udp_bind'', cfg_udp_bind_update (\<lambda>_. cfg_udp_bind cli)),
     (''udp_bind_public_ips'', cfg_udp_bind_public_ips_update (\<lambda>_. cfg_udp_bind_public_ips cli)),
     (''udp_bind_port_lo'', cfg_udp_bind_port_lo_update (\<lambda>_. cfg_udp_bind_port_lo cli)),
     (''udp_bind_port_hi'', cfg_udp_bind_port_hi_update (\<lambda>_. cfg_udp_bind_port_hi cli)),
     (''udp_bind_max_pps'', cfg_udp_bind_max_pps_update (\<lambda>_. cfg_udp_bind_max_pps cli)),
     (''udp_bind_max_bps'', cfg_udp_bind_max_bps_update (\<lambda>_. cfg_udp_bind_max_bps cli)),
     (''udp_bind_allow_dest'', cfg_udp_bind_allow_dest_update (\<lambda>_. cfg_udp_bind_allow_dest cli)),
     (''stun_addr'', cfg_stun_addr_update (\<lambda>_. cfg_stun_addr cli)),
     (''stun_alt_addr'', cfg_stun_alt_addr_update (\<lambda>_. cfg_stun_alt_addr cli))]"

text \<open>
  \<open>resolve_from\<close>: \<open>parse\<close> is the argument parser (the parsed options, which of them were given, the
  configuration file named), \<open>read\<close> and \<open>toml\<close> read and parse that file.
\<close>

definition resolve_from ::
    "('args \<Rightarrow> (string, proxy_config \<times> (string \<Rightarrow> bool) \<times> string option) res) \<Rightarrow>
     (string \<Rightarrow> (string, string) res) \<Rightarrow> (string \<Rightarrow> (string, file_config) res) \<Rightarrow>
     'args \<Rightarrow> (proxy_error, proxy_config) res" where
  "resolve_from parse read toml args =
     and_then (map_err PConfig (parse args)) (\<lambda>(cli, from_cli, path).
     and_then (case path of
         None \<Rightarrow> Ok config_default
       | Some p \<Rightarrow>
           and_then (map_err PIo (read p)) (\<lambda>contents.
           and_then (map_err (\<lambda>e. PConfig (p @ '': '' @ e)) (toml contents)) (\<lambda>file.
           Ok (apply_file file config_default)))) (\<lambda>c.
     Ok (overlay_cli from_cli cli c)))"

end
