(* ===== verification/Session.thy ===== *)
theory Session
  imports Address_Pool Limiter Uri_Template Auth
begin

text \<open>
  Session identifiers and the table of sessions, \<open>src/src/session/mod.rs\<close>. The table keeps a
  second map with the assigned addresses, which the packet path reads for every datagram.
\<close>

unbundle bit_operations_syntax

section \<open>Definitions\<close>

definition STREAM_MASK :: u64 where
  "STREAM_MASK = push_bit 40 1 - 1"

definition compose :: "u64 \<Rightarrow> u64 \<Rightarrow> session_id" where
  "compose conn_seq stream_id = push_bit 40 conn_seq OR (stream_id AND STREAM_MASK)"

definition sid_stream_id :: "session_id \<Rightarrow> u64" where
  "sid_stream_id i = i AND STREAM_MASK"

definition sid_conn_seq :: "session_id \<Rightarrow> u64" where
  "sid_conn_seq i = drop_bit 40 i"

definition show_session_id :: "session_id \<Rightarrow> string" where
  "show_session_id i = show_nat (unat (sid_conn_seq i)) @ '':'' @ show_nat (unat (sid_stream_id i))"

record tunnel_session =
  ts_id :: session_id
  ts_scope :: request_scope
  ts_assigned_addresses :: "assigned_address list"
  ts_advertised_routes :: "ip_address_range list"
  ts_client_routes :: "ip_address_range list"
  ts_proxy_addresses :: "assigned_address list"
  ts_auth :: auth_context
  ts_last_activity :: instant

definition ts_new :: "session_id \<Rightarrow> request_scope \<Rightarrow> auth_context \<Rightarrow> instant \<Rightarrow> tunnel_session" where
  "ts_new i scope auth now =
     \<lparr>ts_id = i, ts_scope = scope, ts_assigned_addresses = [], ts_advertised_routes = [],
      ts_client_routes = [], ts_proxy_addresses = [], ts_auth = auth, ts_last_activity = now\<rparr>"

record session_manager =
  sm_sessions :: "session_id \<rightharpoonup> tunnel_session"
  sm_assigned :: "session_id \<rightharpoonup> assigned_address list"
  sm_max_sessions :: nat

definition sm_new :: "nat \<Rightarrow> session_manager" where
  "sm_new max_sessions =
     \<lparr>sm_sessions = Map.empty, sm_assigned = Map.empty, sm_max_sessions = max_sessions\<rparr>"

definition sm_len :: "session_manager \<Rightarrow> nat" where
  "sm_len m = card (dom (sm_sessions m))"

definition sm_is_empty :: "session_manager \<Rightarrow> bool" where
  "sm_is_empty m \<longleftrightarrow> dom (sm_sessions m) = {}"

definition sm_insert :: "tunnel_session \<Rightarrow> session_manager \<Rightarrow> (proxy_error, unit) res \<times> session_manager" where
  "sm_insert s m =
     (if sm_max_sessions m > 0 \<and> sm_len m \<ge> sm_max_sessions m then
        (Err (InvalidRequest (''session limit reached ('' @ show_nat (sm_max_sessions m) @ '')'')), m)
      else
        (Ok (), m\<lparr>sm_assigned := (sm_assigned m)(ts_id s \<mapsto> ts_assigned_addresses s),
                  sm_sessions := (sm_sessions m)(ts_id s \<mapsto> s)\<rparr>))"

text \<open>\<open>if let Some(mut s) = self.sessions.get_mut(&id)\<close>.\<close>

definition modify_session ::
    "session_id \<Rightarrow> (tunnel_session \<Rightarrow> tunnel_session) \<Rightarrow> session_manager \<Rightarrow> session_manager" where
  "modify_session i f m = (case sm_sessions m i of
      Some s \<Rightarrow> m\<lparr>sm_sessions := (sm_sessions m)(i \<mapsto> f s)\<rparr> | None \<Rightarrow> m)"

definition set_assigned :: "session_id \<Rightarrow> assigned_address list \<Rightarrow> session_manager \<Rightarrow> session_manager" where
  "set_assigned i addrs m =
     (modify_session i (ts_assigned_addresses_update (\<lambda>_. addrs)) m)
       \<lparr>sm_assigned := (sm_assigned m)(i \<mapsto> addrs)\<rparr>"

definition set_client_routes :: "session_id \<Rightarrow> ip_address_range list \<Rightarrow> session_manager \<Rightarrow> session_manager" where
  "set_client_routes i routes = modify_session i (ts_client_routes_update (\<lambda>_. routes))"

definition set_proxy_addresses :: "session_id \<Rightarrow> assigned_address list \<Rightarrow> session_manager \<Rightarrow> session_manager" where
  "set_proxy_addresses i addrs = modify_session i (ts_proxy_addresses_update (\<lambda>_. addrs))"

definition assigned_snapshot :: "session_manager \<Rightarrow> session_id \<Rightarrow> assigned_address list option" where
  "assigned_snapshot m i = sm_assigned m i"

definition touch :: "instant \<Rightarrow> session_id \<Rightarrow> session_manager \<Rightarrow> session_manager" where
  "touch now i = modify_session i (ts_last_activity_update (\<lambda>_. now))"

definition sm_remove :: "session_id \<Rightarrow> session_manager \<Rightarrow> session_manager" where
  "sm_remove i m = m\<lparr>sm_sessions := (sm_sessions m)(i := None), sm_assigned := (sm_assigned m)(i := None)\<rparr>"

definition idle_sessions ::
    "(session_id, tunnel_session) map_iter \<Rightarrow> instant \<Rightarrow> nat \<Rightarrow> session_manager \<Rightarrow> session_id list" where
  "idle_sessions iter now max_idle m =
     map (ts_id \<circ> snd) (filter (\<lambda>(i, s). now - ts_last_activity s > max_idle) (iter (sm_sessions m)))"

section \<open>Identifiers\<close>

lemma STREAM_MASK_eq: "STREAM_MASK = mask 40"
  by (simp add: STREAM_MASK_def mask_eq_exp_minus_1)

lemma take_bit_small: "unat x < 2 ^ n \<Longrightarrow> take_bit n (x :: u64) = x"
proof -
  assume "unat x < 2 ^ n"
  then have "unat (take_bit n x) = unat x" by (simp only: unsigned_take_bit_eq take_bit_nat_eq_self)
  then show ?thesis by (simp only: word_unat_eq_iff)
qed

text \<open>
  A connection number below \<open>2 ^ 24\<close> and a stream below \<open>2 ^ 40\<close> are recovered from the
  identifier, so such identifiers are unique.
\<close>

lemma compose_parts:
  assumes "unat c < 2 ^ 24" "unat s < 2 ^ 40"
  shows "sid_conn_seq (compose c s) = c" "sid_stream_id (compose c s) = s"
proof -
  have c: "take_bit 24 c = c" and s: "take_bit 40 s = s" using assms by (simp_all only: take_bit_small)
  have "drop_bit 40 (compose c s) = take_bit 24 c"
    by (rule bit_word_eqI) (auto simp: compose_def STREAM_MASK_eq bit_simps)
  then show "sid_conn_seq (compose c s) = c" using c by (simp add: sid_conn_seq_def)
  have "compose c s AND STREAM_MASK = take_bit 40 s"
    by (rule bit_word_eqI) (auto simp: compose_def STREAM_MASK_eq bit_simps)
  then show "sid_stream_id (compose c s) = s" using s by (simp add: sid_stream_id_def)
qed

lemma compose_inj:
  assumes "unat c < 2 ^ 24" "unat s < 2 ^ 40" "unat c' < 2 ^ 24" "unat s' < 2 ^ 40"
    "compose c s = compose c' s'"
  shows "c = c' \<and> s = s'"
  using compose_parts [OF assms(1,2)] compose_parts [OF assms(3,4)] assms(5) by simp

text \<open>The connection counter is a 64-bit number; past \<open>2 ^ 24\<close> connections identifiers repeat.\<close>

lemma compose_collision: "compose (2 ^ 24) s = compose 0 s"
proof -
  have "push_bit 40 (2 ^ 24 :: u64) = 2 ^ LENGTH(64)" by (simp add: push_bit_eq_mult)
  then have "push_bit 40 (2 ^ 24 :: u64) = 0" by (simp only: word_exp_length_eq_0)
  then show ?thesis by (simp only: compose_def push_bit_of_0)
qed

section \<open>The table\<close>

text \<open>
  The snapshot of the packet path agrees with the session, the sessions are filed under their
  own identifiers and their number is bounded.
\<close>

definition sm_inv :: "session_manager \<Rightarrow> bool" where
  "sm_inv m \<longleftrightarrow> finite (dom (sm_sessions m)) \<and>
     (\<forall>i s. sm_sessions m i = Some s \<longrightarrow> ts_id s = i \<and> sm_assigned m i = Some (ts_assigned_addresses s)) \<and>
     (sm_max_sessions m > 0 \<longrightarrow> sm_len m \<le> sm_max_sessions m)"

lemma sm_new_inv: "sm_inv (sm_new n)"
  by (simp add: sm_inv_def sm_new_def sm_len_def)

lemma sm_insert_inv:
  assumes "sm_inv m" "sm_insert s m = (r, m')"
  shows "sm_inv m'"
proof (cases "sm_max_sessions m > 0 \<and> sm_len m \<ge> sm_max_sessions m")
  case False
  then have "m' = m\<lparr>sm_assigned := (sm_assigned m)(ts_id s \<mapsto> ts_assigned_addresses s),
                  sm_sessions := (sm_sessions m)(ts_id s \<mapsto> s)\<rparr>"
    using assms(2) by (auto simp: sm_insert_def)
  moreover have "card (insert (ts_id s) (dom (sm_sessions m))) \<le> Suc (card (dom (sm_sessions m)))"
    using assms(1) by (simp add: card_insert_if sm_inv_def)
  ultimately show ?thesis using assms(1) False by (auto simp: sm_inv_def sm_len_def)
qed (use assms in \<open>auto simp: sm_insert_def\<close>)

lemma modify_session_dom [simp]: "dom (sm_sessions (modify_session i f m)) = dom (sm_sessions m)"
  by (auto simp: modify_session_def split: option.split)

lemma modify_session_simps [simp]:
  "sm_assigned (modify_session i f m) = sm_assigned m"
  "sm_max_sessions (modify_session i f m) = sm_max_sessions m"
  "sm_sessions (modify_session i f m) j = (if j = i then map_option f (sm_sessions m i) else sm_sessions m j)"
  by (auto simp: modify_session_def split: option.split)

lemma modify_session_inv:
  assumes "sm_inv m" "\<And>s. ts_id (f s) = ts_id s" "\<And>s. ts_assigned_addresses (f s) = ts_assigned_addresses s"
  shows "sm_inv (modify_session i f m)"
  using assms by (auto simp: sm_inv_def sm_len_def)

lemma set_assigned_inv: "sm_inv m \<Longrightarrow> sm_inv (set_assigned i addrs m)"
  by (auto simp: sm_inv_def sm_len_def set_assigned_def)

lemma sm_remove_inv:
  assumes "sm_inv m"
  shows "sm_inv (sm_remove i m)"
proof -
  have "card (dom (sm_sessions m) - {i}) \<le> card (dom (sm_sessions m))"
    using assms by (intro card_mono) (auto simp: sm_inv_def)
  then show ?thesis using assms by (auto simp: sm_inv_def sm_remove_def sm_len_def)
qed

lemma sm_set_inv [simp]:
  "sm_inv m \<Longrightarrow> sm_inv (set_client_routes i routes m)"
  "sm_inv m \<Longrightarrow> sm_inv (set_proxy_addresses i addrs m)"
  "sm_inv m \<Longrightarrow> sm_inv (touch now i m)"
  by (simp_all add: set_client_routes_def set_proxy_addresses_def touch_def modify_session_inv)

lemma idle_sessions_iff:
  assumes "sm_inv m" "hash_iter iter"
  shows "i \<in> set (idle_sessions iter now max_idle m) \<longleftrightarrow>
    (\<exists>s. sm_sessions m i = Some s \<and> now - ts_last_activity s > max_idle)"
proof -
  have "set (iter (sm_sessions m)) = {(k, v). sm_sessions m k = Some v}"
    using assms by (simp add: hash_iter_def sm_inv_def)
  moreover have "ts_id s = k" if "sm_sessions m k = Some s" for k s
    using assms(1) that by (simp add: sm_inv_def)
  ultimately show ?thesis by (auto simp: idle_sessions_def image_iff) metis
qed

end
