(* ===== verification/Udp_Bind.thy ===== *)
theory Udp_Bind
  imports Port_Alloc Context_Table Limiter Address_Pool
begin

text \<open>
  The relay's side of a bind session, \<open>src/src/udp_bind/socket.rs\<close> and \<open>src/src/udp_bind/mod.rs\<close>:
  which destinations may be sent to, the bound socket with its two loops, and the registry of
  bind sessions. The two loops share the context table with the capsule handler; each iteration
  of a loop is one function on the state of the session. What reaches the network
  and the queue to the peer is appended to \<open>bs_to_net\<close> and \<open>bs_to_peer\<close>.
\<close>

unbundle bit_operations_syntax

section \<open>Destinations\<close>

record destination_policy =
  dp_denied :: "ip_net list"
  dp_allowed :: "ip_net list"
  dp_allow_all :: bool

definition dp_default :: destination_policy where
  "dp_default = \<lparr>dp_denied = [], dp_allowed = [], dp_allow_all = False\<rparr>"

definition with_denied :: "ip_net list \<Rightarrow> destination_policy" where
  "with_denied denied = dp_default\<lparr>dp_denied := denied\<rparr>"

definition dp_new :: "ip_net list \<Rightarrow> ip_net list \<Rightarrow> destination_policy" where
  "dp_new allowed denied = \<lparr>dp_denied = denied, dp_allowed = allowed, dp_allow_all = False\<rparr>"

definition allow_all_for_test :: destination_policy where
  "allow_all_for_test = dp_default\<lparr>dp_allow_all := True\<rparr>"

fun is_local :: "ip_addr \<Rightarrow> bool" where
  "is_local (V4 a) \<longleftrightarrow> is_private4 a \<or> is_loopback4 a \<or> is_link_local4 a \<or> is_multicast4 a \<or>
     is_broadcast4 a \<or> is_unspecified4 a \<or> octets4 a ! 0 = 0"
| "is_local (V6 a) \<longleftrightarrow> is_loopback6 a \<or> is_multicast6 a \<or> is_unspecified6 a \<or>
     segment0 a AND 0xFFC0 = 0xFE80 \<or> segment0 a AND 0xFE00 = 0xFC00"

definition dp_allows :: "ipnet_api \<Rightarrow> destination_policy \<Rightarrow> sock_addr \<Rightarrow> bool" where
  "dp_allows api p addr =
     (if sa_port addr = 0 then False
      else if dp_allow_all p then True
      else if list_ex (\<lambda>net. net_contains api net (sa_ip addr)) (dp_denied p) then False
      else if list_ex (\<lambda>net. net_contains api net (sa_ip addr)) (dp_allowed p) then True
      else \<not> is_local (sa_ip addr))"

section \<open>The bound socket\<close>

definition MAX_UDP_PAYLOAD :: nat where
  "MAX_UDP_PAYLOAD = 65535"

record bind_socket =
  bs_public_addr :: sock_addr
  bs_contexts :: context_table
  bs_policy :: destination_policy
  bs_limiter :: session_limiter
  bs_to_net :: "(sock_addr \<times> bytes) list"
  bs_to_peer :: "bytes list"

text \<open>\<open>bind\<close>: the socket reports its address, which replaces a requested port 0.\<close>

definition bs_bind ::
    "sock_addr \<Rightarrow> (string, sock_addr) res \<Rightarrow> context_table \<Rightarrow> destination_policy \<Rightarrow> session_limiter \<Rightarrow>
     (string, bind_socket) res" where
  "bs_bind public_addr os contexts policy limiter = and_then os (\<lambda>local_addr.
     Ok \<lparr>bs_public_addr = local_addr, bs_contexts = contexts, bs_policy = policy, bs_limiter = limiter,
         bs_to_net = [], bs_to_peer = []\<rparr>)"

text \<open>
  Network to peer: one packet of at most \<open>MAX_UDP_PAYLOAD\<close> bytes from the socket. \<open>queue_ok\<close> says
  whether the queue to the peer has room.
\<close>

definition inbound_step :: "binding_iter \<Rightarrow> bool \<Rightarrow> sock_addr \<Rightarrow> bytes \<Rightarrow> bind_socket \<Rightarrow> (unit, bind_socket) res" where
  "inbound_step iter queue_ok remote packet b =
     and_then (encapsulate iter (bs_contexts b) remote (take MAX_UDP_PAYLOAD packet)) (\<lambda>wire.
       case wire of
         Some wire \<Rightarrow> Ok (if queue_ok then b\<lparr>bs_to_peer := bs_to_peer b @ [wire]\<rparr> else b)
       | None \<Rightarrow> Ok b)"

text \<open>Peer to network: one datagram body from the peer. \<open>send_ok\<close> says whether the socket sends.\<close>

definition outbound_step ::
    "ipnet_api \<Rightarrow> instant \<Rightarrow> bool \<Rightarrow> bytes \<Rightarrow> bind_socket \<Rightarrow> (unit, bind_socket) res" where
  "outbound_step api now send_ok body b = (case decode_datagram (bs_contexts b) body of
      Panic \<Rightarrow> Panic
    | Err _ \<Rightarrow> Ok b
    | Ok dg \<Rightarrow>
        if \<not> dp_allows api (bs_policy b) (bd_remote dg) then Ok b
        else
          (let (ok, l) = try_consume_at (word_of_nat (length (bd_payload dg))) now (bs_limiter b);
               b = b\<lparr>bs_limiter := l\<rparr> in
           Ok (if \<not> ok then b
               else if send_ok then b\<lparr>bs_to_net := bs_to_net b @ [(bd_remote dg, bd_payload dg)]\<rparr>
               else b)))"

section \<open>The registry\<close>

record udp_bind_state =
  ub_allocator :: "port_allocator option"
  ub_policy :: destination_policy
  ub_egress_limits :: rate_limits
  ub_sessions :: "session_id \<rightharpoonup> nat"

definition ub_disabled :: udp_bind_state where
  "ub_disabled = \<lparr>ub_allocator = None, ub_policy = dp_default,
     ub_egress_limits = \<lparr>packets_per_sec = 0, bytes_per_sec = 0\<rparr>, ub_sessions = Map.empty\<rparr>"

definition ub_enabled :: "port_allocator \<Rightarrow> destination_policy \<Rightarrow> rate_limits \<Rightarrow> udp_bind_state" where
  "ub_enabled allocator policy limits = \<lparr>ub_allocator = Some allocator, ub_policy = policy,
     ub_egress_limits = limits, ub_sessions = Map.empty\<rparr>"

definition ub_is_enabled :: "udp_bind_state \<Rightarrow> bool" where
  "ub_is_enabled u \<longleftrightarrow> ub_allocator u \<noteq> None"

definition ub_register :: "session_id \<Rightarrow> nat \<Rightarrow> udp_bind_state \<Rightarrow> udp_bind_state" where
  "ub_register i sink u = u\<lparr>ub_sessions := (ub_sessions u)(i \<mapsto> sink)\<rparr>"

definition ub_unregister :: "session_id \<Rightarrow> udp_bind_state \<Rightarrow> udp_bind_state" where
  "ub_unregister i u = u\<lparr>ub_sessions := (ub_sessions u)(i := None)\<rparr>"

definition ub_sink :: "udp_bind_state \<Rightarrow> session_id \<Rightarrow> nat option" where
  "ub_sink u i = ub_sessions u i"

end
