(* ===== verification/Http_Stream.thy ===== *)
theory Http_Stream
  imports Auth Capsule_Stream
begin

text \<open>
  What the request handlers see of HTTP/3: a request, and a stream on which they send a response,
  data and the end of the stream. The h3 crate is outside the sources; whether it accepts a send
  is the list \<open>st_accepts\<close>, one entry for each send to come (accepted when the list is used up).
\<close>

record request =
  rq_method :: string
  rq_protocol :: "string option"
  rq_headers :: header_map
  rq_path :: string

datatype frame = Response nat "(string \<times> string) list" | Data bytes | Finish

record req_stream =
  st_id :: u64
  st_accepts :: "bool list"
  st_sent :: "frame list"

definition send_frame :: "frame \<Rightarrow> (req_stream, proxy_error, unit) action" where
  "send_frame f s = (case st_accepts s of
      [] \<Rightarrow> (Ok (), s\<lparr>st_sent := st_sent s @ [f]\<rparr>)
    | True # rest \<Rightarrow> (Ok (), s\<lparr>st_accepts := rest, st_sent := st_sent s @ [f]\<rparr>)
    | False # rest \<Rightarrow> (Err (of_h3_error ''stream''), s\<lparr>st_accepts := rest\<rparr>))"

text \<open>A header of the request with exactly this value, up to surrounding white space.\<close>

definition header_is :: "request \<Rightarrow> string \<Rightarrow> string \<Rightarrow> bool" where
  "header_is req name v = (case rq_headers req name of Some x \<Rightarrow> trim x = v | None \<Rightarrow> False)"

text \<open>An error response that ends the stream, \<open>respond\<close>.\<close>

definition respond :: "nat \<Rightarrow> (req_stream, proxy_error, unit) action" where
  "respond status = rbind (send_frame (Response status [])) (\<lambda>_. send_frame Finish)"

text \<open>A send only appends, at most the frame given.\<close>

lemma send_frame_cases:
  assumes "send_frame f s = (r, s')"
  shows "(r = Ok () \<and> st_sent s' = st_sent s @ [f] \<or> (\<exists>e. r = Err e) \<and> st_sent s' = st_sent s) \<and> st_id s' = st_id s"
  using assms by (auto simp: send_frame_def split: list.splits bool.splits)

lemma send_frame_no_panic: "no_panic (send_frame f)"
  by (auto simp: no_panic_def send_frame_def split: list.split bool.split)

section \<open>The capsules of a stream\<close>

text \<open>
  The loop \<open>while let Some(capsule) = capsules.next_capsule()? { .. }\<close> of the session handlers: the
  handler runs on each capsule of the buffer in turn; the first error ends the loop. The buffer
  that is left is the result.
\<close>

function process_capsules ::
    "(capsule \<Rightarrow> ('s, proxy_error, unit) action) \<Rightarrow> capsule_buffer \<Rightarrow> ('s, proxy_error, capsule_buffer) action" where
  "process_capsules h b = (case next_capsule b of
      (Ok None, b') \<Rightarrow> rret b'
    | (Ok (Some c), b') \<Rightarrow> rbind (h c) (\<lambda>_. process_capsules h b')
    | (Err e, _) \<Rightarrow> rfail (PDecode e)
    | (Panic, _) \<Rightarrow> rlift Panic)"
  by pat_completeness auto
termination
  by (relation "measure (\<lambda>(h, b). length (cb_buf b))") (auto dest: next_capsule_shorter [OF sym])

declare process_capsules.simps [simp del]

fun each :: "('a \<Rightarrow> ('s, 'e, unit) action) \<Rightarrow> 'a list \<Rightarrow> ('s, 'e, unit) action" where
  "each h [] = rret ()"
| "each h (x # xs) = rbind (h x) (\<lambda>_. each h xs)"

lemma rbind_assoc: "rbind (rbind m f) g = rbind m (\<lambda>x. rbind (f x) g)"
  by (auto simp: rbind_def fun_eq_iff split: prod.split res.split)

lemma rbind_rret_left: "rbind (rret x) f = f x"
  by (simp add: rbind_def rret_def fun_eq_iff)

text \<open>The loop is the handler on every capsule that the buffer holds, then the end of the buffer.\<close>

lemma process_capsules_drain:
  "process_capsules h b = (case drain b of (cs, r, b') \<Rightarrow>
     rbind (each h cs) (\<lambda>_. rlift (and_then (map_err PDecode r) (\<lambda>_. Ok b'))))"
proof (induction h b rule: process_capsules.induct)
  case (1 h b)
  obtain r b' where n: "next_capsule b = (r, b')" by (cases "next_capsule b")
  show ?case
  proof (cases r)
    case (Ok o')
    show ?thesis
    proof (cases o')
      case None
      then show ?thesis using n Ok
        by (simp add: process_capsules.simps [of h b] drain.simps [of b] rbind_rret_left rlift_def rret_def)
    next
      case (Some c)
      then show ?thesis using n Ok 1 [OF n [symmetric]]
        by (simp add: process_capsules.simps [of h b] drain.simps [of b] rbind_assoc split: prod.split)
    qed
  qed (use n in \<open>simp_all add: process_capsules.simps [of h b] drain.simps [of b] rbind_rret_left
        rlift_def rfail_def\<close>)
qed

text \<open>A capsule takes at least two bytes, so the loop ends after at most half the bytes buffered.\<close>

lemma envelope_two: "envelope s = Some (t, p, rest) \<Longrightarrow> length rest + 2 \<le> length s"
  by (auto simp: envelope_eq_Some dest!: read_varint_shorter)

lemma drain_count: "drain b = (cs, r, b') \<Longrightarrow> 2 * length cs + length (cb_buf b') \<le> length (cb_buf b)"
proof (induction b arbitrary: cs r b' rule: drain.induct)
  case (1 b)
  show ?case
  proof (cases "envelope (cb_buf b)")
    case None
    then show ?thesis using 1(2) by (auto simp: drain_None)
  next
    case (Some e)
    obtain t p rest where e: "e = (t, p, rest)" by (cases e)
    note two = envelope_two [OF Some [unfolded e]]
    show ?thesis
    proof (cases "decode_payload t p")
      case (Ok c)
      have "next_capsule b = (Ok (Some c), b\<lparr>cb_buf := rest\<rparr>)"
        using Some e Ok by (simp add: next_capsule_envelope)
      note IH = 1(1) [OF this [symmetric]]
      obtain cs1 where "drain (b\<lparr>cb_buf := rest\<rparr>) = (cs1, r, b')" "cs = c # cs1"
        using 1(2) Some e Ok by (auto simp: drain_Some split: prod.splits)
      then show ?thesis using IH two by fastforce
    qed (use 1(2) Some e two in \<open>auto simp: drain_Some\<close>)
  qed
qed

lemma drain_end:
  "drain b = (cs, r, b') \<Longrightarrow> case r of Ok _ \<Rightarrow> next_capsule b' = (Ok None, b') | Err _ \<Rightarrow> True | Panic \<Rightarrow> False"
proof (induction b arbitrary: cs r b' rule: drain.induct)
  case (1 b)
  show ?case
  proof (cases "envelope (cb_buf b)")
    case None
    then show ?thesis using 1(2) by (auto simp: drain_None next_capsule_envelope)
  next
    case (Some e)
    obtain t p rest where e: "e = (t, p, rest)" by (cases e)
    show ?thesis
    proof (cases "decode_payload t p")
      case (Ok c)
      have "next_capsule b = (Ok (Some c), b\<lparr>cb_buf := rest\<rparr>)"
        using Some e Ok by (simp add: next_capsule_envelope)
      note IH = 1(1) [OF this [symmetric]]
      obtain cs1 where "drain (b\<lparr>cb_buf := rest\<rparr>) = (cs1, r, b')"
        using 1(2) Some e Ok by (auto simp: drain_Some split: prod.splits)
      then show ?thesis using IH by blast
    qed (use 1(2) Some e decode_payload_no_panic in \<open>auto simp: drain_Some\<close>)
  qed
qed

section \<open>Properties\<close>

text \<open>
  C19: the capsule loop of a session handler ends, whatever the peer sent and whatever the handler
  does. It runs the handler once on each capsule of the buffer, in order, and there are at most
  half as many of these as bytes buffered; it stops at a malformed capsule or when the bytes left,
  which it keeps, hold no complete one.
\<close>

theorem capsule_loop_terminates:
  "\<exists>cs r b'. drain b = (cs, r, b') \<and> 2 * length cs + length (cb_buf b') \<le> length (cb_buf b) \<and>
     process_capsules h b = rbind (each h cs) (\<lambda>_. rlift (and_then (map_err PDecode r) (\<lambda>_. Ok b'))) \<and>
     (case r of Ok _ \<Rightarrow> next_capsule b' = (Ok None, b') | Err _ \<Rightarrow> True | Panic \<Rightarrow> False)"
proof -
  obtain cs r b' where d: "drain b = (cs, r, b')" by (cases "drain b")
  then show ?thesis using drain_count [OF d] drain_end [OF d] process_capsules_drain [of h b] by auto
qed

end
