(* ===== verification/Proxy_Context.thy ===== *)
theory Proxy_Context
  imports Config Session Forwarding Udp_Bind Http_Stream
begin

text \<open>
  The state shared by all tasks of the proxy, \<open>ProxyContext\<close> of \<open>src/src/server.rs\<close>, as
  \<open>src/src/main.rs\<close> builds it from the configuration. The metrics are those of the engine, with
  which the context shares them. A handler is an action on its task: the shared state, the
  request stream it serves and the addresses it has assigned.
\<close>

section \<open>The context\<close>

record proxy_ctx =
  px_config :: proxy_config
  px_sessions :: session_manager
  px_pool :: address_pool
  px_engine :: engine
  px_auth :: authenticator
  px_udp_bind :: udp_bind_state

definition main_auth :: "proxy_config \<Rightarrow> (proxy_error, authenticator) res" where
  "main_auth c = and_then (basic_credentials c) (\<lambda>creds.
     Ok (au_new (cfg_auth_mode c) (cfg_auth_token c) creds))"

text \<open>\<open>tun\<close> says whether the kernel device is up.\<close>

definition main_engine :: "ipnet_api \<Rightarrow> proxy_config \<Rightarrow> address_pool \<Rightarrow> bool \<Rightarrow> engine" where
  "main_engine api c pool tun =
     fe_new rt_new tun (cfg_mtu c)
       \<lparr>is_v4 = fst (ipv4_gateway api pool), is_v6 = map_option fst (ipv6_gateway api pool)\<rparr>
       \<lparr>packets_per_sec = cfg_max_packet_rate c, bytes_per_sec = cfg_max_byte_rate c\<rparr> metrics_default"

definition main_udp_bind :: "proxy_config \<Rightarrow> (alloc_error, udp_bind_state) res" where
  "main_udp_bind c =
     (if cfg_udp_bind c then
        and_then (pa_new (cfg_udp_bind_public_ips c) (cfg_udp_bind_port_lo c) (cfg_udp_bind_port_hi c)) (\<lambda>allocator.
        Ok (ub_enabled allocator (dp_new (cfg_udp_bind_allow_dest c) [])
             \<lparr>packets_per_sec = cfg_udp_bind_max_pps c, bytes_per_sec = cfg_udp_bind_max_bps c\<rparr>))
      else Ok ub_disabled)"

definition alloc_error_text :: "alloc_error \<Rightarrow> string" where
  "alloc_error_text e = (case e of
      NoPublicIp \<Rightarrow> ''udp_bind allocator needs at least one public IP''
    | InvertedRange lo hi \<Rightarrow> ''inverted port range '' @ show_nat (unat lo) @ ''..='' @ show_nat (unat hi))"

definition main_context :: "ipnet_api \<Rightarrow> proxy_config \<Rightarrow> bool \<Rightarrow> (proxy_error, proxy_ctx) res" where
  "main_context api c tun =
     and_then (validate c) (\<lambda>_.
     and_then (main_auth c) (\<lambda>auth.
     let pool = ap_new (cfg_ipv4_pool c) (cfg_ipv6_pool c) in
     and_then (map_err (PConfig \<circ> alloc_error_text) (main_udp_bind c)) (\<lambda>udp_bind.
     Ok \<lparr>px_config = c, px_sessions = sm_new (cfg_max_sessions c), px_pool = pool,
         px_engine = main_engine api c pool tun, px_auth = auth, px_udp_bind = udp_bind\<rparr>)))"

section \<open>Tasks\<close>

record task =
  tk_ctx :: proxy_ctx
  tk_stream :: req_stream
  tk_assigned :: "assigned_address list"

type_synonym 'a handler = "(task, proxy_error, 'a) action"

definition on_stream :: "(req_stream, proxy_error, 'a) action \<Rightarrow> 'a handler" where
  "on_stream m t = (case m (tk_stream t) of (r, s) \<Rightarrow> (r, t\<lparr>tk_stream := s\<rparr>))"

definition on_ctx :: "(proxy_ctx \<Rightarrow> proxy_ctx) \<Rightarrow> unit handler" where
  "on_ctx f = upd (tk_ctx_update f)"

definition on_engine :: "(engine \<Rightarrow> engine) \<Rightarrow> unit handler" where
  "on_engine f = on_ctx (px_engine_update f)"

definition on_routes :: "(route_table \<Rightarrow> route_table) \<Rightarrow> unit handler" where
  "on_routes f = on_engine (fe_route_table_update f)"

definition on_sessions :: "(session_manager \<Rightarrow> session_manager) \<Rightarrow> unit handler" where
  "on_sessions f = on_ctx (px_sessions_update f)"

definition count_metric :: "((u64 \<Rightarrow> u64) \<Rightarrow> metrics \<Rightarrow> metrics) \<Rightarrow> unit handler" where
  "count_metric counter = on_engine (fe_metrics_update (metric_incr counter))"

text \<open>An error response, the end of the stream and the error: how a request is rejected.\<close>

definition refuse :: "nat \<Rightarrow> proxy_error \<Rightarrow> 'a handler" where
  "refuse status e = rbind (on_stream (respond status)) (\<lambda>_. rfail e)"

lemmas task_simps = on_stream_def on_ctx_def on_engine_def on_routes_def on_sessions_def count_metric_def
  refuse_def rbind_def rret_def rfail_def rlift_def peek_def upd_def

lemma refuse_run:
  "refuse status e t = (r, t') \<Longrightarrow> tk_ctx t' = tk_ctx t \<and> tk_assigned t' = tk_assigned t \<and> (\<exists>x. r = Err x)"
  using no_panicD [OF send_frame_no_panic]
  by (auto simp: refuse_def respond_def on_stream_def rbind_def rfail_def split: prod.splits res.splits)

end
