(* ===== verification/Tunnel.thy ===== *)
theory Tunnel
  imports Proxy_Context Pool_Correct
begin

text \<open>
  The handler of a CONNECT-IP request, \<open>src/src/session/handler.rs\<close>: validation, authentication,
  the routes of the scope, the session, the tunnel and its teardown. DNS is the parameter
  \<open>resolve\<close>. The \<open>select!\<close> loop of the tunnel takes its next event from a list.
\<close>

section \<open>Definitions\<close>

definition CONNECT_IP_PROTOCOL :: string where
  "CONNECT_IP_PROTOCOL = ''connect-ip''"

definition validate_request :: "request \<Rightarrow> (proxy_error, request_scope) res" where
  "validate_request req =
     (if rq_method req \<noteq> ''CONNECT'' then
        Err (InvalidRequest (''expected CONNECT, got '' @ rq_method req))
      else
        and_then (ok_or (InvalidRequest '':protocol pseudo-header missing'') (rq_protocol req)) (\<lambda>protocol.
        if protocol \<noteq> CONNECT_IP_PROTOCOL then
          Err (InvalidRequest (''unsupported :protocol '' @ protocol))
        else if \<not> header_is req ''capsule-protocol'' ''?1'' then
          Err (InvalidRequest ''capsule-protocol: ?1 header required'')
        else parse_connect_ip_path (rq_path req)))"

definition full_tunnel_routes :: "bool \<Rightarrow> ip_address_range list" where
  "full_tunnel_routes include_v6 =
     \<lparr>ir_ip_version = 4, ir_start_ip = V4 0, ir_end_ip = V4 0xFFFFFFFF, ir_ip_protocol = 0\<rparr> #
     (if include_v6
      then [\<lparr>ir_ip_version = 6, ir_start_ip = V6 0, ir_end_ip = V6 (- 1), ir_ip_protocol = 0\<rparr>]
      else [])"

definition resolve_advertised_routes ::
    "ipnet_api \<Rightarrow> (string \<Rightarrow> (string, ip_addr list) res) \<Rightarrow> proxy_ctx \<Rightarrow> request_scope \<Rightarrow>
     (proxy_error, ip_address_range list) res" where
  "resolve_advertised_routes api resolve ctx scope =
     (let proto = (case rs_ip_proto scope of Some p \<Rightarrow> p | None \<Rightarrow> 0) in
      and_then (case rs_target scope of
          None \<Rightarrow> Ok (
            map (\<lambda>net. from_net api net proto) (pool_nets (px_pool ctx)) @
            (if cfg_split_routes (px_config ctx) = [] then
               map (\<lambda>r. r\<lparr>ir_ip_protocol := proto\<rparr>)
                 (full_tunnel_routes (cfg_ipv6_pool (px_config ctx) \<noteq> None))
             else map (\<lambda>net. from_net api net proto) (cfg_split_routes (px_config ctx))))
        | Some (Prefix ip prefix_len) \<Rightarrow>
            and_then (ok_or (InvalidRequest ''invalid target prefix'') (net_new api ip prefix_len)) (\<lambda>net.
            Ok [from_net api (net_trunc api net) proto])
        | Some (Hostname host) \<Rightarrow>
            and_then (map_err (\<lambda>e. DnsFailure (host @ '': '' @ e)) (resolve host)) (\<lambda>addrs.
            let has_v6 = (cfg_ipv6_pool (px_config ctx) \<noteq> None);
                ranges = map (\<lambda>ip. \<lparr>ir_ip_version = (if is_ipv4 ip then 4 else 6), ir_start_ip = ip,
                    ir_end_ip = ip, ir_ip_protocol = proto\<rparr>)
                  (filter (\<lambda>ip. is_ipv4 ip \<or> has_v6) addrs)
            in if ranges = [] then Err (DnsFailure (host @ '': no usable addresses'')) else Ok ranges))
        (\<lambda>ranges. Ok (merge_ranges ranges)))"

definition effective_mtu :: "nat option \<Rightarrow> u64 \<Rightarrow> proxy_config \<Rightarrow> nat" where
  "effective_mtu max_datagram_size qsid config =
     (let configured = unat (cfg_mtu config) in
      case Option.bind max_datagram_size (\<lambda>m. max_ip_packet_size m qsid) of
        Some capacity \<Rightarrow> min capacity configured
      | None \<Rightarrow> configured)"

definition send_capsule :: "capsule \<Rightarrow> unit handler" where
  "send_capsule c = rbind (rlift (map_err PDecode (encode_capsule c))) (\<lambda>buf. on_stream (send_frame (Data buf)))"

text \<open>One iteration of the loop over the requested addresses.\<close>

definition grant_request :: "ipnet_api \<Rightarrow> session_id \<Rightarrow> requested_address \<Rightarrow> unit handler" where
  "grant_request api i request =
     rbind (peek (\<lambda>t. allocate_for_request api i request (px_pool (tk_ctx t)))) (\<lambda>(a, pool).
     rbind (on_ctx (px_pool_update (\<lambda>_. pool))) (\<lambda>_.
     case a of
       Some a \<Rightarrow>
         rbind (on_routes (insert_client_addr (aa_ip_address a) i)) (\<lambda>_.
         upd (tk_assigned_update (\<lambda>l. l @ [a])))
     | None \<Rightarrow> rret ()))"

definition handle_capsule :: "ipnet_api \<Rightarrow> session_id \<Rightarrow> capsule \<Rightarrow> unit handler" where
  "handle_capsule api i capsule = (case capsule of
      CapAddressRequest req \<Rightarrow>
        rbind (each (grant_request api i) (requested_addresses req)) (\<lambda>_.
        rbind (peek tk_assigned) (\<lambda>assigned.
        rbind (on_sessions (set_assigned i assigned)) (\<lambda>_.
        send_capsule (CapAddressAssign \<lparr>assigned_addresses = assigned\<rparr>))))
    | CapRouteAdvertisement ra \<Rightarrow>
        rbind (peek tk_ctx) (\<lambda>ctx.
        rbind (if cfg_accept_client_routes (px_config ctx)
               then on_routes (replace_session_routes i
                 (entries_from_client_ranges api i (ip_address_ranges ra) (pool_nets (px_pool ctx))))
               else rret ()) (\<lambda>_.
        on_sessions (set_client_routes i (ip_address_ranges ra))))
    | CapAddressAssign assign \<Rightarrow> on_sessions (set_proxy_addresses i (assigned_addresses assign))
    | CapUnknown type_id data \<Rightarrow> rret ())"

text \<open>Steps 5 and 6 of \<open>run_tunnel\<close>, up to its loop.\<close>

definition allocate_addresses :: "ipnet_api \<Rightarrow> session_id \<Rightarrow> unit handler" where
  "allocate_addresses api i =
     rbind (peek (\<lambda>t. allocate_v4 api i (px_pool (tk_ctx t)))) (\<lambda>(a4, pool).
     rbind (on_ctx (px_pool_update (\<lambda>_. pool))) (\<lambda>_.
     rbind (peek (\<lambda>t. allocate_v6 api i (px_pool (tk_ctx t)))) (\<lambda>(a6, pool).
     rbind (on_ctx (px_pool_update (\<lambda>_. pool))) (\<lambda>_.
     upd (tk_assigned_update (\<lambda>_. (case a4 of Some a \<Rightarrow> [a] | None \<Rightarrow> []) @ (case a6 of Some a \<Rightarrow> [a] | None \<Rightarrow> [])))))))"

text \<open>Installation of the forwarding state.\<close>

definition install ::
    "instant \<Rightarrow> conn \<Rightarrow> nat option \<Rightarrow> session_id \<Rightarrow> u64 \<Rightarrow> ip_address_range list \<Rightarrow> unit handler" where
  "install now conn max_dg i qsid routes =
     rbind (peek tk_assigned) (\<lambda>assigned.
     rbind (each (\<lambda>a. on_routes (insert_client_addr (aa_ip_address a) i)) assigned) (\<lambda>_.
     rbind (peek (\<lambda>t. effective_mtu max_dg qsid (px_config (tk_ctx t)))) (\<lambda>mtu.
     rbind (on_engine (register_session now i (SinkDatagram conn qsid) routes mtu)) (\<lambda>_.
     rbind (on_sessions (set_assigned i assigned)) (\<lambda>_.
     count_metric sessions_total_update)))))"

text \<open>The answer and the allocation; then the two capsules; then the installation.\<close>

definition begin_tunnel :: "ipnet_api \<Rightarrow> session_id \<Rightarrow> unit handler" where
  "begin_tunnel api i =
     rbind (on_stream (send_frame (Response 200 [(''capsule-protocol'', ''?1'')]))) (\<lambda>_.
     rbind (allocate_addresses api i) (\<lambda>_.
     rbind (peek tk_assigned) (\<lambda>assigned.
     if assigned = [] then rfail PoolExhausted else rret ())))"

definition announce :: "ip_address_range list \<Rightarrow> unit handler" where
  "announce routes =
     rbind (peek tk_assigned) (\<lambda>assigned.
     rbind (send_capsule (CapAddressAssign \<lparr>assigned_addresses = assigned\<rparr>)) (\<lambda>_.
     send_capsule (CapRouteAdvertisement \<lparr>ip_address_ranges = routes\<rparr>)))"

definition establish ::
    "ipnet_api \<Rightarrow> instant \<Rightarrow> conn \<Rightarrow> nat option \<Rightarrow> session_id \<Rightarrow> u64 \<Rightarrow> ip_address_range list \<Rightarrow> unit handler" where
  "establish api now conn max_dg i qsid routes =
     rbind (begin_tunnel api i) (\<lambda>_.
     rbind (announce routes) (\<lambda>_.
     install now conn max_dg i qsid routes))"

text \<open>
  One turn of the loop: the timer, data from the client, the end of its stream, a stream error, or
  the notification that the session was unregistered. The result is the buffer to go on with, or
  \<open>None\<close> when the tunnel is over.
\<close>

datatype tunnel_event =
    MtuTick "nat option"
  | RecvData instant "bytes list"
  | RecvFin
  | RecvError string
  | Unregistered

definition set_mtu :: "session_id \<Rightarrow> nat \<Rightarrow> engine \<Rightarrow> engine" where
  "set_mtu i mtu e = (case fe_session_mtus e i of
      None \<Rightarrow> e | Some _ \<Rightarrow> e\<lparr>fe_session_mtus := (fe_session_mtus e)(i \<mapsto> mtu)\<rparr>)"

definition tunnel_turn ::
    "ipnet_api \<Rightarrow> session_id \<Rightarrow> u64 \<Rightarrow> tunnel_event \<Rightarrow> capsule_buffer \<Rightarrow> capsule_buffer option handler" where
  "tunnel_turn api i qsid ev capsules = (case ev of
      MtuTick max_dg \<Rightarrow>
        rbind (peek (\<lambda>t. effective_mtu max_dg qsid (px_config (tk_ctx t)))) (\<lambda>updated.
        rbind (on_engine (set_mtu i updated)) (\<lambda>_. rret (Some capsules)))
    | RecvData now chunk \<Rightarrow>
        rbind (process_capsules (handle_capsule api i) (cb_push chunk capsules)) (\<lambda>capsules.
        rbind (on_sessions (touch now i)) (\<lambda>_. rret (Some capsules)))
    | RecvFin \<Rightarrow> rret None
    | RecvError e \<Rightarrow> rfail (of_h3_error e)
    | Unregistered \<Rightarrow> rret None)"

fun tunnel_loop ::
    "ipnet_api \<Rightarrow> session_id \<Rightarrow> u64 \<Rightarrow> tunnel_event list \<Rightarrow> capsule_buffer \<Rightarrow> capsule_buffer option handler" where
  "tunnel_loop api i qsid [] capsules = rret (Some capsules)"
| "tunnel_loop api i qsid (ev # evs) capsules =
     rbind (tunnel_turn api i qsid ev capsules) (\<lambda>next. case next of
       None \<Rightarrow> rret None | Some capsules \<Rightarrow> tunnel_loop api i qsid evs capsules)"

definition run_tunnel ::
    "ipnet_api \<Rightarrow> instant \<Rightarrow> conn \<Rightarrow> nat option \<Rightarrow> session_id \<Rightarrow> u64 \<Rightarrow> ip_address_range list \<Rightarrow>
     tunnel_event list \<Rightarrow> capsule_buffer option handler" where
  "run_tunnel api now conn max_dg i qsid routes evs =
     rbind (establish api now conn max_dg i qsid routes) (\<lambda>_. tunnel_loop api i qsid evs cb_new)"

definition teardown :: "session_id \<Rightarrow> proxy_ctx \<Rightarrow> proxy_ctx" where
  "teardown i ctx =
     (let ctx = px_pool_update (release i) ctx;
          ctx = px_engine_update (fe_route_table_update (remove_session i)) ctx;
          ctx = px_engine_update (unregister_session i) ctx
      in px_sessions_update (sm_remove i) ctx)"

text \<open>Steps 1 to 4: what is decided before the session exists.\<close>

definition admit ::
    "ipnet_api \<Rightarrow> auth_api \<Rightarrow> (string \<Rightarrow> (string, ip_addr list) res) \<Rightarrow> instant \<Rightarrow> request \<Rightarrow> bytes option \<Rightarrow>
     session_id \<Rightarrow> ip_address_range list handler" where
  "admit api crypto resolve now req peer_cert i =
     rbind (attempt (rlift (validate_request req))) (\<lambda>scope. case scope of
       Panic \<Rightarrow> rlift Panic
     | Err e \<Rightarrow> refuse (case e of InvalidRequest _ \<Rightarrow> 400 | _ \<Rightarrow> 500) e
     | Ok scope \<Rightarrow>
         rbind (peek (\<lambda>t. authenticate crypto (px_auth (tk_ctx t)) (rq_headers req) peer_cert)) (\<lambda>auth. case auth of
           Panic \<Rightarrow> rlift Panic
         | Err e \<Rightarrow> rbind (count_metric auth_failures_total_update) (\<lambda>_. refuse 401 e)
         | Ok auth_ctx \<Rightarrow>
             rbind (peek (\<lambda>t. resolve_advertised_routes api resolve (tk_ctx t) scope)) (\<lambda>routes. case routes of
               Panic \<Rightarrow> rlift Panic
             | Err e \<Rightarrow> refuse (case e of DnsFailure _ \<Rightarrow> 502 | _ \<Rightarrow> 400) e
             | Ok routes \<Rightarrow>
                 rbind (peek (\<lambda>t. sm_insert ((ts_new i scope auth_ctx now)\<lparr>ts_advertised_routes := routes\<rparr>)
                    (px_sessions (tk_ctx t)))) (\<lambda>(r, sessions). case r of
                   Ok _ \<Rightarrow> rbind (on_sessions (\<lambda>_. sessions)) (\<lambda>_. rret routes)
                 | Err e \<Rightarrow> refuse 503 e
                 | Panic \<Rightarrow> rlift Panic))))"

definition handle_connect_ip_stream ::
    "ipnet_api \<Rightarrow> auth_api \<Rightarrow> (string \<Rightarrow> (string, ip_addr list) res) \<Rightarrow> instant \<Rightarrow> conn \<Rightarrow> nat option \<Rightarrow>
     u64 \<Rightarrow> request \<Rightarrow> bytes option \<Rightarrow> tunnel_event list \<Rightarrow> capsule_buffer option handler" where
  "handle_connect_ip_stream api crypto resolve now conn max_dg conn_seq req peer_cert evs t =
     (let i = compose conn_seq (st_id (tk_stream t)); qsid = quarter_stream_id (st_id (tk_stream t)) in
      rbind (admit api crypto resolve now req peer_cert i) (\<lambda>routes.
      rbind (attempt (run_tunnel api now conn max_dg i qsid routes evs)) (\<lambda>result.
      case result of
        Ok (Some capsules) \<Rightarrow> rret (Some capsules)
      | _ \<Rightarrow> rbind (on_ctx (teardown i)) (\<lambda>_. rlift result))) t)"

end
