(* ===== verification/Server.thy ===== *)
theory Server
  imports Tunnel
begin

text \<open>
  The listener, \<open>src/src/server.rs\<close>: the datagram demultiplexer of a connection, the reaper of idle
  sessions, and the proxy as a state machine whose steps are the steps of its tasks, in any
  order. A task gives up the processor only where it awaits; the steps are the stretches in
  between that touch the shared state.
\<close>

section \<open>Definitions\<close>

text \<open>What the demultiplexer does with one datagram.\<close>

datatype demux_outcome = DemuxDropped | DemuxBind nat bytes | DemuxForward session_id "(forwarding_error, forwarded) res"

definition run_datagram_demux ::
    "net_env \<Rightarrow> ipnet_api \<Rightarrow> u64 \<Rightarrow> bytes \<Rightarrow> proxy_ctx \<Rightarrow> demux_outcome \<times> proxy_ctx" where
  "run_datagram_demux env api conn_seq wire ctx = (case read_varint wire of
      (Ok qsid, cursor) \<Rightarrow>
        (case ub_sink (px_udp_bind ctx) (compose conn_seq (qsid * 4)) of
           Some sink \<Rightarrow> (DemuxBind sink (drop (length wire - length cursor) wire), ctx)
         | None \<Rightarrow> (case decode_quic_datagram wire of
               Ok (qsid, datagram) \<Rightarrow>
                 if dg_context_id datagram \<noteq> CONTEXT_ID_IP_PACKET then (DemuxDropped, ctx)
                 else
                   (let i = compose conn_seq (qsid * 4) in
                    case assigned_snapshot (px_sessions ctx) i of
                      None \<Rightarrow> (DemuxDropped, ctx)
                    | Some assigned \<Rightarrow>
                        (case forward_from_client env api i assigned (dg_payload datagram) (px_engine ctx) of
                           (r, engine) \<Rightarrow>
                             (DemuxForward i r,
                              (case r of Ok _ \<Rightarrow> px_sessions_update (touch (ne_now env) i) | _ \<Rightarrow> (\<lambda>c. c))
                                (ctx\<lparr>px_engine := engine\<rparr>))))
             | _ \<Rightarrow> (DemuxDropped, ctx)))
    | _ \<Rightarrow> (DemuxDropped, ctx))"

text \<open>The period of the reaper, in nanoseconds, and one round of it.\<close>

definition reaper_interval :: "u64 \<Rightarrow> nat option" where
  "reaper_interval timeout_sec =
     (let timeout = unat timeout_sec * 1000000000 in
      if timeout = 0 then None else Some (min (max (timeout div 2) 250000000) 30000000000))"

definition reap ::
    "(session_id, tunnel_session) map_iter \<Rightarrow> instant \<Rightarrow> proxy_ctx \<Rightarrow> proxy_ctx" where
  "reap iter now ctx =
     foldl (\<lambda>c i. px_engine_update (unregister_session i) c) ctx
       (idle_sessions iter now (unat (cfg_session_idle_timeout_sec (px_config ctx)) * 1000000000) (px_sessions ctx))"

text \<open>Which handler serves a request.\<close>

definition served_as_udp :: "request \<Rightarrow> bool" where
  "served_as_udp req \<longleftrightarrow> rq_protocol req = Some ''connect-udp''"

section \<open>The proxy as a state machine\<close>

text \<open>
  A tunnel: its stream, its addresses, and where it is. After its session is inserted it awaits
  the acceptance of the response (\<open>Starting\<close>), with its addresses allocated that of the two
  capsules (\<open>Allocated\<close>), and then it is in its loop with its capsule buffer (\<open>Running\<close>). A task
  that panicked is \<open>Dead\<close>: it never reaches its teardown.
\<close>

datatype phase = Starting "ip_address_range list" | Allocated "ip_address_range list" | Running capsule_buffer | Dead

record tunnel =
  tn_stream :: req_stream
  tn_assigned :: "assigned_address list"
  tn_phase :: phase

record world =
  w_ctx :: proxy_ctx
  w_tunnels :: "session_id \<rightharpoonup> tunnel"

definition start_task :: "proxy_ctx \<Rightarrow> req_stream \<Rightarrow> task" where
  "start_task ctx stream = \<lparr>tk_ctx = ctx, tk_stream = stream, tk_assigned = []\<rparr>"

definition resume :: "proxy_ctx \<Rightarrow> tunnel \<Rightarrow> task" where
  "resume ctx t = \<lparr>tk_ctx = ctx, tk_stream = tn_stream t, tk_assigned = tn_assigned t\<rparr>"

text \<open>The world after a task ran up to its next await, and after it ended with its teardown.\<close>

definition suspended :: "session_id \<Rightarrow> phase \<Rightarrow> task \<Rightarrow> world \<Rightarrow> world" where
  "suspended i ph t w = \<lparr>w_ctx = tk_ctx t, w_tunnels = (w_tunnels w)(i \<mapsto>
     \<lparr>tn_stream = tk_stream t, tn_assigned = tk_assigned t, tn_phase = ph\<rparr>)\<rparr>"

definition ended :: "session_id \<Rightarrow> task \<Rightarrow> world \<Rightarrow> world" where
  "ended i t w = \<lparr>w_ctx = teardown i (tk_ctx t), w_tunnels = (w_tunnels w)(i := None)\<rparr>"

definition after :: "session_id \<Rightarrow> phase \<Rightarrow> (proxy_error, 'a) res \<Rightarrow> task \<Rightarrow> world \<Rightarrow> world" where
  "after i ph r t w = (case r of
      Ok _ \<Rightarrow> suspended i ph t w | Err _ \<Rightarrow> ended i t w | Panic \<Rightarrow> suspended i Dead t w)"

inductive proxy_step :: "ipnet_api \<Rightarrow> world \<Rightarrow> world \<Rightarrow> bool" for api where
  step_admit: "i = compose conn_seq (st_id stream) \<Longrightarrow> w_tunnels w i = None \<Longrightarrow>
     admit api crypto dns now req cert i (start_task (w_ctx w) stream) = (Ok routes, t) \<Longrightarrow>
     proxy_step api w (suspended i (Starting routes) t w)"
| step_refuse: "admit api crypto dns now req cert i (start_task (w_ctx w) stream) = (Err e, t) \<Longrightarrow>
     proxy_step api w (w\<lparr>w_ctx := tk_ctx t\<rparr>)"
| step_begin: "w_tunnels w i = Some tn \<Longrightarrow> tn_phase tn = Starting routes \<Longrightarrow>
     begin_tunnel api i (resume (w_ctx w) tn) = (r, t) \<Longrightarrow>
     proxy_step api w (after i (Allocated routes) r t w)"
| step_install: "w_tunnels w i = Some tn \<Longrightarrow> tn_phase tn = Allocated routes \<Longrightarrow>
     rbind (announce routes) (\<lambda>_. install now conn max_dg i (quarter_stream_id (st_id (tn_stream tn))) routes)
       (resume (w_ctx w) tn) = (r, t) \<Longrightarrow>
     proxy_step api w (after i (Running cb_new) r t w)"
| step_tick: "w_tunnels w i = Some tn \<Longrightarrow>
     tunnel_turn api i qsid (MtuTick max_dg) b (resume (w_ctx w) tn) = (Ok (Some b), t) \<Longrightarrow>
     proxy_step api w (w\<lparr>w_ctx := tk_ctx t\<rparr>)"
| step_chunk: "w_tunnels w i = Some tn \<Longrightarrow> tn_phase tn = Running b \<Longrightarrow>
     proxy_step api w (suspended i (Running (cb_push chunk b)) (resume (w_ctx w) tn) w)"
| step_capsule: "w_tunnels w i = Some tn \<Longrightarrow> tn_phase tn = Running b \<Longrightarrow>
     next_capsule b = (Ok (Some c), b') \<Longrightarrow> handle_capsule api i c (resume (w_ctx w) tn) = (r, t) \<Longrightarrow>
     proxy_step api w (after i (Running b') r t w)"
| step_touch: "w_tunnels w i = Some tn \<Longrightarrow>
     proxy_step api w (w\<lparr>w_ctx := px_sessions_update (touch now i) (w_ctx w)\<rparr>)"
| step_close: "w_tunnels w i = Some tn \<Longrightarrow> tn_phase tn \<noteq> Dead \<Longrightarrow> proxy_step api w (ended i (resume (w_ctx w) tn) w)"
| step_datagram: "run_datagram_demux env api conn_seq wire (w_ctx w) = (out, ctx) \<Longrightarrow>
     proxy_step api w (w\<lparr>w_ctx := ctx\<rparr>)"
| step_network: "dispatch_from_network env api packet (px_engine (w_ctx w)) = (r, engine) \<Longrightarrow>
     proxy_step api w (w\<lparr>w_ctx := (w_ctx w)\<lparr>px_engine := engine\<rparr>\<rparr>)"
| step_reap: "proxy_step api w (w\<lparr>w_ctx := reap iter now (w_ctx w)\<rparr>)"

text \<open>
  \<open>step_close\<close> stands for every way the loop ends without a capsule: the client's FIN, a stream
  error, a malformed capsule, and the notification that the session was unregistered.
\<close>

inductive proxy_reach :: "ipnet_api \<Rightarrow> proxy_config \<Rightarrow> world \<Rightarrow> bool" for api config where
  reach_start: "main_context api config tun = Ok ctx \<Longrightarrow>
     proxy_reach api config \<lparr>w_ctx = ctx, w_tunnels = Map.empty\<rparr>"
| reach_step: "proxy_reach api config w \<Longrightarrow> proxy_step api w w' \<Longrightarrow> proxy_reach api config w'"

end
