(* ===== verification/Proxy_Inv.thy ===== *)
theory Proxy_Inv
  imports Server
begin

text \<open>
  What the proxy maintains over every interleaving of its tasks: the pool, the route table, the
  snapshot of the packet path and the tables of the engine agree on which session holds which
  address, and hold nothing for a session that is not open.
\<close>

section \<open>Effects on the pool\<close>

text \<open>An assignment of exactly one address.\<close>

definition exact :: "assigned_address \<Rightarrow> bool" where
  "exact a \<longleftrightarrow> aa_prefix_length a = (case aa_ip_address a of V4 _ \<Rightarrow> 32 | V6 _ \<Rightarrow> 128)"

text \<open>The prefixes of the pool never change.\<close>

lemma release_nets: "pool_nets (release i p) = pool_nets p"
proof -
  have one: "pool_nets (release_addr p a) = pool_nets p" for p a
    by (cases a) (simp_all add: release_addr_def Let_def pool_nets_def split: option.split)
  have "pool_nets (foldl release_addr p as) = pool_nets p" for p as
    by (induction as arbitrary: p) (simp_all add: one)
  then show ?thesis by (simp add: release_def split: option.split) (simp add: pool_nets_def)
qed

text \<open>An allocation for \<open>i\<close>: a free address, exactly, recorded for \<open>i\<close> and nothing else changed.\<close>

definition alloc_effect ::
    "ipnet_api \<Rightarrow> session_id \<Rightarrow> assigned_address option \<Rightarrow> address_pool \<Rightarrow> address_pool \<Rightarrow> bool" where
  "alloc_effect api i r p p' \<longleftrightarrow> pool_inv api p' \<and> pool_nets p' = pool_nets p \<and> (case r of
      None \<Rightarrow> ap_allocated p' = ap_allocated p
    | Some a \<Rightarrow> exact a \<and> ap_allocated p (aa_ip_address a) = None \<and>
        ap_allocated p' = (ap_allocated p)(aa_ip_address a \<mapsto> i))"

lemma allocate_v4_shape:
  "allocate_v4 api i p = (r, p') \<Longrightarrow>
   (r = None \<longrightarrow> ap_allocated p' = ap_allocated p) \<and> (\<forall>a. r = Some a \<longrightarrow> exact a)"
  by (auto simp: allocate_v4_def exact_def split: prod.splits option.splits)

lemma allocate_v6_shape:
  "allocate_v6 api i p = (r, p') \<Longrightarrow>
   (r = None \<longrightarrow> ap_allocated p' = ap_allocated p) \<and> (\<forall>a. r = Some a \<longrightarrow> exact a)"
  by (auto simp: allocate_v6_def exact_def split: prod.splits option.splits)

context ipnet
begin

lemma allocate_v4_nets: "pool_nets (snd (allocate_v4 api i p)) = pool_nets p"
  by (auto simp: allocate_v4_def pool_nets_def dest: v4_search_net split: prod.splits option.splits)

lemma allocate_v6_nets: "pool_nets (snd (allocate_v6 api i p)) = pool_nets p"
  by (auto simp: allocate_v6_def pool_nets_def dest: v6_search_net split: prod.splits option.splits)

lemma try_specific_nets: "pool_nets (snd (try_allocate_specific api i a p)) = pool_nets p"
  by (simp add: try_allocate_specific_def pool_nets_def)

lemma allocate_for_request_nets: "pool_nets (snd (allocate_for_request api i req p)) = pool_nets p"
  using allocate_v4_nets [of i] allocate_v6_nets [of i] try_specific_nets [of i _ p]
  by (auto simp: allocate_for_request_def Let_def split: prod.splits option.splits ip_addr.splits) (metis snd_conv)+

lemma v4_effect:
  assumes "pool_inv api p" "allocate_v4 api i p = (r, p')"
  shows "alloc_effect api i r p p'"
  using allocate_v4_inv [OF assms] allocate_v4_shape [OF assms(2)] allocate_v4_nets [of i p] assms(2)
  by (cases r) (auto simp: alloc_effect_def)

lemma v6_effect:
  assumes "pool_inv api p" "allocate_v6 api i p = (r, p')"
  shows "alloc_effect api i r p p'"
  using allocate_v6_inv [OF assms] allocate_v6_shape [OF assms(2)] allocate_v6_nets [of i p] assms(2)
  by (cases r) (auto simp: alloc_effect_def)

lemma request_effect:
  assumes "pool_inv api p" "allocate_for_request api i req p = (r, p')"
  shows "alloc_effect api i r p p'"
proof -
  define specific where "specific = (case ra_ip_address req of
          V4 a \<Rightarrow> if \<not> is_unspecified4 a \<and> ra_prefix_length req = 32 then Some (V4 a) else None
        | V6 a \<Rightarrow> if \<not> is_unspecified6 a \<and> ra_prefix_length req = 128 then Some (V6 a) else None)"
  have sp: "specific = Some x \<Longrightarrow> x = ra_ip_address req \<and>
      ra_prefix_length req = (case x of V4 _ \<Rightarrow> 32 | V6 _ \<Rightarrow> 128)" for x
    by (auto simp: specific_def split: ip_addr.splits if_splits)
  obtain b q where bq: "(case specific of Some addr \<Rightarrow> try_allocate_specific api i addr p | None \<Rightarrow> (False, p)) = (b, q)"
    by fastforce
  show ?thesis
  proof (cases b)
    case True
    then obtain x where x: "specific = Some x" "try_allocate_specific api i x p = (True, q)"
      using bq by (cases specific) auto
    have "p' = q" "r = Some \<lparr>aa_request_id = ra_request_id req, aa_ip_version = ra_ip_version req,
        aa_ip_address = ra_ip_address req, aa_prefix_length = ra_prefix_length req\<rparr>"
      using assms(2) bq True by (simp_all add: allocate_for_request_def Let_def flip: specific_def)
    then show ?thesis
      using try_specific_inv [OF assms(1) x(2)] sp [OF x(1)] try_specific_nets [of i x p] x(2)
      by (simp add: alloc_effect_def exact_def)
  next
    case False
    then have q: "q = p" using bq try_specific_inv [OF assms(1)] by (cases specific) auto
    obtain r0 where r0: "(if ra_ip_version req = 4 then allocate_v4 api i p
        else if ra_ip_version req = 6 then allocate_v6 api i p else (None, p)) = (r0, p')"
      "r = map_option (\<lambda>a. a\<lparr>aa_request_id := ra_request_id req\<rparr>) r0"
      using assms(2) bq False q
      by (auto simp: allocate_for_request_def Let_def split: prod.splits simp flip: specific_def)
    have "alloc_effect api i r0 p p'"
      using r0(1) v4_effect [OF assms(1)] v6_effect [OF assms(1)] assms(1)
      by (auto simp: alloc_effect_def split: if_splits)
    then show ?thesis using r0(2) by (cases r0) (auto simp: alloc_effect_def exact_def)
  qed
qed

end

section \<open>The invariant\<close>

abbreviation owner :: "proxy_ctx \<Rightarrow> ip_addr \<rightharpoonup> session_id" where
  "owner c \<equiv> ap_allocated (px_pool c)"

abbreviation route_tab :: "proxy_ctx \<Rightarrow> route_table" where
  "route_tab c \<equiv> fe_route_table (px_engine c)"

text \<open>The engine keeps tables for open sessions only.\<close>

definition engine_ok :: "session_id set \<Rightarrow> engine \<Rightarrow> bool" where
  "engine_ok O' e \<longleftrightarrow> dom (fe_session_sinks e) \<subseteq> O' \<and> dom (fe_policies e) \<subseteq> O' \<and>
     dom (fe_limiters e) \<subseteq> O' \<and> dom (fe_session_mtus e) \<subseteq> O' \<and> fe_session_notify e \<subseteq> O' \<and>
     qsids_ok e \<and> (\<forall>r \<in> set (rt_routes (fe_route_table e)). re_session_id r \<in> O')"

text \<open>The table of sessions holds the open ones, with addresses they own.\<close>

definition sessions_ok :: "session_id set \<Rightarrow> (ip_addr \<rightharpoonup> session_id) \<Rightarrow> session_manager \<Rightarrow> bool" where
  "sessions_ok O' own m \<longleftrightarrow> sm_inv m \<and> dom (sm_sessions m) = O' \<and> dom (sm_assigned m) = O' \<and>
     (\<forall>i as x. sm_assigned m i = Some as \<longrightarrow> x \<in> set as \<longrightarrow> exact x \<and> own (aa_ip_address x) = Some i)"

text \<open>No route a client advertised covers an address of the pool.\<close>

definition routes_avoid :: "ipnet_api \<Rightarrow> ip_net list \<Rightarrow> route_table \<Rightarrow> bool" where
  "routes_avoid api nets rt \<longleftrightarrow> (\<forall>r \<in> set (rt_routes rt). \<forall>a. net_contains api (re_prefix r) a \<longrightarrow>
     \<not> list_ex (\<lambda>n. net_contains api n a) nets)"

definition ctx_ok :: "ipnet_api \<Rightarrow> session_id set \<Rightarrow> proxy_ctx \<Rightarrow> bool" where
  "ctx_ok api O' c \<longleftrightarrow> pool_inv api (px_pool c) \<and> ran (owner c) \<subseteq> O' \<and>
     (\<forall>a i. rt_client_addrs (route_tab c) a = Some i \<longrightarrow> owner c a = Some i) \<and>
     sessions_ok O' (owner c) (px_sessions c) \<and> engine_ok O' (px_engine c) \<and>
     routes_avoid api (pool_nets (px_pool c)) (route_tab c)"

definition task_ok :: "ipnet_api \<Rightarrow> session_id set \<Rightarrow> session_id \<Rightarrow> task \<Rightarrow> bool" where
  "task_ok api O' i t \<longleftrightarrow> ctx_ok api O' (tk_ctx t) \<and> i \<in> O' \<and>
     (\<forall>x \<in> set (tk_assigned t). exact x \<and> owner (tk_ctx t) (aa_ip_address x) = Some i)"

text \<open>
  The leases as an abstract machine: a free address is granted to a session, or everything a
  session holds is revoked.
\<close>

inductive lease_grant :: "(ip_addr \<rightharpoonup> session_id) \<Rightarrow> (ip_addr \<rightharpoonup> session_id) \<Rightarrow> bool" where
  grant: "own a = None \<Longrightarrow> lease_grant own (own(a \<mapsto> i))"

inductive lease_step :: "(ip_addr \<rightharpoonup> session_id) \<Rightarrow> (ip_addr \<rightharpoonup> session_id) \<Rightarrow> bool" where
  lease: "lease_grant own own' \<Longrightarrow> lease_step own own'"
| revoke: "lease_step own (\<lambda>a. if own a = Some i then None else own a)"

lemma lease_grants_le: "lease_grant\<^sup>*\<^sup>* own own' \<Longrightarrow> own a = Some i \<Longrightarrow> own' a = Some i"
  by (induction rule: rtranclp_induct) (auto elim!: lease_grant.cases)

lemma lease_grants_steps: "lease_grant\<^sup>*\<^sup>* own own' \<Longrightarrow> lease_step\<^sup>*\<^sup>* own own'"
  by (induction rule: rtranclp_induct) (auto intro: lease_step.lease rtranclp.rtrancl_into_rtrancl)

text \<open>An action that keeps the invariant and only grants leases.\<close>

definition obeys :: "ipnet_api \<Rightarrow> session_id set \<Rightarrow> session_id \<Rightarrow> 'a handler \<Rightarrow> bool" where
  "obeys api O' i m \<longleftrightarrow> (\<forall>t. task_ok api O' i t \<longrightarrow>
     task_ok api O' i (snd (m t)) \<and> lease_grant\<^sup>*\<^sup>* (owner (tk_ctx t)) (owner (tk_ctx (snd (m t)))))"

lemma obeysI:
  assumes "\<And>t. task_ok api O' i t \<Longrightarrow> task_ok api O' i (snd (m t)) \<and>
    owner (tk_ctx (snd (m t))) = owner (tk_ctx t)"
  shows "obeys api O' i m"
  using assms unfolding obeys_def by (metis rtranclp.rtrancl_refl)

lemma obeys_rbind:
  assumes "obeys api O' i m" "\<And>x. obeys api O' i (f x)"
  shows "obeys api O' i (rbind m f)"
  unfolding obeys_def
proof (intro allI impI)
  fix t
  assume t: "task_ok api O' i t"
  obtain r t1 where m: "m t = (r, t1)" by (cases "m t")
  then have t1: "task_ok api O' i t1" "lease_grant\<^sup>*\<^sup>* (owner (tk_ctx t)) (owner (tk_ctx t1))"
    using assms(1) t unfolding obeys_def by (metis snd_conv)+
  show "task_ok api O' i (snd (rbind m f t)) \<and>
      lease_grant\<^sup>*\<^sup>* (owner (tk_ctx t)) (owner (tk_ctx (snd (rbind m f t))))"
  proof (cases r)
    case (Ok x)
    then have "rbind m f t = f x t1" using m by (simp add: rbind_def)
    then show ?thesis using assms(2) [of x] t1 unfolding obeys_def by (metis rtranclp_trans)
  qed (use m t1 in \<open>simp_all add: rbind_def\<close>)
qed

lemma obeys_pure [simp]:
  "obeys api O' i (rret x)" "obeys api O' i (rfail e)" "obeys api O' i (rlift r)"
  "obeys api O' i (peek f)" "obeys api O' i (on_stream s)"
  by (rule obeysI; auto simp: rret_def rfail_def rlift_def peek_def on_stream_def task_ok_def split: prod.split)+

lemma obeys_each: "(\<And>x. x \<in> set xs \<Longrightarrow> obeys api O' i (h x)) \<Longrightarrow> obeys api O' i (each h xs)"
  by (induction xs) (simp_all add: obeys_rbind)

lemma obeys_send [simp]: "obeys api O' i (send_capsule c)"
  unfolding send_capsule_def by (intro obeys_rbind) simp_all

lemma obeys_sessions:
  assumes "\<And>own m. sessions_ok O' own m \<Longrightarrow> sessions_ok O' own (f m)"
  shows "obeys api O' i (on_sessions f)"
  by (rule obeysI) (auto simp: on_sessions_def on_ctx_def upd_def task_ok_def ctx_ok_def assms)

lemma obeys_engine:
  assumes "\<And>e. engine_ok O' e \<Longrightarrow> engine_ok O' (f e)" "\<And>e. fe_route_table (f e) = fe_route_table e"
  shows "obeys api O' i (on_engine f)"
  by (rule obeysI) (auto simp: on_engine_def on_ctx_def upd_def task_ok_def ctx_ok_def assms)

section \<open>The handler\<close>

lemma ctx_alloc:
  assumes "ctx_ok api O' c" "i \<in> O'" "alloc_effect api i r (px_pool c) p'"
  shows "ctx_ok api O' (c\<lparr>px_pool := p'\<rparr>)" "lease_grant\<^sup>*\<^sup>* (owner c) (ap_allocated p')"
    and "\<And>a j. owner c a = Some j \<Longrightarrow> ap_allocated p' a = Some j"
proof -
  have p': "pool_inv api p'" "pool_nets p' = pool_nets (px_pool c)" using assms(3) by (simp_all add: alloc_effect_def)
  consider "ap_allocated p' = owner c"
    | a where "ap_allocated p' = (owner c)(a \<mapsto> i)" "owner c a = None"
    using assms(3) by (auto simp: alloc_effect_def split: option.splits)
  then have "ctx_ok api O' (c\<lparr>px_pool := p'\<rparr>) \<and> lease_grant\<^sup>*\<^sup>* (owner c) (ap_allocated p') \<and>
      (\<forall>a j. owner c a = Some j \<longrightarrow> ap_allocated p' a = Some j)"
  proof cases
    case 1
    then show ?thesis using assms(1) p' by (simp add: ctx_ok_def)
  next
    case (2 a)
    then have mono: "owner c b = Some j \<Longrightarrow> ap_allocated p' b = Some j" for b j by auto
    have "sessions_ok O' (ap_allocated p') (px_sessions c)"
      using assms(1) mono unfolding ctx_ok_def sessions_ok_def by blast
    moreover have "ran (ap_allocated p') \<subseteq> O'" using assms(1,2) 2 by (auto simp: ctx_ok_def ran_def)
    ultimately have "ctx_ok api O' (c\<lparr>px_pool := p'\<rparr>)"
      using assms(1) p' mono by (auto simp: ctx_ok_def)
    moreover have "lease_grant (owner c) (ap_allocated p')" using 2 lease_grant.grant by simp
    ultimately show ?thesis using mono by blast
  qed
  then show "ctx_ok api O' (c\<lparr>px_pool := p'\<rparr>)" "lease_grant\<^sup>*\<^sup>* (owner c) (ap_allocated p')"
    and "\<And>a j. owner c a = Some j \<Longrightarrow> ap_allocated p' a = Some j" by blast+
qed

lemma ctx_route:
  assumes "ctx_ok api O' c" "owner c a = Some i"
  shows "ctx_ok api O' (px_engine_update (fe_route_table_update (insert_client_addr a i)) c)"
  using assms by (auto simp: ctx_ok_def insert_client_addr_def engine_ok_def qsids_ok_def routes_avoid_def)

lemma set_assigned_ok:
  assumes "sessions_ok O' own m" "i \<in> O'" "\<forall>x \<in> set as. exact x \<and> own (aa_ip_address x) = Some i"
  shows "sessions_ok O' own (set_assigned i as m)"
proof -
  have "sm_inv (set_assigned i as m)" using assms(1) by (simp add: sessions_ok_def set_assigned_inv)
  moreover have "dom (sm_sessions (set_assigned i as m)) = O'" using assms(1) by (simp add: sessions_ok_def set_assigned_def)
  moreover have "sm_assigned (set_assigned i as m) = (sm_assigned m)(i \<mapsto> as)" by (simp add: set_assigned_def)
  moreover have "insert i O' = O'" using assms(2) by blast
  ultimately show ?thesis using assms unfolding sessions_ok_def by auto
qed

lemma modify_ok:
  assumes "sessions_ok O' own m" "\<And>s. ts_id (f s) = ts_id s" "\<And>s. ts_assigned_addresses (f s) = ts_assigned_addresses s"
  shows "sessions_ok O' own (modify_session i f m)"
  using assms by (auto simp: sessions_ok_def modify_session_inv)

text \<open>The action run on a concrete task.\<close>

lemma obeys_run:
  assumes "\<And>t. task_ok api O' i t \<Longrightarrow> \<exists>r t'. m t = (r, t') \<and> task_ok api O' i t' \<and>
    lease_grant\<^sup>*\<^sup>* (owner (tk_ctx t)) (owner (tk_ctx t'))"
  shows "obeys api O' i m"
  unfolding obeys_def
proof (intro allI impI)
  fix t
  assume "task_ok api O' i t"
  from assms [OF this] show "task_ok api O' i (snd (m t)) \<and>
      lease_grant\<^sup>*\<^sup>* (owner (tk_ctx t)) (owner (tk_ctx (snd (m t))))" by auto
qed

lemma obeys_set_assigned:
  assumes "\<And>as. obeys api O' i (k as)"
  shows "obeys api O' i (rbind (peek tk_assigned) (\<lambda>as. rbind (on_sessions (set_assigned i as)) (\<lambda>_. k as)))"
proof (rule obeys_run)
  fix t
  assume t: "task_ok api O' i t"
  let ?t = "tk_ctx_update (px_sessions_update (set_assigned i (tk_assigned t))) t"
  have "task_ok api O' i ?t"
    using t set_assigned_ok [of O' "owner (tk_ctx t)" "px_sessions (tk_ctx t)" i "tk_assigned t"]
    by (auto simp: task_ok_def ctx_ok_def)
  from assms [of "tk_assigned t", unfolded obeys_def, rule_format, OF this]
  show "\<exists>r t'. rbind (peek tk_assigned) (\<lambda>as. rbind (on_sessions (set_assigned i as)) (\<lambda>_. k as)) t = (r, t') \<and>
      task_ok api O' i t' \<and> lease_grant\<^sup>*\<^sup>* (owner (tk_ctx t)) (owner (tk_ctx t'))"
    by (cases "k (tk_assigned t) ?t") (simp add: on_sessions_def on_ctx_def rbind_def upd_def peek_def)
qed

context ipnet
begin

lemma grant_request_obeys: "obeys api O' i (grant_request api i req)"
proof (rule obeys_run)
  fix t
  assume t: "task_ok api O' i t"
  obtain r p' where al: "allocate_for_request api i req (px_pool (tk_ctx t)) = (r, p')" by fastforce
  have inv: "ctx_ok api O' (tk_ctx t)" "i \<in> O'" "pool_inv api (px_pool (tk_ctx t))"
    using t by (simp_all add: task_ok_def ctx_ok_def)
  note eff = request_effect [OF inv(3) al]
  note c = ctx_alloc [OF inv(1,2) eff]
  let ?t = "tk_ctx_update (px_pool_update (\<lambda>_. p')) t"
  have ok: "task_ok api O' i ?t" using t c(1,3) by (auto simp: task_ok_def)
  define t' where "t' = (case r of None \<Rightarrow> ?t | Some a \<Rightarrow>
     tk_assigned_update (\<lambda>l. l @ [a])
       (tk_ctx_update (px_engine_update (fe_route_table_update (insert_client_addr (aa_ip_address a) i))) ?t))"
  have "grant_request api i req t = (Ok (), t')"
    using al by (cases r) (simp_all add: grant_request_def t'_def task_simps)
  moreover have "task_ok api O' i t' \<and> owner (tk_ctx t') = ap_allocated p'"
  proof (cases r)
    case None
    then show ?thesis using ok by (simp add: t'_def)
  next
    case (Some a)
    then have "exact a" "ap_allocated p' (aa_ip_address a) = Some i"
      using eff by (simp_all add: alloc_effect_def)
    then show ?thesis
      using ok ctx_route [of api O' "tk_ctx ?t" "aa_ip_address a" i] Some by (auto simp: t'_def task_ok_def)
  qed
  ultimately show "\<exists>r t'. grant_request api i req t = (r, t') \<and> task_ok api O' i t' \<and>
      lease_grant\<^sup>*\<^sup>* (owner (tk_ctx t)) (owner (tk_ctx t'))"
    using c(2) by auto
qed

lemma pool_nets_valid: "pool_inv api p \<Longrightarrow> list_all net_valid (pool_nets p)"
  by (auto simp: pool_inv_def sources_ok_def inv4_def inv6_def v4_valid_def v6_valid_def pool_nets_def net_valid_def
    split: option.split)

lemma leased_in_pool:
  assumes "pool_inv api p" "ap_allocated p a = Some i"
  shows "list_ex (\<lambda>n. net_contains api n a) (pool_nets p)"
proof -
  have "assignable api p a" using assms by (simp add: pool_inv_def books_ok_def) blast
  then show ?thesis
  proof (cases a)
    case (V4 x)
    have "unat (plen4 (p4_net (ap_v4 p))) \<le> 32" using assms(1) by (simp add: pool_inv_def sources_ok_def inv4_def v4_valid_def)
    then have "v4_contains api (p4_net (ap_v4 p)) x"
      using \<open>assignable api p a\<close> V4 by (simp add: v4_contains_iff hosts4_def word_le_nat_alt)
    then show ?thesis using V4 by (simp add: pool_nets_def contains_v4)
  qed (auto simp: pool_nets_def contains_v6)
qed

lemma replace_routes_ok:
  assumes "ctx_ok api O' c" "i \<in> O'"
  shows "ctx_ok api O' (px_engine_update (fe_route_table_update (replace_session_routes i
    (entries_from_client_ranges api i ranges (pool_nets (px_pool c))))) c)"
proof -
  let ?new = "entries_from_client_ranges api i ranges (pool_nets (px_pool c))"
  have "list_all net_valid (pool_nets (px_pool c))" using assms(1) pool_nets_valid by (simp add: ctx_ok_def)
  note sound = entries_sound(2) [OF this]
  have "re_session_id r \<in> O'" if "r \<in> set ?new" for r
    using ranges_loop_sound [OF that [unfolded entries_from_client_ranges_def]] assms(2) by auto
  moreover have "routes_avoid api (pool_nets (px_pool c)) (replace_session_routes i ?new (route_tab c))"
    using assms(1) sound by (auto simp: ctx_ok_def routes_avoid_def replace_session_routes_def)
  ultimately show ?thesis
    using assms(1) by (auto simp: ctx_ok_def engine_ok_def qsids_ok_def replace_session_routes_def)
qed

lemma client_routes_obeys:
  assumes "obeys api O' i k"
  shows "obeys api O' i (rbind (peek tk_ctx) (\<lambda>ctx.
    rbind (if cfg_accept_client_routes (px_config ctx)
           then on_routes (replace_session_routes i (entries_from_client_ranges api i ranges (pool_nets (px_pool ctx))))
           else rret ()) (\<lambda>_. k)))"
    (is "obeys api O' i ?m")
proof (rule obeys_run)
  fix t
  assume t: "task_ok api O' i t"
  define t1 where "t1 = (if cfg_accept_client_routes (px_config (tk_ctx t)) then
      tk_ctx_update (px_engine_update (fe_route_table_update (replace_session_routes i
        (entries_from_client_ranges api i ranges (pool_nets (px_pool (tk_ctx t))))))) t else t)"
  have "task_ok api O' i t1" "owner (tk_ctx t1) = owner (tk_ctx t)"
    using t replace_routes_ok [of O' "tk_ctx t" i ranges] by (simp_all add: t1_def task_ok_def)
  moreover have "?m t = k t1"
    by (simp add: t1_def on_routes_def on_engine_def on_ctx_def rbind_basic)
  ultimately show "\<exists>r t'. ?m t = (r, t') \<and> task_ok api O' i t' \<and> lease_grant\<^sup>*\<^sup>* (owner (tk_ctx t)) (owner (tk_ctx t'))"
    using assms unfolding obeys_def by (metis surjective_pairing)
qed

lemma handle_capsule_obeys: "obeys api O' i (handle_capsule api i c)"
proof (cases c)
  case (CapAddressRequest req)
  then show ?thesis
    by (auto simp: handle_capsule_def intro!: obeys_rbind obeys_each grant_request_obeys obeys_set_assigned)
next
  case (CapRouteAdvertisement ra)
  have "sessions_ok O' own (set_client_routes i rs m)" if "sessions_ok O' own m" for own m rs
    using that by (simp add: set_client_routes_def modify_ok)
  then show ?thesis using CapRouteAdvertisement
    by (auto simp: handle_capsule_def intro!: client_routes_obeys obeys_sessions)
next
  case (CapAddressAssign assign)
  have "sessions_ok O' own (set_proxy_addresses i as m)" if "sessions_ok O' own m" for own m as
    using that by (simp add: set_proxy_addresses_def modify_ok)
  then show ?thesis using CapAddressAssign by (auto simp: handle_capsule_def intro!: obeys_sessions)
qed (simp add: handle_capsule_def)

lemma allocate_obeys:
  assumes eff: "\<forall>p r p'. pool_inv api p \<longrightarrow> f p = (r, p') \<longrightarrow> alloc_effect api i r p p'"
    and t: "task_ok api O' i t" and f: "f (px_pool (tk_ctx t)) = (r, p')"
  shows "task_ok api O' i (tk_ctx_update (px_pool_update (\<lambda>_. p')) t)"
    and "lease_grant\<^sup>*\<^sup>* (owner (tk_ctx t)) (ap_allocated p')"
    and "r = Some a \<Longrightarrow> exact a \<and> ap_allocated p' (aa_ip_address a) = Some i"
    and "owner (tk_ctx t) x = Some j \<Longrightarrow> ap_allocated p' x = Some j"
proof -
  have inv: "ctx_ok api O' (tk_ctx t)" "i \<in> O'" "pool_inv api (px_pool (tk_ctx t))"
    using t by (simp_all add: task_ok_def ctx_ok_def)
  note e = eff [rule_format, OF inv(3) f]
  note c = ctx_alloc [OF inv(1,2) e]
  show "task_ok api O' i (tk_ctx_update (px_pool_update (\<lambda>_. p')) t)"
    using c(1,3) t by (auto simp: task_ok_def)
  show "lease_grant\<^sup>*\<^sup>* (owner (tk_ctx t)) (ap_allocated p')" by (rule c(2))
  show "exact a \<and> ap_allocated p' (aa_ip_address a) = Some i" if "r = Some a"
    using e that by (simp add: alloc_effect_def)
  show "ap_allocated p' x = Some j" if "owner (tk_ctx t) x = Some j" using that by (rule c(3))
qed

lemma allocate_addresses_obeys: "obeys api O' i (allocate_addresses api i)"
proof (rule obeys_run)
  fix t
  assume t: "task_ok api O' i t"
  obtain r4 p4 where a4: "allocate_v4 api i (px_pool (tk_ctx t)) = (r4, p4)" by fastforce
  have "\<forall>p r p'. pool_inv api p \<longrightarrow> allocate_v4 api i p = (r, p') \<longrightarrow> alloc_effect api i r p p'"
    using v4_effect by blast
  note s4 = allocate_obeys [OF this t a4]
  define t4 where "t4 = tk_ctx_update (px_pool_update (\<lambda>_. p4)) t"
  have o4: "owner (tk_ctx t4) = ap_allocated p4" by (simp add: t4_def)
  obtain r6 p6 where a6: "allocate_v6 api i (px_pool (tk_ctx t4)) = (r6, p6)" by fastforce
  have "\<forall>p r p'. pool_inv api p \<longrightarrow> allocate_v6 api i p = (r, p') \<longrightarrow> alloc_effect api i r p p'"
    using v6_effect by blast
  note s6 = allocate_obeys [OF this s4(1) [folded t4_def] a6]
  define t6 where "t6 = tk_ctx_update (px_pool_update (\<lambda>_. p6)) t4"
  define t' where "t' = tk_assigned_update (\<lambda>_. (case r4 of Some a \<Rightarrow> [a] | None \<Rightarrow> []) @ (case r6 of Some a \<Rightarrow> [a] | None \<Rightarrow> [])) t6"
  have "allocate_addresses api i t = (Ok (), t')"
    using a4 a6 by (simp add: allocate_addresses_def on_ctx_def rbind_basic upd_def t4_def t6_def t'_def)
  moreover have o': "owner (tk_ctx t') = ap_allocated p6" by (simp add: t'_def t6_def)
  moreover have "task_ok api O' i t'"
  proof -
    have "exact a \<and> ap_allocated p6 (aa_ip_address a) = Some i" if "r4 = Some a" for a
      using s4(3) [OF that] s6(4) [unfolded o4] by blast
    moreover have "exact a \<and> ap_allocated p6 (aa_ip_address a) = Some i" if "r6 = Some a" for a
      using that by (rule s6(3))
    ultimately have "\<forall>x \<in> set (tk_assigned t'). exact x \<and> owner (tk_ctx t') (aa_ip_address x) = Some i"
      unfolding o' by (auto simp: t'_def split: option.splits)
    moreover have "ctx_ok api O' (tk_ctx t')" "i \<in> O'"
      using s6(1) by (simp_all add: t'_def t6_def task_ok_def)
    ultimately show ?thesis by (simp add: task_ok_def)
  qed
  moreover have "lease_grant\<^sup>*\<^sup>* (owner (tk_ctx t)) (ap_allocated p6)"
    using s4(2) s6(2) unfolding o4 by (rule rtranclp_trans)
  ultimately show "\<exists>r t'. allocate_addresses api i t = (r, t') \<and> task_ok api O' i t' \<and>
      lease_grant\<^sup>*\<^sup>* (owner (tk_ctx t)) (owner (tk_ctx t'))" by auto
qed

lemma begin_tunnel_obeys: "obeys api O' i (begin_tunnel api i)"
  by (auto simp: begin_tunnel_def intro!: obeys_rbind allocate_addresses_obeys)

end

section \<open>Installation, timer and teardown\<close>

lemma task_engine:
  assumes "task_ok api O' i t" "engine_ok O' (f (px_engine (tk_ctx t)))"
    "fe_route_table (f (px_engine (tk_ctx t))) = route_tab (tk_ctx t)"
  shows "task_ok api O' i (tk_ctx_update (px_engine_update f) t)"
  using assms by (simp add: task_ok_def ctx_ok_def)

lemma register_ok:
  assumes "engine_ok O' e" "i \<in> O'" "qsid \<le> VARINT_MAX"
  shows "engine_ok O' (register_session now i (SinkDatagram conn qsid) policy mtu e)"
  using assms by (auto simp: engine_ok_def register_session_def qsids_ok_def)

lemma metrics_ok [simp]: "engine_ok O' (fe_metrics_update f e) = engine_ok O' e"
  by (simp add: engine_ok_def qsids_ok_def)

lemma set_mtu_ok: "engine_ok O' e \<Longrightarrow> engine_ok O' (set_mtu i mtu e)"
  by (auto simp: engine_ok_def set_mtu_def qsids_ok_def split: option.split)

lemma set_mtu_routes [simp]: "fe_route_table (set_mtu i mtu e) = fe_route_table e"
  by (simp add: set_mtu_def split: option.split)

lemma announce_obeys: "obeys api O' i (announce routes)"
  by (auto simp: announce_def intro!: obeys_rbind)

lemma run_each_route:
  assumes "task_ok api O' i t" "\<forall>x \<in> set as. owner (tk_ctx t) (aa_ip_address x) = Some i"
  shows "\<exists>t'. each (\<lambda>a. on_routes (insert_client_addr (aa_ip_address a) i)) as t = (Ok (), t') \<and>
    task_ok api O' i t' \<and> owner (tk_ctx t') = owner (tk_ctx t) \<and> tk_assigned t' = tk_assigned t"
  using assms
proof (induction as arbitrary: t)
  case Nil
  then show ?case by (simp add: rret_def)
next
  case (Cons a as)
  let ?t = "tk_ctx_update (px_engine_update (fe_route_table_update (insert_client_addr (aa_ip_address a) i))) t"
  have "task_ok api O' i ?t"
    using Cons.prems ctx_route [of api O' "tk_ctx t" "aa_ip_address a" i] by (simp add: task_ok_def)
  moreover have "each (\<lambda>a. on_routes (insert_client_addr (aa_ip_address a) i)) (a # as) t =
      each (\<lambda>a. on_routes (insert_client_addr (aa_ip_address a) i)) as ?t"
    by (simp add: on_routes_def on_engine_def on_ctx_def rbind_basic)
  ultimately show ?case using Cons.IH [of ?t] Cons.prems(2) by simp
qed

lemma install_obeys: "qsid \<le> VARINT_MAX \<Longrightarrow> obeys api O' i (install now conn max_dg i qsid routes)"
proof (rule obeys_run)
  fix t
  assume q: "qsid \<le> VARINT_MAX" and t: "task_ok api O' i t"
  let ?as = "tk_assigned t"
  obtain t1 where t1: "each (\<lambda>a. on_routes (insert_client_addr (aa_ip_address a) i)) ?as t = (Ok (), t1)"
    "task_ok api O' i t1" "owner (tk_ctx t1) = owner (tk_ctx t)" "tk_assigned t1 = ?as"
    using run_each_route [OF t, of ?as] t by (auto simp: task_ok_def)
  define mtu where "mtu = effective_mtu max_dg qsid (px_config (tk_ctx t1))"
  define t2 where "t2 = tk_ctx_update (px_engine_update (register_session now i (SinkDatagram conn qsid) routes mtu)) t1"
  define t3 where "t3 = tk_ctx_update (px_sessions_update (set_assigned i ?as)) t2"
  define t4 where "t4 = tk_ctx_update (px_engine_update (fe_metrics_update (metric_incr sessions_total_update))) t3"
  have i: "i \<in> O'" "engine_ok O' (px_engine (tk_ctx t1))" using t1(2) by (simp_all add: task_ok_def ctx_ok_def)
  have t2': "task_ok api O' i t2"
    unfolding t2_def using t1(2) register_ok [OF i(2,1) q]
    by (rule task_engine) (simp add: register_session_def)
  have own: "owner (tk_ctx t2) = owner (tk_ctx t)" "tk_assigned t2 = ?as" using t1 by (simp_all add: t2_def)
  have "sessions_ok O' (owner (tk_ctx t2)) (set_assigned i ?as (px_sessions (tk_ctx t2)))"
    using set_assigned_ok [of O' "owner (tk_ctx t2)" "px_sessions (tk_ctx t2)" i ?as] t2' t own
    by (simp add: task_ok_def ctx_ok_def)
  then have "task_ok api O' i t3" using t2' by (simp add: t3_def task_ok_def ctx_ok_def)
  then have "task_ok api O' i t4" by (simp add: t4_def task_ok_def ctx_ok_def)
  moreover have "install now conn max_dg i qsid routes t = (Ok (), t4)"
    using t1(1) by (simp add: install_def rbind_basic rbind_Ok on_engine_def on_sessions_def on_ctx_def count_metric_def
      upd_def mtu_def t2_def t3_def t4_def)
  moreover have "owner (tk_ctx t4) = owner (tk_ctx t)" using own by (simp add: t3_def t4_def)
  ultimately show "\<exists>r t'. install now conn max_dg i qsid routes t = (r, t') \<and> task_ok api O' i t' \<and>
      lease_grant\<^sup>*\<^sup>* (owner (tk_ctx t)) (owner (tk_ctx t'))" by auto
qed

lemma tick_obeys: "obeys api O' i (tunnel_turn api i qsid (MtuTick max_dg) b)"
proof -
  have "obeys api O' i (on_engine (set_mtu i m))" for m by (rule obeys_engine) (simp_all add: set_mtu_ok)
  then show ?thesis by (auto simp: tunnel_turn_def intro!: obeys_rbind)
qed

lemma teardown_ok:
  assumes "ctx_ok api O' c"
  shows "ctx_ok api (O' - {i}) (teardown i c)"
    and "owner (teardown i c) = (\<lambda>a. if owner c a = Some i then None else owner c a)"
proof -
  have inv: "pool_inv api (px_pool c)" using assms by (simp add: ctx_ok_def)
  show own: "owner (teardown i c) = (\<lambda>a. if owner c a = Some i then None else owner c a)"
    using release_allocated [OF inv] by (auto simp: teardown_def Let_def)
  have "pool_inv api (px_pool (teardown i c))" using release_inv [OF inv] by (simp add: teardown_def Let_def)
  moreover have "ran (owner (teardown i c)) \<subseteq> O' - {i}"
    using assms unfolding own by (auto simp: ctx_ok_def ran_def split: if_splits)
  moreover have "sessions_ok (O' - {i}) (owner (teardown i c)) (px_sessions (teardown i c))"
    using assms sm_remove_inv [of "px_sessions c" i] unfolding own ctx_ok_def sessions_ok_def
    by (auto simp: teardown_def Let_def sm_remove_def split: if_splits)
  moreover have "engine_ok (O' - {i}) (px_engine (teardown i c))"
    using assms unfolding ctx_ok_def engine_ok_def qsids_ok_def
    by (auto simp: teardown_def Let_def unregister_session_def remove_session_def split: if_splits)
  moreover have "rt_client_addrs (route_tab (teardown i c)) a = Some j \<Longrightarrow> owner (teardown i c) a = Some j" for a j
    using assms unfolding own ctx_ok_def
    by (auto simp: teardown_def Let_def unregister_session_def remove_session_def split: if_splits)
  moreover have "routes_avoid api (pool_nets (px_pool (teardown i c))) (route_tab (teardown i c))"
    using assms by (auto simp: ctx_ok_def routes_avoid_def teardown_def Let_def release_nets unregister_session_def remove_session_def)
  ultimately show "ctx_ok api (O' - {i}) (teardown i c)" by (simp add: ctx_ok_def)
qed

section \<open>Admission\<close>

text \<open>A request becomes a session, or is refused and possibly counted.\<close>

definition admission ::
    "ipnet_api \<Rightarrow> auth_api \<Rightarrow> (string \<Rightarrow> (string, ip_addr list) res) \<Rightarrow> instant \<Rightarrow> request \<Rightarrow> bytes option \<Rightarrow>
     session_id \<Rightarrow> proxy_ctx \<Rightarrow> ip_address_range list \<Rightarrow> proxy_ctx \<Rightarrow> bool" where
  "admission api crypto dns now req cert i c rs c' \<longleftrightarrow> (\<exists>scope auth sessions.
     validate_request req = Ok scope \<and> authenticate crypto (px_auth c) (rq_headers req) cert = Ok auth \<and>
     resolve_advertised_routes api dns c scope = Ok rs \<and>
     sm_insert ((ts_new i scope auth now)\<lparr>ts_advertised_routes := rs\<rparr>) (px_sessions c) = (Ok (), sessions) \<and>
     c' = px_sessions_update (\<lambda>_. sessions) c)"

definition refusal :: "proxy_ctx \<Rightarrow> proxy_ctx \<Rightarrow> bool" where
  "refusal c c' \<longleftrightarrow> c' = c \<or> c' = px_engine_update (fe_metrics_update (metric_incr auth_failures_total_update)) c"

lemmas admit_simps = admit_def rbind_def attempt_def rlift_def peek_def count_metric_def on_engine_def
  on_sessions_def on_ctx_def upd_def rret_def

lemma admit_run:
  assumes "admit api crypto dns now req cert i t = (r, t')"
  shows "tk_assigned t' = tk_assigned t \<and> (case r of
      Ok rs \<Rightarrow> admission api crypto dns now req cert i (tk_ctx t) rs (tk_ctx t')
    | _ \<Rightarrow> refusal (tk_ctx t) (tk_ctx t'))"
proof -
  have refused: ?thesis if "refuse status e u = (r, t')" "refusal (tk_ctx t) (tk_ctx u)" "tk_assigned u = tk_assigned t"
    for status e u
    using refuse_run [OF that(1)] that(2,3) by (cases r) auto
  have same: "refusal (tk_ctx t) (tk_ctx t)" by (simp add: refusal_def)
  show ?thesis
  proof (cases "validate_request req")
    case (Err e)
    then have "refuse (case e of InvalidRequest _ \<Rightarrow> 400 | _ \<Rightarrow> 500) e t = (r, t')" using assms by (simp add: admit_simps)
    then show ?thesis using same by (rule refused) simp
  next
    case Panic
    then show ?thesis using assms same by (auto simp: admit_simps)
  next
    case (Ok scope)
    note v = this
    show ?thesis
    proof (cases "authenticate crypto (px_auth (tk_ctx t)) (rq_headers req) cert")
      case (Err e)
      then have "refuse 401 e (tk_ctx_update (px_engine_update (fe_metrics_update (metric_incr auth_failures_total_update))) t) = (r, t')"
        using assms v by (simp add: admit_simps)
      then show ?thesis by (rule refused) (simp_all add: refusal_def)
    next
      case Panic
      then show ?thesis using assms v same by (auto simp: admit_simps)
    next
      case (Ok auth)
      note a = this
      show ?thesis
      proof (cases "resolve_advertised_routes api dns (tk_ctx t) scope")
        case (Err e)
        then have "refuse (case e of DnsFailure _ \<Rightarrow> 502 | _ \<Rightarrow> 400) e t = (r, t')"
          using assms v a by (simp add: admit_simps)
        then show ?thesis using same by (rule refused) simp
      next
        case Panic
        then show ?thesis using assms v a same by (auto simp: admit_simps)
      next
        case (Ok rs)
        obtain ri sessions where ins:
          "sm_insert ((ts_new i scope auth now)\<lparr>ts_advertised_routes := rs\<rparr>) (px_sessions (tk_ctx t)) = (ri, sessions)"
          by fastforce
        show ?thesis
        proof (cases ri)
          case (Err e)
          then have "refuse 503 e t = (r, t')" using assms v a Ok ins by (simp add: admit_simps)
          then show ?thesis using same by (rule refused) simp
        next
          case Panic
          then show ?thesis using assms v a Ok ins same by (auto simp: admit_simps)
        next
          case (Ok u)
          with \<open>resolve_advertised_routes api dns (tk_ctx t) scope = Ok rs\<close> ins v a assms
          have "r = Ok rs" "t' = tk_ctx_update (px_sessions_update (\<lambda>_. sessions)) t" by (simp_all add: admit_simps)
          then show ?thesis
            using v a ins Ok \<open>resolve_advertised_routes api dns (tk_ctx t) scope = Ok rs\<close>
            by (simp add: admission_def)
        qed
      qed
    qed
  qed
qed

end
