(* ===== verification/Proxy_Safe.thy ===== *)
theory Proxy_Safe
  imports Proxy_Inv
begin

text \<open>
  The proxy over every interleaving: the invariant of the whole machine, the refinement to the
  abstract machine of leases, and what follows for packets and for closed tunnels.
\<close>

section \<open>The invariant of the machine\<close>

definition world_ok :: "ipnet_api \<Rightarrow> world \<Rightarrow> bool" where
  "world_ok api w \<longleftrightarrow> ctx_ok api (dom (w_tunnels w)) (w_ctx w) \<and>
     (\<forall>i tn x. w_tunnels w i = Some tn \<longrightarrow> x \<in> set (tn_assigned tn) \<longrightarrow>
        exact x \<and> owner (w_ctx w) (aa_ip_address x) = Some i)"

text \<open>What a step does to the leases and to the invariant.\<close>

definition sound_step :: "ipnet_api \<Rightarrow> world \<Rightarrow> world \<Rightarrow> bool" where
  "sound_step api w w' \<longleftrightarrow> world_ok api w' \<and> lease_step\<^sup>*\<^sup>* (owner (w_ctx w)) (owner (w_ctx w'))"

lemma suspended_sound:
  assumes "world_ok api w" "task_ok api (insert i (dom (w_tunnels w))) i t"
    "lease_grant\<^sup>*\<^sup>* (owner (w_ctx w)) (owner (tk_ctx t))"
  shows "sound_step api w (suspended i ph t w)"
proof -
  have "world_ok api (suspended i ph t w)"
    using assms(1,2) lease_grants_le [OF assms(3)] unfolding world_ok_def task_ok_def
    by (fastforce simp: suspended_def split: if_splits)
  then show ?thesis using lease_grants_steps [OF assms(3)] by (simp add: sound_step_def suspended_def)
qed

lemma ended_sound:
  assumes "world_ok api w" "task_ok api (dom (w_tunnels w)) i t"
    "lease_grant\<^sup>*\<^sup>* (owner (w_ctx w)) (owner (tk_ctx t))"
  shows "sound_step api w (ended i t w)"
proof -
  have c: "ctx_ok api (dom (w_tunnels w)) (tk_ctx t)" using assms(2) by (simp add: task_ok_def)
  note td = teardown_ok [OF c, where i = i]
  have "lease_step (owner (tk_ctx t)) (owner (teardown i (tk_ctx t)))" unfolding td(2) by (rule lease_step.revoke)
  with lease_grants_steps [OF assms(3)] have "lease_step\<^sup>*\<^sup>* (owner (w_ctx w)) (owner (teardown i (tk_ctx t)))"
    by (rule rtranclp.rtrancl_into_rtrancl [where r = lease_step])
  moreover have "world_ok api (ended i t w)"
    using assms(1) td(1) lease_grants_le [OF assms(3)] unfolding world_ok_def ended_def td(2)
    by (fastforce simp: td(2) split: if_splits)
  ultimately show ?thesis by (simp add: sound_step_def ended_def)
qed

lemma resume_ok: "world_ok api w \<Longrightarrow> w_tunnels w i = Some tn \<Longrightarrow> task_ok api (dom (w_tunnels w)) i (resume (w_ctx w) tn)"
  by (auto simp: world_ok_def task_ok_def resume_def)

text \<open>A stretch of a tunnel's task.\<close>

lemma stretch_sound:
  assumes "world_ok api w" "w_tunnels w i = Some tn" "obeys api (dom (w_tunnels w)) i m"
    "m (resume (w_ctx w) tn) = (r, t)"
  shows "sound_step api w (after i ph r t w)"
proof -
  have i: "insert i (dom (w_tunnels w)) = dom (w_tunnels w)" using assms(2) by auto
  have "task_ok api (dom (w_tunnels w)) i t \<and> lease_grant\<^sup>*\<^sup>* (owner (w_ctx w)) (owner (tk_ctx t))"
    using assms(3) [unfolded obeys_def, rule_format, OF resume_ok [OF assms(1,2)]] assms(4) by (simp add: resume_def)
  then have t: "task_ok api (insert i (dom (w_tunnels w))) i t" "task_ok api (dom (w_tunnels w)) i t"
    "lease_grant\<^sup>*\<^sup>* (owner (w_ctx w)) (owner (tk_ctx t))" unfolding i by simp_all
  show ?thesis
    using suspended_sound [OF assms(1) t(1,3)] ended_sound [OF assms(1) t(2,3)]
    by (cases r) (simp_all add: after_def)
qed

text \<open>A step that leaves the leases and the tunnels alone.\<close>

lemma ctx_sound:
  assumes "world_ok api w" "ctx_ok api (dom (w_tunnels w)) c" "owner c = owner (w_ctx w)"
  shows "sound_step api w (w\<lparr>w_ctx := c\<rparr>)"
  using assms by (auto simp: sound_step_def world_ok_def)

lemma refusal_ok: "ctx_ok api O' c \<Longrightarrow> refusal c c' \<Longrightarrow> ctx_ok api O' c' \<and> owner c' = owner c"
  by (auto simp: refusal_def ctx_ok_def)

lemma admission_ok:
  assumes "ctx_ok api O' c" "i \<notin> O'" "admission api crypto dns now req cert i c rs c'"
  shows "ctx_ok api (insert i O') c'" "owner c' = owner c"
proof -
  obtain scope auth sessions where a:
    "sm_insert ((ts_new i scope auth now)\<lparr>ts_advertised_routes := rs\<rparr>) (px_sessions c) = (Ok (), sessions)"
    "c' = px_sessions_update (\<lambda>_. sessions) c" using assms(3) by (auto simp: admission_def)
  have s: "sessions = (px_sessions c)\<lparr>sm_assigned := (sm_assigned (px_sessions c))(i \<mapsto> []),
      sm_sessions := (sm_sessions (px_sessions c))(i \<mapsto> (ts_new i scope auth now)\<lparr>ts_advertised_routes := rs\<rparr>)\<rparr>"
    using a(1) by (auto simp: sm_insert_def ts_new_def split: if_splits)
  have "sm_inv sessions" using sm_insert_inv [OF _ a(1)] assms(1) by (simp add: ctx_ok_def sessions_ok_def)
  then have "sessions_ok (insert i O') (owner c) sessions"
    using assms(1) unfolding s ctx_ok_def sessions_ok_def by auto
  then show "ctx_ok api (insert i O') c'" using assms(1) unfolding a(2) ctx_ok_def engine_ok_def by auto
  show "owner c' = owner c" by (simp add: a(2))
qed

lemma unregister_ok:
  assumes "ctx_ok api O' c"
  shows "ctx_ok api O' (px_engine_update (unregister_session i) c)"
  using assms by (auto simp: ctx_ok_def engine_ok_def qsids_ok_def unregister_session_def)

lemma reap_ok: "ctx_ok api O' c \<Longrightarrow> ctx_ok api O' (reap iter now c) \<and> owner (reap iter now c) = owner c"
proof -
  have "ctx_ok api O' c \<Longrightarrow> ctx_ok api O' (foldl (\<lambda>c i. px_engine_update (unregister_session i) c) c is) \<and>
      owner (foldl (\<lambda>c i. px_engine_update (unregister_session i) c) c is) = owner c" for c "is"
    by (induction "is" arbitrary: c) (simp_all add: unregister_ok)
  then show "ctx_ok api O' c \<Longrightarrow> ?thesis" by (simp add: reap_def)
qed

section \<open>Packets\<close>

lemma engine_tables_ok:
  assumes "engine_ok O' e" "fe_session_sinks e' = fe_session_sinks e" "fe_policies e' = fe_policies e"
    "dom (fe_limiters e') = dom (fe_limiters e)" "fe_session_mtus e' = fe_session_mtus e"
    "fe_session_notify e' = fe_session_notify e" "fe_route_table e' = fe_route_table e"
  shows "engine_ok O' e'"
  using assms by (simp add: engine_ok_def qsids_ok_def)

lemma same_but_limiters_ok:
  assumes "same_but_limiters e e'" "dom (fe_limiters e') = dom (fe_limiters e)" "engine_ok O' e"
  shows "engine_ok O' e'" "fe_route_table e' = fe_route_table e"
proof -
  have "fe_session_sinks e' = fe_session_sinks e" "fe_policies e' = fe_policies e"
    "fe_session_mtus e' = fe_session_mtus e" "fe_session_notify e' = fe_session_notify e"
    and r: "fe_route_table e' = fe_route_table e"
    using assms(1) by (cases e; cases e'; simp add: same_but_limiters_def)+
  then show "engine_ok O' e'" using engine_tables_ok [OF assms(3)] assms(2) by simp
  show "fe_route_table e' = fe_route_table e" by (rule r)
qed

lemma same_tables_ok:
  assumes "same_tables e e'" "engine_ok O' e"
  shows "engine_ok O' e'" "fe_route_table e' = fe_route_table e"
proof -
  have "same_but_limiters e e'" "dom (fe_limiters e') = dom (fe_limiters e)"
    using assms(1) by (cases e; cases e'; simp add: same_tables_def same_but_limiters_def)+
  from same_but_limiters_ok [OF this assms(2)]
  show "engine_ok O' e'" "fe_route_table e' = fe_route_table e" .
qed

text \<open>The only thing the demultiplexer changes the shared state for is a packet of a session it knows.\<close>

lemma demux_packet:
  assumes "run_datagram_demux env api conn_seq wire c = (out, c')" "out = DemuxForward j r0 \<or> c' \<noteq> c"
  shows "\<exists>qsid dg i assigned r e'. decode_quic_datagram wire = Ok (qsid, dg) \<and> i = compose conn_seq (qsid * 4) \<and>
    sm_assigned (px_sessions c) i = Some assigned \<and>
    forward_from_client env api i assigned (dg_payload dg) (px_engine c) = (r, e') \<and> out = DemuxForward i r \<and>
    c' = (case r of Ok _ \<Rightarrow> px_sessions_update (touch (ne_now env) i) | _ \<Rightarrow> (\<lambda>c. c)) (c\<lparr>px_engine := e'\<rparr>)"
proof -
  obtain rv cursor where v: "read_varint wire = (rv, cursor)" by fastforce
  obtain q where q: "rv = Ok q" using assms v by (cases rv) (auto simp: run_datagram_demux_def)
  have sink: "ub_sink (px_udp_bind c) (compose conn_seq (q * 4)) = None"
    using assms v q by (cases "ub_sink (px_udp_bind c) (compose conn_seq (q * 4))") (auto simp: run_datagram_demux_def)
  obtain qsid dg where d: "decode_quic_datagram wire = Ok (qsid, dg)"
    using assms v q sink by (cases "decode_quic_datagram wire") (auto simp: run_datagram_demux_def)
  have ctxid: "dg_context_id dg = CONTEXT_ID_IP_PACKET"
    using assms v q sink d by (cases "dg_context_id dg = CONTEXT_ID_IP_PACKET") (auto simp: run_datagram_demux_def)
  obtain assigned where a: "sm_assigned (px_sessions c) (compose conn_seq (qsid * 4)) = Some assigned"
    using assms v q sink d ctxid
    by (cases "sm_assigned (px_sessions c) (compose conn_seq (qsid * 4))")
       (auto simp: run_datagram_demux_def assigned_snapshot_def)
  obtain r e' where f: "forward_from_client env api (compose conn_seq (qsid * 4)) assigned (dg_payload dg) (px_engine c) = (r, e')"
    by fastforce
  then have "out = DemuxForward (compose conn_seq (qsid * 4)) r"
    "c' = (case r of Ok _ \<Rightarrow> px_sessions_update (touch (ne_now env) (compose conn_seq (qsid * 4))) | _ \<Rightarrow> (\<lambda>c. c)) (c\<lparr>px_engine := e'\<rparr>)"
    using assms(1) v q sink d ctxid a by (simp_all add: run_datagram_demux_def assigned_snapshot_def Let_def)
  then show ?thesis using d a f by blast
qed

lemma demux_ok:
  assumes "run_datagram_demux env api conn_seq wire c = (out, c')" "ctx_ok api O' c"
  shows "ctx_ok api O' c' \<and> owner c' = owner c"
proof (cases "c' = c")
  case True
  then show ?thesis using assms(2) by simp
next
  case False
  with demux_packet [OF assms(1)] obtain qsid dg i assigned r e' where packet:
      "decode_quic_datagram wire = Ok (qsid, dg)" "i = compose conn_seq (qsid * 4)"
      "sm_assigned (px_sessions c) i = Some assigned"
      "forward_from_client env api i assigned (dg_payload dg) (px_engine c) = (r, e')" "out = DemuxForward i r"
      "c' = (case r of Ok _ \<Rightarrow> px_sessions_update (touch (ne_now env) i) | _ \<Rightarrow> (\<lambda>c. c)) (c\<lparr>px_engine := e'\<rparr>)"
    by blast
  have e: "engine_ok O' (px_engine c)" using assms(2) by (simp add: ctx_ok_def)
  note f = same_but_limiters_ok [OF forward_from_client_spec(2,3) [OF packet(4)] e]
  have c1: "ctx_ok api O' (c\<lparr>px_engine := e'\<rparr>)" using assms(2) f by (simp add: ctx_ok_def)
  then have "ctx_ok api O' (px_sessions_update (touch (ne_now env) i) (c\<lparr>px_engine := e'\<rparr>))"
    by (simp add: ctx_ok_def touch_def modify_ok)
  then show ?thesis using c1 packet(6) by (cases r) auto
qed

section \<open>Every step\<close>

context ipnet
begin

lemma proxy_step_sound: "proxy_step api w w' \<Longrightarrow> world_ok api w \<Longrightarrow> sound_step api w w'"
proof (induction rule: proxy_step.induct)
  case (step_admit i conn_seq stream w crypto dns now req cert rs t)
  have c: "ctx_ok api (dom (w_tunnels w)) (w_ctx w)" using step_admit by (simp add: world_ok_def)
  from admit_run [OF step_admit(3)]
  have a: "tk_assigned t = []" "admission api crypto dns now req cert i (w_ctx w) rs (tk_ctx t)"
    by (simp_all add: start_task_def)
  have "i \<notin> dom (w_tunnels w)" using step_admit(2) by auto
  note ok = admission_ok [OF c this a(2)]
  show ?case using suspended_sound [of api w i t "Starting rs"] ok a step_admit(4) by (simp add: task_ok_def)
next
  case (step_refuse crypto dns now req cert i w stream e t)
  from admit_run [OF step_refuse(1)] have "refusal (w_ctx w) (tk_ctx t)" by (simp add: start_task_def)
  then show ?case using refusal_ok step_refuse(2) by (intro ctx_sound) (auto simp: world_ok_def)
next
  case (step_begin w i tn rs r t)
  then show ?case using stretch_sound [OF _ _ begin_tunnel_obeys] by blast
next
  case (step_install w i tn rs now conn max_dg r t)
  have "obeys api (dom (w_tunnels w)) i
      (rbind (announce rs) (\<lambda>_. install now conn max_dg i (quarter_stream_id (st_id (tn_stream tn))) rs))"
    by (intro obeys_rbind announce_obeys install_obeys quarter_bound)
  from stretch_sound [OF step_install(4,1) this step_install(3)] show ?case .
next
  case (step_tick w i tn qsid max_dg b t)
  have "obeys api (dom (w_tunnels w)) i (tunnel_turn api i qsid (MtuTick max_dg) b)" by (rule tick_obeys)
  from this [unfolded obeys_def, rule_format, OF resume_ok [OF step_tick(3,1)]]
  have "ctx_ok api (dom (w_tunnels w)) (tk_ctx t)" using step_tick(2) by (simp add: task_ok_def)
  moreover have "owner (tk_ctx t) = owner (w_ctx w)"
    using step_tick(2) by (auto simp: tunnel_turn_def resume_def task_simps)
  ultimately show ?case using step_tick(3) by (intro ctx_sound)
next
  case (step_chunk w i tn b chunk)
  have "insert i (dom (w_tunnels w)) = dom (w_tunnels w)" using step_chunk(1) by auto
  then show ?case
    using suspended_sound [OF step_chunk(3), of i "resume (w_ctx w) tn"] resume_ok [OF step_chunk(3,1)]
    by (simp add: resume_def)
next
  case (step_capsule w i tn b c b' r t)
  then show ?case using stretch_sound [OF _ _ handle_capsule_obeys] by blast
next
  case (step_touch w i tn now)
  then show ?case by (intro ctx_sound) (auto simp: world_ok_def ctx_ok_def touch_def modify_ok)
next
  case (step_close w i tn)
  then show ?case using ended_sound [OF step_close(3) resume_ok [OF step_close(3,1)]] by (simp add: resume_def)
next
  case (step_datagram env conn_seq wire w out ctx)
  then show ?case using demux_ok [OF step_datagram(1)] by (intro ctx_sound) (auto simp: world_ok_def)
next
  case (step_network env packet w r engine)
  then show ?case
    using same_tables_ok [OF dispatch_outcome(1) [OF step_network(1)], of "dom (w_tunnels w)"]
    by (intro ctx_sound) (auto simp: world_ok_def ctx_ok_def)
next
  case (step_reap w iter now)
  then show ?case using reap_ok by (intro ctx_sound) (auto simp: world_ok_def)
qed

lemma main_context_ok:
  assumes "main_context api config tun = Ok c" "v4_valid (cfg_ipv4_pool config)" "pred_option v6_valid (cfg_ipv6_pool config)"
  shows "ctx_ok api {} c" "owner c = Map.empty"
proof -
  have c: "px_pool c = ap_new (cfg_ipv4_pool config) (cfg_ipv6_pool config)"
    "px_sessions c = sm_new (cfg_max_sessions config)"
    "px_engine c = main_engine api config (ap_new (cfg_ipv4_pool config) (cfg_ipv6_pool config)) tun"
    using assms(1) by (auto simp: main_context_def and_then_eq_Ok Let_def)
  have "pool_inv api (px_pool c)"
    unfolding c(1) using pool_new_inv [OF assms(2)] assms(3) by (simp add: option.pred_set)
  then show "ctx_ok api {} c"
    unfolding ctx_ok_def c(2,3) using sm_new_inv
    by (simp add: c(1) sessions_ok_def engine_ok_def qsids_ok_def routes_avoid_def main_engine_def fe_new_def rt_new_def sm_new_def ap_new_def)
  show "owner c = Map.empty" by (simp add: c(1) ap_new_def)
qed

lemma proxy_reach_ok:
  assumes "proxy_reach api config w" "v4_valid (cfg_ipv4_pool config)" "pred_option v6_valid (cfg_ipv6_pool config)"
  shows "world_ok api w"
  using assms
proof (induction rule: proxy_reach.induct)
  case (reach_start tun ctx)
  then show ?case using main_context_ok [OF reach_start(1)] by (simp add: world_ok_def)
next
  case (reach_step w w')
  then show ?case using proxy_step_sound by (simp add: sound_step_def)
qed

end

end
