(* ===== verification/Proxy_Run.thy ===== *)
theory Proxy_Run
  imports Proxy_Safe
begin

text \<open>
  A run of the machine, from start-up to a packet on the network: a proxy with the pool
  192.0.2.0/24 and a TUN device serves one unscoped request. The session is admitted, leased
  192.0.2.2 and installed.
\<close>

section \<open>Set-up\<close>

definition run_config :: proxy_config where
  "run_config = config_default\<lparr>cfg_ipv4_pool := Ipv4Net 0xC0000200 24, cfg_tun := True\<rparr>"

definition run_ctx :: proxy_ctx where
  "run_ctx = \<lparr>px_config = run_config, px_sessions = sm_new 1000, px_pool = ap_new (Ipv4Net 0xC0000200 24) None,
     px_engine = main_engine ref_ipnet run_config (ap_new (Ipv4Net 0xC0000200 24) None) True,
     px_auth = au_new ModeNone [] [], px_udp_bind = ub_disabled\<rparr>"

definition run_request :: request where
  "run_request = \<lparr>rq_method = ''CONNECT'', rq_protocol = Some ''connect-ip'',
     rq_headers = [''capsule-protocol'' \<mapsto> ''?1''], rq_path = ''/.well-known/masque/ip/*/*/''\<rparr>"

definition run_lease :: assigned_address where
  "run_lease = \<lparr>aa_request_id = 0, aa_ip_version = 4, aa_ip_address = V4 0xC0000202, aa_prefix_length = 32\<rparr>"

definition run_session :: tunnel_session where
  "run_session = (ts_new 0 \<lparr>rs_target = None, rs_ip_proto = None\<rparr> \<lparr>ac_method = ''none'', ac_principal = None\<rparr> 0)
     \<lparr>ts_advertised_routes := sample_full_range\<rparr>"

lemma run_valid: "v4_valid (cfg_ipv4_pool run_config)" "pred_option v6_valid (cfg_ipv6_pool run_config)"
  by (simp_all add: run_config_def config_default_def v4_valid_def)

lemma run_config_simps [simp]:
  "cfg_ipv4_pool run_config = Ipv4Net 0xC0000200 24" "cfg_ipv6_pool run_config = None" "cfg_split_routes run_config = []"
  "cfg_mtu run_config = 1400" "cfg_max_sessions run_config = 1000" "cfg_max_packet_rate run_config = 0"
  "cfg_max_byte_rate run_config = 0"
  by (simp_all add: run_config_def config_default_def)

lemma run_start: "main_context ref_ipnet run_config True = Ok run_ctx"
proof -
  have "validate run_config = Ok ()" "main_auth run_config = Ok (au_new ModeNone [] [])" "main_udp_bind run_config = Ok ub_disabled"
    by (simp_all add: run_config_def config_default_def validate_def basic_credentials_def main_auth_def
      main_udp_bind_def word_less_nat_alt)
  then show ?thesis by (simp add: main_context_def run_ctx_def Let_def)
qed

lemma run_bounds:
  "v4_network ref_ipnet (Ipv4Net 0xC0000200 24) = 0xC0000200"
  "v4_broadcast ref_ipnet (Ipv4Net 0xC0000200 24) = 0xC00002FF"
  "net_network ref_ipnet (NetV4 (Ipv4Net 0xC0000200 24)) = V4 0xC0000200"
  "net_broadcast ref_ipnet (NetV4 (Ipv4Net 0xC0000200 24)) = V4 0xC00002FF"
  by (simp_all add: ref_ipnet_def ref_v4_network_def ref_v4_broadcast_def block_base_def block_top_def)

lemma run_scope: "validate_request run_request = Ok \<lparr>rs_target = None, rs_ip_proto = None\<rparr>"
proof -
  have "header_is run_request ''capsule-protocol'' ''?1''" by (simp add: header_is_def run_request_def trim_def is_space_def)
  moreover have "parse_connect_ip_path ''/.well-known/masque/ip/*/*/'' = Ok \<lparr>rs_target = None, rs_ip_proto = None\<rparr>"
    using split_path [of "''*''" "''*''"] by (simp add: PATH_PREFIX_def parse_target_def parse_ipproto_def)
  ultimately show ?thesis by (simp add: validate_request_def run_request_def CONNECT_IP_PROTOCOL_def ok_or_def)
qed

lemma run_routes:
  "resolve_advertised_routes ref_ipnet dns run_ctx \<lparr>rs_target = None, rs_ip_proto = None\<rparr> = Ok sample_full_range"
  by (simp add: resolve_advertised_routes_def run_ctx_def pool_nets_def ap_new_def
    from_net_def run_bounds full_tunnel_routes_def merge_ranges_def derived_key_def merge_one_def saturating_add_def
    sample_full_range_def)

section \<open>From the admission to the running tunnel\<close>

definition run_stream :: req_stream where
  "run_stream = \<lparr>st_id = 0, st_accepts = [], st_sent = []\<rparr>"

definition run_admitted :: proxy_ctx where
  "run_admitted = run_ctx\<lparr>px_sessions :=
     \<lparr>sm_sessions = [0 \<mapsto> run_session], sm_assigned = [0 \<mapsto> []], sm_max_sessions = 1000\<rparr>\<rparr>"

definition run_pool :: address_pool where
  "run_pool = record_alloc 0 (V4 0xC0000202)
     ((ap_new (Ipv4Net 0xC0000200 24) None)\<lparr>ap_v4 := \<lparr>p4_net = Ipv4Net 0xC0000200 24, p4_cursor = 3, p4_free = []\<rparr>\<rparr>)"

definition run_leased :: proxy_ctx where
  "run_leased = run_admitted\<lparr>px_pool := run_pool\<rparr>"

definition run_installed :: proxy_ctx where
  "run_installed = run_leased\<lparr>
     px_engine := fe_metrics_update (metric_incr sessions_total_update)
       (register_session 0 0 (SinkDatagram 1 0) sample_full_range 1400
         (fe_route_table_update (insert_client_addr (V4 0xC0000202) 0) (px_engine run_ctx))),
     px_sessions := set_assigned 0 [run_lease] (px_sessions run_admitted)\<rparr>"

lemma run_admit:
  "admit ref_ipnet crypto dns 0 run_request None 0 (start_task run_ctx run_stream) =
     (Ok sample_full_range, start_task run_admitted run_stream)"
proof -
  have "authenticate crypto (px_auth run_ctx) (rq_headers run_request) None = Ok \<lparr>ac_method = ''none'', ac_principal = None\<rparr>"
    by (simp add: authenticate_def run_ctx_def au_new_def)
  moreover have "sm_insert run_session (px_sessions run_ctx) = (Ok (), px_sessions run_admitted)"
    by (simp add: sm_insert_def run_ctx_def run_admitted_def sm_new_def sm_len_def run_session_def ts_new_def)
  moreover have "run_ctx\<lparr>px_sessions := px_sessions run_admitted\<rparr> = run_admitted"
    by (simp add: run_admitted_def)
  ultimately show ?thesis
    using run_scope run_routes [of dns] unfolding admit_def start_task_def
    by (simp add: rbind_basic attempt_def on_sessions_def on_ctx_def rlift_def rbind_def peek_def upd_def rret_def flip: run_session_def)
qed

lemma run_allocate: "allocate_v4 ref_ipnet 0 (ap_new (Ipv4Net 0xC0000200 24) None) = (Some run_lease, run_pool)"
proof -
  have "v4_next_loop 0xC0000200 0xC00002FF 0 = (Some 0xC0000202, 3)" by (simp add: v4_next_loop.simps checked_add_def)
  then show ?thesis
    by (simp add: allocate_v4_def ap_new_def v4_search_found v4_next_def run_bounds run_lease_def run_pool_def)
qed

definition run_tunnel_of :: "frame list \<Rightarrow> assigned_address list \<Rightarrow> phase \<Rightarrow> tunnel" where
  "run_tunnel_of sent as ph = \<lparr>tn_stream = run_stream\<lparr>st_sent := sent\<rparr>, tn_assigned = as, tn_phase = ph\<rparr>"

lemma run_reach_admitted:
  "proxy_reach ref_ipnet run_config
     \<lparr>w_ctx = run_admitted, w_tunnels = [0 \<mapsto> run_tunnel_of [] [] (Starting sample_full_range)]\<rparr>"
proof -
  let ?w = "\<lparr>w_ctx = run_ctx, w_tunnels = Map.empty\<rparr>"
  have "compose 0 0 = 0" by (simp add: compose_def)
  then have "proxy_step ref_ipnet ?w (suspended 0 (Starting sample_full_range) (start_task run_admitted run_stream) ?w)"
    by (intro step_admit [where conn_seq = 0 and stream = run_stream and req = run_request and cert = None and now = 0])
       (simp_all add: run_admit run_stream_def [THEN arg_cong [of _ _ st_id]])
  from reach_step [OF reach_start [OF run_start] this] show ?thesis
    by (simp add: suspended_def start_task_def run_tunnel_of_def run_stream_def)
qed

lemma run_begin:
  "begin_tunnel ref_ipnet 0 (start_task run_admitted run_stream) =
     (Ok (), \<lparr>tk_ctx = run_leased, tk_stream = run_stream\<lparr>st_sent := [Response 200 [(''capsule-protocol'', ''?1'')]]\<rparr>,
       tk_assigned = [run_lease]\<rparr>)"
proof -
  have p: "px_pool run_admitted = ap_new (Ipv4Net 0xC0000200 24) None" by (simp add: run_admitted_def run_ctx_def)
  have v6: "allocate_v6 ref_ipnet 0 run_pool = (None, run_pool)" by (simp add: allocate_v6_def run_pool_def ap_new_def)
  show ?thesis
    by (simp add: begin_tunnel_def allocate_addresses_def start_task_def on_stream_def send_frame_def run_stream_def
      rbind_def peek_def on_ctx_def upd_def rret_def p run_allocate v6 run_leased_def)
qed

lemma run_reach_leased:
  "proxy_reach ref_ipnet run_config \<lparr>w_ctx = run_leased, w_tunnels = [0 \<mapsto>
     run_tunnel_of [Response 200 [(''capsule-protocol'', ''?1'')]] [run_lease] (Allocated sample_full_range)]\<rparr>"
proof -
  let ?w = "\<lparr>w_ctx = run_admitted, w_tunnels = [0 \<mapsto> run_tunnel_of [] [] (Starting sample_full_range)]\<rparr>"
  have "begin_tunnel ref_ipnet 0 (resume (w_ctx ?w) (run_tunnel_of [] [] (Starting sample_full_range))) =
     (Ok (), \<lparr>tk_ctx = run_leased, tk_stream = run_stream\<lparr>st_sent := [Response 200 [(''capsule-protocol'', ''?1'')]]\<rparr>,
       tk_assigned = [run_lease]\<rparr>)"
    using run_begin by (simp add: resume_def start_task_def run_tunnel_of_def run_stream_def)
  from reach_step [OF run_reach_admitted step_begin [OF _ _ this, where routes = sample_full_range]]
  show ?thesis by (simp add: run_tunnel_of_def after_def suspended_def)
qed

lemma run_announce:
  "\<exists>sent. announce sample_full_range \<lparr>tk_ctx = c, tk_stream = run_stream\<lparr>st_sent := l\<rparr>, tk_assigned = [run_lease]\<rparr> =
     (Ok (), \<lparr>tk_ctx = c, tk_stream = run_stream\<lparr>st_sent := sent\<rparr>, tk_assigned = [run_lease]\<rparr>)"
proof -
  have "wf_capsule (CapAddressAssign \<lparr>assigned_addresses = [run_lease]\<rparr>)"
    by (simp add: run_lease_def wf_assigned_def VARINT_MAX_def)
  moreover have "wf_capsule (CapRouteAdvertisement \<lparr>ip_address_ranges = sample_full_range\<rparr>)"
    by (simp add: sample_full_range_def wf_range_def)
  ultimately obtain a b where "encode_capsule (CapAddressAssign \<lparr>assigned_addresses = [run_lease]\<rparr>) = Ok a"
    "encode_capsule (CapRouteAdvertisement \<lparr>ip_address_ranges = sample_full_range\<rparr>) = Ok b"
    using capsule_sealed by metis
  then show ?thesis
    by (simp add: announce_def send_capsule_def on_stream_def send_frame_def run_stream_def rbind_def peek_def rlift_def)
qed

lemma run_install:
  "install 0 1 None 0 0 sample_full_range \<lparr>tk_ctx = run_leased, tk_stream = s, tk_assigned = [run_lease]\<rparr> =
     (Ok (), \<lparr>tk_ctx = run_installed, tk_stream = s, tk_assigned = [run_lease]\<rparr>)"
proof -
  have "effective_mtu None 0 (px_config run_leased) = 1400"
    by (simp add: effective_mtu_def run_leased_def run_admitted_def run_ctx_def)
  moreover have "aa_ip_address run_lease = V4 0xC0000202" by (simp add: run_lease_def)
  ultimately show ?thesis
    by (simp add: install_def rbind_def peek_def upd_def rret_def on_routes_def on_engine_def on_sessions_def on_ctx_def
      count_metric_def run_installed_def run_leased_def run_admitted_def)
qed

lemma run_reach_installed:
  "\<exists>sent. proxy_reach ref_ipnet run_config
     \<lparr>w_ctx = run_installed, w_tunnels = [0 \<mapsto> run_tunnel_of sent [run_lease] (Running cb_new)]\<rparr>"
proof -
  let ?t = "run_tunnel_of [Response 200 [(''capsule-protocol'', ''?1'')]] [run_lease] (Allocated sample_full_range)"
  let ?w = "\<lparr>w_ctx = run_leased, w_tunnels = [0 \<mapsto> ?t]\<rparr>"
  obtain sent where an: "announce sample_full_range (resume run_leased ?t) =
      (Ok (), \<lparr>tk_ctx = run_leased, tk_stream = run_stream\<lparr>st_sent := sent\<rparr>, tk_assigned = [run_lease]\<rparr>)"
    using run_announce [of run_leased] by (auto simp: resume_def run_tunnel_of_def)
  have "quarter_stream_id (st_id (tn_stream ?t)) = 0"
    by (simp add: quarter_stream_id_def run_tunnel_of_def run_stream_def)
  then have "rbind (announce sample_full_range)
      (\<lambda>_. install 0 1 None 0 (quarter_stream_id (st_id (tn_stream ?t))) sample_full_range) (resume (w_ctx ?w) ?t) =
    (Ok (), \<lparr>tk_ctx = run_installed, tk_stream = run_stream\<lparr>st_sent := sent\<rparr>, tk_assigned = [run_lease]\<rparr>)"
    using an run_install by (simp add: rbind_def)
  from reach_step [OF run_reach_leased step_install [OF _ _ this]]
  show ?thesis by (auto simp: run_tunnel_of_def after_def suspended_def)
qed

section \<open>A packet\<close>

text \<open>An echo request from 192.0.2.2 to 198.51.100.2 leaves through the TUN device.\<close>

definition run_packet :: bytes where
  "run_packet = [0x45, 0, 0, 28, 0, 0, 0, 0, 64, 1, 0, 0, 192, 0, 2, 2, 198, 51, 100, 2, 8, 0, 0, 0, 0, 1, 0, 1]"

definition run_info :: packet_info where
  "run_info = \<lparr>pi_version = 4, pi_src = V4 0xC0000202, pi_dst = V4 0xC6336402, pi_protocol = 1\<rparr>"

lemma run_parses: "parse_packet run_packet = Ok run_info"
  by (simp add: run_packet_def run_info_def parse_packet_def ver_def ihl_def sub_slice_def from_be16_def of_octets4_def)

lemma run_installed_simps:
  "sm_assigned (px_sessions run_installed) = [0 \<mapsto> [run_lease]]" "ap_allocated (px_pool run_installed) = [V4 0xC0000202 \<mapsto> 0]"
  "px_udp_bind run_installed = ub_disabled" "fe_limiters (px_engine run_installed) = Map.empty"
  "fe_mtu (px_engine run_installed) = 1400" "fe_policies (px_engine run_installed) = [0 \<mapsto> sample_full_range]"
  "fe_tun_tx (px_engine run_installed)" "lookup ref_ipnet (fe_route_table (px_engine run_installed)) (V4 0xC6336402) 1 = None"
  by (simp_all add: run_installed_def run_leased_def run_admitted_def run_ctx_def run_pool_def ap_new_def record_alloc_def
    main_engine_def fe_new_def register_session_def is_unlimited_def rt_new_def insert_client_addr_def lookup_def
    set_assigned_def)

lemma run_forward:
  "fst (forward_from_client sample_env ref_ipnet 0 [run_lease] run_packet (px_engine run_installed)) = Ok Tun"
proof -
  have src: "validate_source ref_ipnet run_info [run_lease] = Ok ()"
    by (simp add: validate_source_def run_lease_def run_info_def ref_ipnet_def ref_v4_contains_def
      ref_v4_network_def ref_v4_broadcast_def block_base_def block_top_def)
  have dst: "validate_destination (pi_dst run_info) = Ok ()"
    "lookup ref_ipnet (fe_route_table (px_engine run_installed)) (pi_dst run_info) (pi_protocol run_info) = None"
    using sample_destination_ok by (simp_all add: run_info_def sample_info_def run_installed_simps)
  have pol: "fe_limiters (px_engine run_installed) 0 = None" "fe_policies (px_engine run_installed) 0 = Some sample_full_range"
    "policy_allows sample_full_range (pi_dst run_info) (pi_protocol run_info)"
    by (simp_all add: run_info_def sample_allowed run_installed_simps)
  have p: "run_packet ! hop_index run_packet > 1" "length run_packet \<le> fe_mtu (px_engine run_installed)"
    by (simp_all add: run_packet_def hop_index_def ver_def word_less_nat_alt run_installed_simps)
  have "ne_tun_ok sample_env q" for q by (simp add: sample_env_def)
  with forward_passes [OF pol(1) run_parses src p(2) dst(1) pol(2,3) p(1), where env = sample_env]
  show ?thesis unfolding dst(2) using run_installed_simps(7) by auto
qed

lemma run_datagram:
  "\<exists>wire c'. run_datagram_demux sample_env ref_ipnet 0 wire run_installed = (DemuxForward 0 (Ok Tun), c') \<and>
     decode_quic_datagram wire = Ok (0, dg_ip_packet run_packet)"
proof -
  have "(0::u64) \<le> VARINT_MAX" "dg_context_id (dg_ip_packet run_packet) \<le> VARINT_MAX"
    by (simp_all add: dg_ip_packet_def CONTEXT_ID_IP_PACKET_def)
  from encode_quic_datagram_Ok [OF this] obtain wire where w: "decode_quic_datagram wire = Ok (0, dg_ip_packet run_packet)"
    by blast
  then obtain rest where r: "read_varint wire = (Ok 0, rest)"
    by (auto simp: decode_quic_datagram_def rbind_def rret_def split: prod.splits res.splits)
  obtain e' where "forward_from_client sample_env ref_ipnet 0 [run_lease] run_packet (px_engine run_installed) = (Ok Tun, e')"
    using run_forward by (metis prod.collapse)
  moreover have "compose 0 0 = 0" by (simp add: compose_def)
  ultimately show ?thesis using w r
    by (intro exI [of _ wire]) (simp add: run_datagram_demux_def run_installed_simps ub_sink_def ub_disabled_def
      dg_ip_packet_def assigned_snapshot_def Let_def)
qed

section \<open>The end of the tunnel\<close>

lemma run_closed:
  "\<exists>w w'. proxy_reach ref_ipnet run_config w \<and> proxy_step ref_ipnet w w' \<and> w_tunnels w' 0 = None \<and>
     ap_allocated (px_pool (w_ctx w)) = [V4 0xC0000202 \<mapsto> 0] \<and> ap_allocated (px_pool (w_ctx w')) = Map.empty"
proof -
  obtain sent where r: "proxy_reach ref_ipnet run_config
      \<lparr>w_ctx = run_installed, w_tunnels = [0 \<mapsto> run_tunnel_of sent [run_lease] (Running cb_new)]\<rparr>"
    (is "proxy_reach _ _ ?w") using run_reach_installed by blast
  let ?t = "run_tunnel_of sent [run_lease] (Running cb_new)"
  have s: "proxy_step ref_ipnet ?w (ended 0 (resume (w_ctx ?w) ?t) ?w)"
    by (rule step_close) (simp_all add: run_tunnel_of_def)
  have "ctx_ok ref_ipnet (dom (w_tunnels ?w)) (w_ctx ?w)"
    using ref.proxy_reach_ok [OF r run_valid] by (simp add: world_ok_def)
  from teardown_ok(2) [OF this, of 0]
  have "ap_allocated (px_pool (teardown 0 run_installed)) = Map.empty" by (auto simp: run_installed_simps)
  then show ?thesis using r s by (intro exI [of _ ?w] exI) (auto simp: ended_def resume_def run_installed_simps)
qed

end
