(* ===== verification/Proxy_Properties.thy ===== *)
theory Proxy_Properties
  imports Proxy_Run
begin

text \<open>
  What the invariant of the machine gives for whoever watches the proxy: leases change only as the
  abstract machine of leases allows, packets cross between tunnels only by the leases, and a
  closed tunnel leaves nothing behind.
\<close>

section \<open>Packets and leases\<close>

context ipnet
begin

text \<open>An exact assignment covers one address.\<close>

lemma exact_covers:
  assumes "exact a" "net_new api (aa_ip_address a) (aa_prefix_length a) = Some net" "net_contains api net x"
  shows "x = aa_ip_address a"
proof -
  have n: "net_valid net" "net_addr net = aa_ip_address a" "net_prefix_len net = aa_prefix_length a"
    using new_valid [OF assms(2)] by simp_all
  then have "host_bits net = 0" using assms(1) by (cases net) (simp_all add: host_bits_def exact_def flip: n(2))
  moreover have "is_ipv4 (aa_ip_address a) = net_is_v4 net" unfolding n(2) [symmetric] by (cases net) simp_all
  ultimately show ?thesis
    using assms(3) n(2) by (cases x; cases "aa_ip_address a") (auto simp: contains_block [OF n(1)] intro: word_unat_eq_iff [THEN iffD2])
qed

text \<open>A leased address is routed to nobody but the session that holds it.\<close>

lemma leased_route:
  assumes "ctx_ok api O' c" "lookup api (route_tab c) dst proto = Some j" "owner c dst = Some k"
  shows "j = k"
proof (cases "rt_client_addrs (route_tab c) dst")
  case None
  then obtain r where r: "max_by_key (\<lambda>r. net_prefix_len (re_prefix r))
      (filter (route_matches api dst proto) (rt_routes (route_tab c))) = Some r"
    using assms(2) by (auto simp: lookup_def)
  then have "r \<in> set (rt_routes (route_tab c))" "net_contains api (re_prefix r) dst"
    using max_by_key_Some [OF r] by (auto simp: route_matches_def)
  then have "\<not> list_ex (\<lambda>n. net_contains api n dst) (pool_nets (px_pool c))"
    using assms(1) by (auto simp: ctx_ok_def routes_avoid_def)
  then show ?thesis using leased_in_pool [of "px_pool c" dst k] assms by (simp add: ctx_ok_def)
next
  case (Some l)
  then show ?thesis using assms by (auto simp: ctx_ok_def lookup_def)
qed

lemma routed_open:
  assumes "ctx_ok api O' c" "lookup api (route_tab c) dst proto = Some j"
  shows "j \<in> O'"
proof (cases "rt_client_addrs (route_tab c) dst")
  case None
  then obtain r where r: "max_by_key (\<lambda>r. net_prefix_len (re_prefix r))
      (filter (route_matches api dst proto) (rt_routes (route_tab c))) = Some r" "j = re_session_id r"
    using assms(2) by (auto simp: lookup_def)
  then have "r \<in> set (rt_routes (route_tab c))" using max_by_key_Some [OF r(1)] by simp
  then show ?thesis using assms(1) r(2) by (simp add: ctx_ok_def engine_ok_def)
next
  case (Some l)
  then have "owner c dst = Some j" using assms by (simp add: ctx_ok_def lookup_def)
  then show ?thesis using assms(1) by (auto simp: ctx_ok_def ran_def)
qed

lemma forwarded_by_lease:
  assumes "ctx_ok api O' c" "sm_assigned (px_sessions c) i = Some assigned"
    "forward_from_client env api i assigned p (px_engine c) = (Ok fw, e')"
  shows "\<exists>info. parse_packet p = Ok info \<and> owner c (pi_src info) = Some i \<and>
    (case fw of Hairpin j \<Rightarrow> lookup api (route_tab c) (pi_dst info) (pi_protocol info) = Some j
     | Tun \<Rightarrow> lookup api (route_tab c) (pi_dst info) (pi_protocol info) = None)"
proof -
  from forward_from_client_spec(1) [OF assms(3)] obtain info q x where
    adm: "admissible api (px_engine c) i assigned p info q" and out: "leaves env api (px_engine c) info q fw x"
    by (auto simp: forward_spec_def)
  from adm obtain a net where a: "a \<in> set assigned" "net_new api (aa_ip_address a) (aa_prefix_length a) = Some net"
    "net_contains api net (pi_src info)" by (auto simp: admissible_def validate_source_Ok)
  have "exact a" "owner c (aa_ip_address a) = Some i" using assms(1,2) a(1) by (auto simp: ctx_ok_def sessions_ok_def)
  then have "owner c (pi_src info) = Some i" using exact_covers [OF _ a(2,3)] by simp
  then show ?thesis using adm out by (auto simp: admissible_def leaves_def split: forwarded.splits)
qed

end

section \<open>Properties\<close>





text \<open>
  C4: teardown is complete. In every reachable state, whatever is not the session of an open
  tunnel has no lease, no route, no session record, no snapshot of addresses, and no sink, policy,
  limiter, MTU or notification in the engine.
\<close>

theorem no_residue:
  assumes "ipnet api" "v4_valid (cfg_ipv4_pool config)" "pred_option v6_valid (cfg_ipv6_pool config)"
    "proxy_reach api config w" "w_tunnels w i = None"
  shows "ap_allocated (px_pool (w_ctx w)) a \<noteq> Some i \<and>
    lookup api (fe_route_table (px_engine (w_ctx w))) a proto \<noteq> Some i \<and>
    sm_sessions (px_sessions (w_ctx w)) i = None \<and> assigned_snapshot (px_sessions (w_ctx w)) i = None \<and>
    fe_session_sinks (px_engine (w_ctx w)) i = None \<and> fe_policies (px_engine (w_ctx w)) i = None \<and>
    fe_limiters (px_engine (w_ctx w)) i = None \<and> fe_session_mtus (px_engine (w_ctx w)) i = None \<and>
    i \<notin> fe_session_notify (px_engine (w_ctx w))"
proof -
  from ipnet.proxy_reach_ok [OF assms(1,4,2,3)]
  have c: "ctx_ok api (dom (w_tunnels w)) (w_ctx w)" by (simp add: world_ok_def)
  have i: "i \<notin> dom (w_tunnels w)" using assms(5) by auto
  have "lookup api (route_tab (w_ctx w)) a proto \<noteq> Some i" using ipnet.routed_open [OF assms(1) c] i by blast
  moreover have "owner (w_ctx w) a \<noteq> Some i" using c i by (auto simp: ctx_ok_def ran_def)
  moreover have "i \<notin> dom (sm_sessions (px_sessions (w_ctx w)))" "i \<notin> dom (sm_assigned (px_sessions (w_ctx w)))"
    using c i unfolding ctx_ok_def sessions_ok_def by metis+
  moreover have "i \<notin> dom (fe_session_sinks (px_engine (w_ctx w)))" "i \<notin> dom (fe_policies (px_engine (w_ctx w)))"
      "i \<notin> dom (fe_limiters (px_engine (w_ctx w)))" "i \<notin> dom (fe_session_mtus (px_engine (w_ctx w)))"
      "i \<notin> fe_session_notify (px_engine (w_ctx w))"
    using c i unfolding ctx_ok_def engine_ok_def by (blast dest: subsetD)+
  ultimately show ?thesis by (simp add: assigned_snapshot_def domIff)
qed

theorem no_residue_witness:
  "\<exists>w. proxy_reach ref_ipnet run_config w \<and> w_tunnels w 0 = None \<and>
     ap_allocated (px_pool (w_ctx w)) (V4 0xC0000202) \<noteq> Some 0 \<and> sm_sessions (px_sessions (w_ctx w)) 0 = None"
proof -
  obtain w where w: "proxy_reach ref_ipnet run_config w" "w_tunnels w 0 = None" using run_closed by (meson reach_step)
  then show ?thesis using no_residue [OF ref.ipnet_axioms run_valid w] by blast
qed

end
