(* ===== verification/Bind_Handler.thy ===== *)
theory Bind_Handler
  imports Proxy_Context
begin

text \<open>
  The handler of a CONNECT-UDP bind request, \<open>src/src/udp_bind/handler.rs\<close>: validation,
  authentication, allocation and binding of a public address, the session with its compression
  contexts, and the teardown. Whether the operating system binds a port is the parameter \<open>os\<close>,
  asked with the number of attempts left. The queue to the socket is named by a number.
\<close>

section \<open>Definitions\<close>

definition CONNECT_UDP_PROTOCOL :: string where
  "CONNECT_UDP_PROTOCOL = ''connect-udp''"

definition UDP_PATH_PREFIX :: string where
  "UDP_PATH_PREFIX = ''/.well-known/masque/udp/''"

definition BIND_ATTEMPTS :: nat where
  "BIND_ATTEMPTS = 16"

definition bind_validate_request :: "request \<Rightarrow> (proxy_error, unit) res" where
  "bind_validate_request req =
     (if rq_method req \<noteq> ''CONNECT'' then
        Err (InvalidRequest (''expected CONNECT, got '' @ rq_method req))
      else
        and_then (ok_or (InvalidRequest '':protocol missing'') (rq_protocol req)) (\<lambda>protocol.
        if protocol \<noteq> CONNECT_UDP_PROTOCOL then
          Err (InvalidRequest (''unsupported :protocol '' @ protocol))
        else if \<not> header_is req ''connect-udp-bind'' ''?1'' then
          Err (InvalidRequest ''connect-udp-bind: ?1 header required'')
        else if \<not> header_is req ''capsule-protocol'' ''?1'' then
          Err (InvalidRequest ''capsule-protocol: ?1 header required'')
        else if \<not> starts_with UDP_PATH_PREFIX (rq_path req) then
          Err (InvalidRequest (''path must start with '' @ UDP_PATH_PREFIX))
        else Ok ()))"

text \<open>
  The loop labelled \<open>'bind\<close>: allocate a pair and bind it; a pair whose bind fails is released and
  the next is tried. It ends with the pair and the socket, with no free pair, or with no attempt
  left.
\<close>

datatype bound = Bound sock_addr bind_socket | NoFreeAddress | NotBound

fun bind_loop ::
    "(nat \<Rightarrow> sock_addr \<Rightarrow> (string, sock_addr) res) \<Rightarrow> destination_policy \<Rightarrow> session_limiter \<Rightarrow> nat \<Rightarrow>
     port_allocator \<Rightarrow> bound \<times> port_allocator" where
  "bind_loop os policy limiter 0 allocator = (NotBound, allocator)"
| "bind_loop os policy limiter (Suc n) allocator = (case pa_allocate allocator of
      (None, allocator) \<Rightarrow> (NoFreeAddress, allocator)
    | (Some addr, allocator) \<Rightarrow> (case bs_bind addr (os n addr) ct_new policy limiter of
          Ok b \<Rightarrow> (Bound addr b, allocator)
        | _ \<Rightarrow> bind_loop os policy limiter n (pa_release addr allocator)))"

definition set_allocator :: "port_allocator \<Rightarrow> unit handler" where
  "set_allocator a = on_ctx (px_udp_bind_update (ub_allocator_update (\<lambda>_. Some a)))"

text \<open>Steps 1 to 3: the request is checked and a socket is bound for it.\<close>

definition bind_admit ::
    "auth_api \<Rightarrow> (nat \<Rightarrow> sock_addr \<Rightarrow> (string, sock_addr) res) \<Rightarrow> instant \<Rightarrow> request \<Rightarrow> bytes option \<Rightarrow>
     (sock_addr \<times> bind_socket) handler" where
  "bind_admit crypto os now req peer_cert =
     rbind (attempt (rlift (bind_validate_request req))) (\<lambda>v. case v of
       Panic \<Rightarrow> rlift Panic
     | Err e \<Rightarrow> refuse 400 e
     | Ok _ \<Rightarrow>
         rbind (peek (\<lambda>t. px_udp_bind (tk_ctx t))) (\<lambda>u.
         if \<not> ub_is_enabled u then refuse 501 (PConfig ''udp_bind is not enabled'')
         else
           rbind (peek (\<lambda>t. authenticate crypto (px_auth (tk_ctx t)) (rq_headers req) peer_cert)) (\<lambda>auth. case auth of
             Panic \<Rightarrow> rlift Panic
           | Err e \<Rightarrow> rbind (count_metric auth_failures_total_update) (\<lambda>_. refuse 401 e)
           | Ok _ \<Rightarrow> (case ub_allocator u of
               None \<Rightarrow> rlift Panic
             | Some allocator \<Rightarrow> (case bind_loop os (ub_policy u) (sl_new (ub_egress_limits u) now) BIND_ATTEMPTS allocator of
                   (Bound addr b, allocator) \<Rightarrow> rbind (set_allocator allocator) (\<lambda>_. rret (addr, b))
                 | (NoFreeAddress, allocator) \<Rightarrow>
                     rbind (set_allocator allocator) (\<lambda>_. refuse 503 (PConfig ''no free bind address''))
                 | (NotBound, allocator) \<Rightarrow>
                     rbind (set_allocator allocator) (\<lambda>_. refuse 503 (PConfig ''could not bind any allocated port'')))))))"

text \<open>Steps 4 and 5: the answer, the report of the peer's address, and the registration.\<close>

definition bind_accept :: "sock_addr \<Rightarrow> session_id \<Rightarrow> nat \<Rightarrow> bind_socket \<Rightarrow> unit handler" where
  "bind_accept remote i sink b =
     rbind (on_stream (send_frame (Response 200 [(''capsule-protocol'', ''?1''), (''connect-udp-bind'', ''?1''),
        (''proxy-public-address'', CHR 0x22 # show_socket_addr (bs_public_addr b) @ [CHR 0x22])]))) (\<lambda>_.
     rbind (rlift (map_err PDecode (encode_observed_address remote))) (\<lambda>buf.
     rbind (on_stream (send_frame (Data buf))) (\<lambda>_.
     rbind (on_ctx (px_udp_bind_update (ub_register i sink))) (\<lambda>_.
     count_metric sessions_total_update))))"

section \<open>The session\<close>

text \<open>The running session: its stream, its socket with the contexts, and the datagrams sent to the peer.\<close>

record bind_session =
  bx_stream :: req_stream
  bx_socket :: bind_socket
  bx_datagrams :: "bytes list"

type_synonym 'a bind_action = "(bind_session, proxy_error, 'a) action"

definition on_bind_stream :: "(req_stream, proxy_error, 'a) action \<Rightarrow> 'a bind_action" where
  "on_bind_stream m t = (case m (bx_stream t) of (r, s) \<Rightarrow> (r, t\<lparr>bx_stream := s\<rparr>))"

definition on_contexts :: "(context_table \<Rightarrow> 'a \<times> context_table) \<Rightarrow> 'a bind_action" where
  "on_contexts f t = (case f (bs_contexts (bx_socket t)) of (x, table) \<Rightarrow>
     (Ok x, t\<lparr>bx_socket := (bx_socket t)\<lparr>bs_contexts := table\<rparr>\<rparr>))"

text \<open>\<open>table.register(assign).and_then(|()| table.ack(context_id))\<close> on the shared table.\<close>

definition register_ack :: "compression_assign \<Rightarrow> context_table \<Rightarrow> (context_error, unit) res \<times> context_table" where
  "register_ack assign t = (case ct_register assign t of
      Ok t1 \<Rightarrow> (case ct_ack (ca_context_id assign) t1 of
          Ok t2 \<Rightarrow> (Ok (), t2) | Err e \<Rightarrow> (Err e, t1) | Panic \<Rightarrow> (Panic, t1))
    | Err e \<Rightarrow> (Err e, t)
    | Panic \<Rightarrow> (Panic, t))"

definition handle_context_capsule :: "u64 \<Rightarrow> bytes \<Rightarrow> unit bind_action" where
  "handle_context_capsule type_id data =
     (if type_id = CAPSULE_COMPRESSION_ASSIGN then
        rbind (rlift (map_err PDecode (ca_decode data))) (\<lambda>assign.
        rbind (on_contexts (register_ack assign)) (\<lambda>outcome. case outcome of
          Ok _ \<Rightarrow>
            rbind (rlift (map_err PDecode (encode_context_capsule CAPSULE_COMPRESSION_ACK (ca_context_id assign)))) (\<lambda>buf.
            on_bind_stream (send_frame (Data buf)))
        | Err _ \<Rightarrow> rret ()
        | Panic \<Rightarrow> rlift Panic))
      else if type_id = CAPSULE_COMPRESSION_CLOSE then
        rbind (rlift (map_err PDecode (decode_context_capsule data))) (\<lambda>context_id.
        on_contexts (\<lambda>t. ((), ct_close context_id t)))
      else rret ())"

definition bind_capsule :: "capsule \<Rightarrow> unit bind_action" where
  "bind_capsule c = (case c of CapUnknown type_id data \<Rightarrow> handle_context_capsule type_id data | _ \<Rightarrow> rret ())"

text \<open>
  What happens to a running session: data on its stream, its end or failure, a datagram from the
  peer for the network, a packet from the network for the peer (with the iteration order of the
  table, whether the queues have room, and whether the connection takes the datagram).
\<close>

datatype bind_event =
    StreamData "bytes list"
  | StreamFin
  | StreamError string
  | FromPeer instant bool bytes
  | FromNetwork binding_iter bool bool sock_addr bytes

text \<open>The task that carries bodies from the socket to the peer, \<open>egress\<close>.\<close>

definition egress_wire :: "u64 \<Rightarrow> bytes \<Rightarrow> (decode_error, bytes) res" where
  "egress_wire qsid body = and_then (unwrap (write_varint qsid)) (\<lambda>q. Ok (q @ body))"

definition egress :: "u64 \<Rightarrow> bool \<Rightarrow> unit bind_action" where
  "egress qsid send_ok = (\<lambda>t. case bs_to_peer (bx_socket t) of
      [] \<Rightarrow> (Ok (), t)
    | body # rest \<Rightarrow> (case egress_wire qsid body of
          Ok wire \<Rightarrow> (Ok (), t\<lparr>bx_socket := (bx_socket t)\<lparr>bs_to_peer := rest\<rparr>,
             bx_datagrams := bx_datagrams t @ (if send_ok then [wire] else [])\<rparr>)
        | Err e \<Rightarrow> (Err (PDecode e), t)
        | Panic \<Rightarrow> (Panic, t)))"

definition on_socket :: "(bind_socket \<Rightarrow> (unit, bind_socket) res) \<Rightarrow> unit bind_action" where
  "on_socket f t = (case f (bx_socket t) of
      Ok b \<Rightarrow> (Ok (), t\<lparr>bx_socket := b\<rparr>) | _ \<Rightarrow> (Panic, t))"

definition bind_turn ::
    "ipnet_api \<Rightarrow> u64 \<Rightarrow> bind_event \<Rightarrow> capsule_buffer \<Rightarrow> capsule_buffer option bind_action" where
  "bind_turn api qsid ev buffer = (case ev of
      StreamData chunk \<Rightarrow> rbind (process_capsules bind_capsule (cb_push chunk buffer)) (\<lambda>buffer. rret (Some buffer))
    | StreamFin \<Rightarrow> rret None
    | StreamError e \<Rightarrow> rfail (of_h3_error e)
    | FromPeer now send_ok body \<Rightarrow> rbind (on_socket (outbound_step api now send_ok body)) (\<lambda>_. rret (Some buffer))
    | FromNetwork iter queue_ok send_ok remote packet \<Rightarrow>
        rbind (on_socket (inbound_step iter queue_ok remote packet)) (\<lambda>_.
        rbind (egress qsid send_ok) (\<lambda>_. rret (Some buffer))))"

text \<open>\<open>run_capsules\<close>, with the other two tasks of the session in between.\<close>

fun run_capsules ::
    "ipnet_api \<Rightarrow> u64 \<Rightarrow> bind_event list \<Rightarrow> capsule_buffer \<Rightarrow> capsule_buffer option bind_action" where
  "run_capsules api qsid [] buffer = rret (Some buffer)"
| "run_capsules api qsid (ev # evs) buffer =
     rbind (bind_turn api qsid ev buffer) (\<lambda>next. case next of
       None \<Rightarrow> rret None | Some buffer \<Rightarrow> run_capsules api qsid evs buffer)"

section \<open>The handler\<close>

definition bind_teardown :: "session_id \<Rightarrow> sock_addr \<Rightarrow> proxy_ctx \<Rightarrow> proxy_ctx" where
  "bind_teardown i addr =
     px_udp_bind_update (\<lambda>u. ub_allocator_update (map_option (pa_release addr)) (ub_unregister i u))"

text \<open>
  The whole handler. The result is the session, and whether it is still running after the given
  events.
\<close>

definition handle_connect_udp_bind_stream ::
    "ipnet_api \<Rightarrow> auth_api \<Rightarrow> (nat \<Rightarrow> sock_addr \<Rightarrow> (string, sock_addr) res) \<Rightarrow> instant \<Rightarrow> sock_addr \<Rightarrow> nat \<Rightarrow>
     u64 \<Rightarrow> request \<Rightarrow> bytes option \<Rightarrow> bind_event list \<Rightarrow> (bind_session \<times> capsule_buffer option) handler" where
  "handle_connect_udp_bind_stream api crypto os now remote sink conn_seq req peer_cert evs t =
     (let i = compose conn_seq (st_id (tk_stream t)); qsid = quarter_stream_id (st_id (tk_stream t)) in
      rbind (bind_admit crypto os now req peer_cert) (\<lambda>(addr, b).
      rbind (bind_accept remote i sink b) (\<lambda>_.
      rbind (peek tk_stream) (\<lambda>stream.
      case run_capsules api qsid evs cb_new \<lparr>bx_stream = stream, bx_socket = b, bx_datagrams = []\<rparr> of
        (Ok (Some buffer), s) \<Rightarrow> rret (s, Some buffer)
      | (Ok None, s) \<Rightarrow> rbind (on_ctx (bind_teardown i addr)) (\<lambda>_. rret (s, None))
      | (Err e, s) \<Rightarrow> rbind (on_ctx (bind_teardown i addr)) (\<lambda>_. rfail e)
      | (Panic, s) \<Rightarrow> rlift Panic))) t)"

end
