(* ===== verification/Bind_Safe.thy ===== *)
theory Bind_Safe
  imports Bind_Handler
begin

text \<open>
  What the CONNECT-UDP bind relay promises: who is served, which public pairs are held when the
  handler returns, and where the packets of a session go.
\<close>

section \<open>Admission\<close>

lemma pa_release_spec: "pa_inv a \<Longrightarrow> pa_inv (pa_release addr a) \<and> tuples (pa_release addr a) = tuples a"
  by (auto simp: pa_release_def pa_inv_def tuples_def)

lemma bind_loop_spec:
  assumes "bind_loop os policy limiter n a = (r, a')" "pa_inv a"
  shows "pa_inv a' \<and> tuples a' = tuples a \<and> (case r of
      Bound addr b \<Rightarrow> addr \<in> tuples a - pa_in_use a \<and> pa_in_use a' = insert addr (pa_in_use a) \<and>
        bs_contexts b = ct_new \<and> bs_policy b = policy \<and> bs_limiter b = limiter \<and> bs_to_net b = [] \<and> bs_to_peer b = []
    | _ \<Rightarrow> pa_in_use a' = pa_in_use a)"
  using assms
proof (induction n arbitrary: a)
  case (Suc n)
  obtain o' a1 where al: "pa_allocate a = (o', a1)" by fastforce
  note spec = pa_allocate_spec [OF Suc.prems(2) al]
  show ?case
  proof (cases o')
    case None
    then show ?thesis using Suc.prems al spec by auto
  next
    case (Some addr)
    show ?thesis
    proof (cases "bs_bind addr (os n addr) ct_new policy limiter")
      case (Ok b)
      then have "bs_contexts b = ct_new" "bs_policy b = policy" "bs_limiter b = limiter" "bs_to_net b = []" "bs_to_peer b = []"
        by (auto simp: bs_bind_def and_then_eq_Ok)
      then show ?thesis using Suc.prems al spec Some Ok by auto
    next
      case (Err e)
      then have "bind_loop os policy limiter n (pa_release addr a1) = (r, a')" using Suc.prems al Some by simp
      from Suc.IH [OF this] spec Some pa_release_spec [of a1 addr]
      show ?thesis by (auto simp: pa_release_def split: bound.splits)
    next
      case Panic
      then have "bind_loop os policy limiter n (pa_release addr a1) = (r, a')" using Suc.prems al Some by simp
      from Suc.IH [OF this] spec Some pa_release_spec [of a1 addr]
      show ?thesis by (auto simp: pa_release_def split: bound.splits)
    qed
  qed
qed simp

lemma bind_validate_no_panic: "bind_validate_request req \<noteq> Panic"
  by (simp add: bind_validate_request_def ok_or_def split: option.split)

lemma bind_admit_run:
  assumes "bind_admit crypto os now req cert t = (r, t')" "ub_allocator (px_udp_bind (tk_ctx t)) = Some a" "pa_inv a"
  shows "\<exists>a'. pa_inv a' \<and> tuples a' = tuples a \<and>
    px_udp_bind (tk_ctx t') = (px_udp_bind (tk_ctx t))\<lparr>ub_allocator := Some a'\<rparr> \<and>
    (case r of
       Ok (addr, b) \<Rightarrow> bind_validate_request req = Ok () \<and>
         (\<exists>ac. authenticate crypto (px_auth (tk_ctx t)) (rq_headers req) cert = Ok ac) \<and>
         addr \<in> tuples a - pa_in_use a \<and> pa_in_use a' = insert addr (pa_in_use a) \<and>
         bs_contexts b = ct_new \<and> bs_policy b = ub_policy (px_udp_bind (tk_ctx t)) \<and>
         bs_limiter b = sl_new (ub_egress_limits (px_udp_bind (tk_ctx t))) now \<and> bs_to_net b = [] \<and> bs_to_peer b = [] \<and>
         tk_stream t' = tk_stream t
     | Err _ \<Rightarrow> pa_in_use a' = pa_in_use a
     | Panic \<Rightarrow> False)"
proof -
  let ?u = "px_udp_bind (tk_ctx t)"
  have u: "?u\<lparr>ub_allocator := Some a\<rparr> = ?u" using assms(2) by simp
  have refused: ?thesis if "refuse status e t0 = (r, t')" "px_udp_bind (tk_ctx t0) = ?u\<lparr>ub_allocator := Some a0\<rparr>"
    "pa_inv a0" "tuples a0 = tuples a" "pa_in_use a0 = pa_in_use a" for status e t0 a0
    using that refuse_run [OF that(1)] by auto
  show ?thesis
  proof (cases "bind_validate_request req")
    case (Ok _)
    note valid = Ok
    show ?thesis
    proof (cases "authenticate crypto (px_auth (tk_ctx t)) (rq_headers req) cert")
      case (Ok ac)
      obtain res a' where loop: "bind_loop os (ub_policy ?u) (sl_new (ub_egress_limits ?u) now) BIND_ATTEMPTS a = (res, a')"
        by fastforce
      note spec = bind_loop_spec [OF loop assms(3)]
      let ?t = "tk_ctx_update (px_udp_bind_update (ub_allocator_update (\<lambda>_. Some a'))) t"
      have run: "(case res of Bound addr b \<Rightarrow> rret (addr, b)
          | NoFreeAddress \<Rightarrow> refuse 503 (PConfig ''no free bind address'')
          | NotBound \<Rightarrow> refuse 503 (PConfig ''could not bind any allocated port'')) ?t = (r, t')"
        using assms(1,2) valid Ok loop
        by (cases res) (simp_all add: bind_admit_def attempt_def rlift_def rbind_basic ub_is_enabled_def set_allocator_def
          on_ctx_def rbind_def peek_def upd_def)
      have t: "px_udp_bind (tk_ctx ?t) = ?u\<lparr>ub_allocator := Some a'\<rparr>" by (cases ?u) simp
      show ?thesis
      proof (cases res)
        case (Bound addr b)
        then have "r = Ok (addr, b)" "t' = ?t" using run by (simp_all add: rret_def)
        then show ?thesis using spec Bound t valid Ok by auto
      next
        case NoFreeAddress
        then show ?thesis using spec run by (intro refused [OF _ t]) auto
      next
        case NotBound
        then show ?thesis using spec run by (intro refused [OF _ t]) auto
      qed
    next
      case (Err e)
      let ?t = "tk_ctx_update (px_engine_update (fe_metrics_update (metric_incr auth_failures_total_update))) t"
      have "refuse 401 e ?t = (r, t')" using assms(1,2) valid Err
        by (simp add: bind_admit_def attempt_def rlift_def rbind_def peek_def upd_def ub_is_enabled_def
          count_metric_def on_engine_def on_ctx_def)
      from refused [OF this, of a] show ?thesis using assms(3) u by simp
    next
      case Panic
      then show ?thesis using authenticate_spec [of crypto "px_auth (tk_ctx t)" "rq_headers req" cert] by simp
    qed
  next
    case (Err e)
    then have "refuse 400 e t = (r, t')" using assms(1) by (simp add: bind_admit_def attempt_def rlift_def rbind_def)
    from refused [OF this, of a] show ?thesis using assms(3) u by simp
  qed (use bind_validate_no_panic in simp)
qed

section \<open>The session\<close>

text \<open>An action that keeps a property of the session and does not panic.\<close>

definition maintains :: "(bind_session \<Rightarrow> bool) \<Rightarrow> 'a bind_action \<Rightarrow> bool" where
  "maintains P m \<longleftrightarrow> (\<forall>s. P s \<longrightarrow> fst (m s) \<noteq> Panic \<and> P (snd (m s)))"

lemma maintains_rbind:
  assumes "maintains P m" "\<And>s x s'. P s \<Longrightarrow> m s = (Ok x, s') \<Longrightarrow> maintains P (f x)"
  shows "maintains P (rbind m f)"
  unfolding maintains_def
proof (intro allI impI)
  fix s
  assume s: "P s"
  obtain r s1 where m: "m s = (r, s1)" by (cases "m s")
  then have "r \<noteq> Panic" "P s1" using assms(1) [unfolded maintains_def, rule_format, OF s] by simp_all
  then show "fst (rbind m f s) \<noteq> Panic \<and> P (snd (rbind m f s))"
  proof (cases r)
    case (Ok x)
    then have "rbind m f s = f x s1" using m by (simp add: rbind_def)
    then show ?thesis using assms(2) [OF s m [unfolded Ok], unfolded maintains_def] \<open>P s1\<close> by simp
  qed (use m in \<open>simp_all add: rbind_def\<close>)
qed

lemma maintains_pure [simp]:
  "maintains P (rret x)" "maintains P (rfail e)" "maintains P (rlift r) \<longleftrightarrow> (\<forall>s. \<not> P s) \<or> r \<noteq> Panic"
  by (auto simp: maintains_def rret_def rfail_def rlift_def)

lemma maintains_lift:
  "r \<noteq> Panic \<Longrightarrow> (\<And>x. r = Ok x \<Longrightarrow> maintains P (f x)) \<Longrightarrow> maintains P (rbind (rlift (map_err g r)) f)"
  by (cases r) (simp_all add: maintains_def rbind_basic)

lemma maintains_each: "(\<And>x. x \<in> set xs \<Longrightarrow> maintains P (h x)) \<Longrightarrow> maintains P (each h xs)"
  by (induction xs) (simp_all add: maintains_rbind)

lemma maintains_process:
  assumes "\<And>c. maintains P (h c)"
  shows "maintains P (process_capsules h b)"
proof -
  obtain cs r b' where d: "drain b = (cs, r, b')" by (cases "drain b")
  have "r \<noteq> Panic" using drain_end [OF d] by auto
  then have "maintains P (rbind (each h cs) (\<lambda>_. rlift (and_then (map_err PDecode r) (\<lambda>_. Ok b'))))"
    using assms by (intro maintains_rbind maintains_each) (cases r; simp)+
  then show ?thesis by (simp add: process_capsules_drain d)
qed

lemma maintains_stream:
  assumes "\<And>s st. P s \<Longrightarrow> P (s\<lparr>bx_stream := st\<rparr>)"
  shows "maintains P (on_bind_stream (send_frame f))"
  using assms no_panicD [OF send_frame_no_panic]
  by (auto simp: maintains_def on_bind_stream_def split: prod.split)

text \<open>Decoding and answering the context capsules cannot panic.\<close>

lemma no_trailing_no_panic: "fst r \<noteq> Panic \<Longrightarrow> no_trailing r \<noteq> Panic"
  by (cases "fst r") (simp_all add: no_trailing_def)

lemma ca_decode_no_panic: "ca_decode body \<noteq> Panic"
proof -
  have "no_panic (rbind read_varint (\<lambda>context_id. rbind ctx_get_u8 (\<lambda>v.
     rbind (if v = 0 then rret Uncompressed else rbind (get_addr v) (\<lambda>a. rret (Compressed a))) (\<lambda>b.
       rret \<lparr>ca_context_id = context_id, ca_binding = b\<rparr>))))"
    by (intro no_panic_rbind no_panic_if no_panic_rret no_panic_get_addr no_panic_ctx_get_u8 no_panic_read_varint)
  then show ?thesis unfolding ca_decode_def by (intro no_trailing_no_panic) (simp add: no_panic_def)
qed

lemma decode_context_no_panic: "decode_context_capsule body \<noteq> Panic"
  unfolding decode_context_capsule_def using no_panic_read_varint by (intro no_trailing_no_panic) (simp add: no_panic_def)

lemma encode_context_no_panic:
  assumes "context_id \<le> VARINT_MAX"
  shows "encode_context_capsule CAPSULE_COMPRESSION_ACK context_id \<noteq> Panic"
proof -
  obtain l where l: "varint_len context_id = Ok l" "l \<le> 8"
    using write_varint_Ok [OF assms] varint_len_bound by blast
  obtain id where "write_varint context_id = Ok id" using write_varint_Ok [OF assms] by blast
  moreover have "word_of_nat l \<le> VARINT_MAX" using l(2) by (simp add: VARINT_MAX_def word_le_nat_alt unat_word_of_nat)
  then obtain n where "write_varint (word_of_nat l) = Ok n" using write_varint_Ok by blast
  moreover obtain t where "write_varint CAPSULE_COMPRESSION_ACK = Ok t"
    using write_varint_Ok [of CAPSULE_COMPRESSION_ACK] by (auto simp: CAPSULE_COMPRESSION_ACK_def VARINT_MAX_def)
  ultimately show ?thesis using l(1) by (simp add: encode_context_capsule_def)
qed

text \<open>
  Where packets go: the table is sound, everything sent was allowed and carries the stream's id,
  and \<open>Q\<close> holds of the limiter and what was sent to the network.
\<close>

definition relay_ok ::
    "ipnet_api \<Rightarrow> u64 \<Rightarrow> destination_policy \<Rightarrow> (session_limiter \<Rightarrow> (sock_addr \<times> bytes) list \<Rightarrow> bool) \<Rightarrow>
     bind_session \<Rightarrow> bool" where
  "relay_ok api qsid policy Q s \<longleftrightarrow> Q (bs_limiter (bx_socket s)) (bs_to_net (bx_socket s)) \<and> bs_policy (bx_socket s) = policy \<and> ct_inv (bs_contexts (bx_socket s)) \<and>
     list_all (\<lambda>(dst, _). dp_allows api policy dst) (bs_to_net (bx_socket s)) \<and>
     list_all (\<lambda>w. \<exists>body. read_varint w = (Ok qsid, body)) (bx_datagrams s)"

lemma register_ack_inv:
  assumes "ct_inv t" "ca_context_id assign \<le> VARINT_MAX" "register_ack assign t = (r, t')"
  shows "ct_inv t'" "r \<noteq> Panic"
  using assms ct_inv_register [OF assms(1,2)]
  by (auto simp: register_ack_def intro: ct_inv_ack split: res.splits)
     (auto simp: ct_register_def ct_ack_def split: if_splits option.splits)

lemma context_capsule_ok: "maintains (relay_ok api qsid policy Q) (handle_context_capsule type_id data)"
proof -
  have assign: "maintains (relay_ok api qsid policy Q)
      (rbind (on_contexts (register_ack a)) (\<lambda>outcome. case outcome of
          Ok _ \<Rightarrow>
            rbind (rlift (map_err PDecode (encode_context_capsule CAPSULE_COMPRESSION_ACK (ca_context_id a)))) (\<lambda>buf.
            on_bind_stream (send_frame (Data buf)))
        | Err _ \<Rightarrow> rret ()
        | Panic \<Rightarrow> rlift Panic))"
    if a: "ca_context_id a \<le> VARINT_MAX" for a
  proof (rule maintains_rbind)
    show "maintains (relay_ok api qsid policy Q) (on_contexts (register_ack a))"
      using register_ack_inv(1) [OF _ a] by (fastforce simp: maintains_def on_contexts_def relay_ok_def split: prod.split)
    fix s outcome s'
    assume "relay_ok api qsid policy Q s" "on_contexts (register_ack a) s = (Ok outcome, s')"
    then have "outcome \<noteq> Panic"
      using register_ack_inv(2) [OF _ a] by (auto simp: on_contexts_def relay_ok_def split: prod.splits)
    then show "maintains (relay_ok api qsid policy Q) (case outcome of
          Ok _ \<Rightarrow>
            rbind (rlift (map_err PDecode (encode_context_capsule CAPSULE_COMPRESSION_ACK (ca_context_id a)))) (\<lambda>buf.
            on_bind_stream (send_frame (Data buf)))
        | Err _ \<Rightarrow> rret ()
        | Panic \<Rightarrow> rlift Panic)"
      using encode_context_no_panic [OF a]
      by (cases outcome) (auto intro!: maintains_lift maintains_stream simp: relay_ok_def)
  qed
  have "maintains (relay_ok api qsid policy Q) (on_contexts (\<lambda>t. ((), ct_close i t)))" for i
    by (simp add: maintains_def on_contexts_def relay_ok_def ct_inv_close)
  then show ?thesis
    using assign [OF ca_decode_bound] unfolding handle_context_capsule_def
    by (simp add: maintains_lift ca_decode_no_panic decode_context_no_panic)
qed

lemma bind_capsule_ok: "maintains (relay_ok api qsid policy Q) (bind_capsule c)"
  by (cases c) (simp_all add: bind_capsule_def context_capsule_ok)

lemma outbound_ok:
  "\<exists>b'. outbound_step api now send_ok body b = Ok b' \<and> bs_policy b' = bs_policy b \<and> bs_contexts b' = bs_contexts b \<and>
    (bs_to_net b' = bs_to_net b \<and> bs_limiter b' = bs_limiter b \<or>
     (\<exists>dg ok. decode_datagram (bs_contexts b) body = Ok dg \<and> dp_allows api (bs_policy b) (bd_remote dg) \<and>
       try_consume_at (word_of_nat (length (bd_payload dg))) now (bs_limiter b) = (ok, bs_limiter b') \<and>
       (bs_to_net b' = bs_to_net b \<or> ok \<and> bs_to_net b' = bs_to_net b @ [(bd_remote dg, bd_payload dg)])))"
  using decode_datagram_no_panic [of "bs_contexts b" body]
  by (auto simp: outbound_step_def Let_def split: res.splits prod.splits if_splits)

lemma inbound_maintains:
  assumes "hash_iter iter"
  shows "maintains (relay_ok api qsid policy Q) (on_socket (inbound_step iter queue_ok remote packet))"
  unfolding maintains_def
proof (intro allI impI)
  fix s
  assume s: "relay_ok api qsid policy Q s"
  obtain w where "encapsulate iter (bs_contexts (bx_socket s)) remote (take MAX_UDP_PAYLOAD packet) = Ok w"
    using encapsulate_spec [OF assms, of "bs_contexts (bx_socket s)" remote "take MAX_UDP_PAYLOAD packet"] s
    by (auto simp: relay_ok_def split: if_splits)
  then show "fst (on_socket (inbound_step iter queue_ok remote packet) s) \<noteq> Panic \<and>
      relay_ok api qsid policy Q (snd (on_socket (inbound_step iter queue_ok remote packet) s))"
    using s by (cases w) (simp_all add: on_socket_def inbound_step_def relay_ok_def)
qed

lemma egress_maintains:
  assumes "qsid \<le> VARINT_MAX"
  shows "maintains (relay_ok api qsid policy Q) (egress qsid send_ok)"
proof -
  obtain q where "write_varint qsid = Ok q" "\<forall>rest. read_varint (q @ rest) = (Ok qsid, rest)"
    using write_varint_Ok [OF assms] by blast
  then show ?thesis by (auto simp: maintains_def egress_def egress_wire_def relay_ok_def split: list.split)
qed

fun event_ok :: "bind_event \<Rightarrow> bool" where
  "event_ok (FromNetwork iter _ _ _ _) \<longleftrightarrow> hash_iter iter"
| "event_ok (FromPeer _ _ body) \<longleftrightarrow> length body < 2 ^ 64"
| "event_ok _ \<longleftrightarrow> True"

lemma other_turn_ok:
  assumes "event_ok ev" "qsid \<le> VARINT_MAX" "\<forall>now send_ok body. ev \<noteq> FromPeer now send_ok body"
  shows "maintains (relay_ok api qsid policy Q) (bind_turn api qsid ev buffer)"
  using assms
  by (cases ev) (auto simp: bind_turn_def intro!: maintains_rbind maintains_process bind_capsule_ok
    inbound_maintains egress_maintains)

text \<open>What a session has sent is bounded by what its limiter admitted, up to the time \<open>t\<close>.\<close>

definition spent :: "session_limiter \<Rightarrow> instant \<Rightarrow> instant \<Rightarrow> session_limiter \<Rightarrow> (sock_addr \<times> bytes) list \<Rightarrow> bool" where
  "spent l0 t0 t l sent \<longleftrightarrow> (\<exists>calls bs. admitted calls l0 = (bs, l) \<and> sorted (t0 # List.map snd calls) \<and>
     last (t0 # List.map snd calls) \<le> t \<and> length sent \<le> length bs \<and>
     sum_list (List.map (length \<circ> snd) sent) \<le> sum_list (List.map unat bs))"

lemma sorted_le_last: "sorted xs \<Longrightarrow> x \<in> set xs \<Longrightarrow> x \<le> last xs"
  by (induction xs) auto

lemma spent_later: "spent l0 t0 t l sent \<Longrightarrow> t \<le> t' \<Longrightarrow> spent l0 t0 t' l sent"
  unfolding spent_def by (blast intro: order_trans)

lemma admitted_snoc:
  "admitted (calls @ [(n, now)]) s = (let (bs, s1) = admitted calls s; (ok, s2) = try_consume_at n now s1
     in (if ok then bs @ [n] else bs, s2))"
  by (induction calls arbitrary: s) (auto simp: Let_def split: prod.splits)

lemma get_addr_shorter: "get_addr v s = (r, s') \<Longrightarrow> length s' \<le> length s"
  by (auto simp: get_addr_def ctx_get_slice_def rbind_def need_def copy_to_bytes_def rret_def rfail_def
    split: if_splits)

lemma ctx_get_u8_shorter: "ctx_get_u8 s = (r, s') \<Longrightarrow> length s' \<le> length s"
  by (auto simp: ctx_get_u8_def rbind_def need_def get_u8_def split: if_splits list.splits)

lemma decode_datagram_shorter: "decode_datagram t body = Ok dg \<Longrightarrow> length (bd_payload dg) \<le> length body"
proof -
  have addr: "length s' \<le> length s" if "rbind ctx_get_u8 get_addr s = (Ok x, s')" for s x s'
    using that by (auto simp: rbind_eq_Ok dest!: ctx_get_u8_shorter get_addr_shorter)
  show "decode_datagram t body = Ok dg \<Longrightarrow> ?thesis"
    by (auto simp: decode_datagram_def dest!: addr read_varint_shorter split: prod.splits res.splits option.splits binding.splits)
qed

text \<open>A datagram from the peer, at a later time.\<close>

lemma from_peer_ok:
  assumes "relay_ok api qsid policy (spent l0 t0 t) s" "t \<le> now" "length body < 2 ^ 64"
    "on_socket (outbound_step api now send_ok body) s = (r, s')"
  shows "r = Ok () \<and> relay_ok api qsid policy (spent l0 t0 now) s'"
proof -
  let ?b = "bx_socket s"
  from outbound_ok [of api now send_ok body ?b] obtain b' where
    b': "outbound_step api now send_ok body ?b = Ok b'" "bs_policy b' = bs_policy ?b" "bs_contexts b' = bs_contexts ?b"
    and net: "bs_to_net b' = bs_to_net ?b \<and> bs_limiter b' = bs_limiter ?b \<or>
     (\<exists>dg ok. decode_datagram (bs_contexts ?b) body = Ok dg \<and> dp_allows api (bs_policy ?b) (bd_remote dg) \<and>
       try_consume_at (word_of_nat (length (bd_payload dg))) now (bs_limiter ?b) = (ok, bs_limiter b') \<and>
       (bs_to_net b' = bs_to_net ?b \<or> ok \<and> bs_to_net b' = bs_to_net ?b @ [(bd_remote dg, bd_payload dg)]))"
    by (elim exE conjE)
  have s: "spent l0 t0 t (bs_limiter ?b) (bs_to_net ?b)" using assms(1) by (simp add: relay_ok_def)
  have "spent l0 t0 now (bs_limiter b') (bs_to_net b') \<and>
      list_all (\<lambda>(dst, _). dp_allows api policy dst) (bs_to_net b')"
    using net
  proof
    assume "bs_to_net b' = bs_to_net ?b \<and> bs_limiter b' = bs_limiter ?b"
    then show ?thesis using spent_later [OF s assms(2)] assms(1) by (simp add: relay_ok_def)
  next
    assume "\<exists>dg ok. decode_datagram (bs_contexts ?b) body = Ok dg \<and> dp_allows api (bs_policy ?b) (bd_remote dg) \<and>
       try_consume_at (word_of_nat (length (bd_payload dg))) now (bs_limiter ?b) = (ok, bs_limiter b') \<and>
       (bs_to_net b' = bs_to_net ?b \<or> ok \<and> bs_to_net b' = bs_to_net ?b @ [(bd_remote dg, bd_payload dg)])"
    then obtain dg ok where dg: "decode_datagram (bs_contexts ?b) body = Ok dg" "dp_allows api (bs_policy ?b) (bd_remote dg)"
       "try_consume_at (word_of_nat (length (bd_payload dg))) now (bs_limiter ?b) = (ok, bs_limiter b')"
       "bs_to_net b' = bs_to_net ?b \<or> ok \<and> bs_to_net b' = bs_to_net ?b @ [(bd_remote dg, bd_payload dg)]" by blast
    let ?n = "word_of_nat (length (bd_payload dg)) :: u64"
    have n: "unat ?n = length (bd_payload dg)"
      using decode_datagram_shorter [OF dg(1)] assms(3) by (simp add: unat_of_nat)
    from s obtain calls bs where c: "admitted calls l0 = (bs, bs_limiter ?b)" "sorted (t0 # List.map snd calls)"
      "last (t0 # List.map snd calls) \<le> t" "length (bs_to_net ?b) \<le> length bs"
      "sum_list (List.map (length \<circ> snd) (bs_to_net ?b)) \<le> sum_list (List.map unat bs)" unfolding spent_def by blast
    have "admitted (calls @ [(?n, now)]) l0 = (if ok then bs @ [?n] else bs, bs_limiter b')"
      using c(1) dg(3) by (simp add: admitted_snoc)
    moreover have "sorted (t0 # List.map snd (calls @ [(?n, now)]))"
    proof -
      have "x \<le> now" if "x \<in> set (t0 # List.map snd calls)" for x
        using sorted_le_last [OF c(2) that] c(3) assms(2) by linarith
      then show ?thesis using c(2) by (auto simp: sorted_append)
    qed
    moreover have "last (t0 # List.map snd (calls @ [(?n, now)])) \<le> now" by simp
    ultimately have "spent l0 t0 now (bs_limiter b') (bs_to_net b')"
      unfolding spent_def using c(4,5) dg(4) n
      by (intro exI [of _ "calls @ [(?n, now)]"] exI [of _ "if ok then bs @ [?n] else bs"]) (auto simp: n)
    then show ?thesis using dg(2,4) assms(1) by (auto simp: relay_ok_def)
  qed
  then show ?thesis using assms(1,4) b' by (auto simp: on_socket_def relay_ok_def)
qed

fun event_times :: "bind_event list \<Rightarrow> instant list" where
  "event_times [] = []"
| "event_times (FromPeer now _ _ # evs) = now # event_times evs"
| "event_times (_ # evs) = event_times evs"

lemma event_times_other:
  "\<forall>now send_ok body. ev \<noteq> FromPeer now send_ok body \<Longrightarrow> event_times (ev # evs) = event_times evs"
  by (cases ev) (simp_all, blast)

lemma run_capsules_ok:
  assumes "list_all event_ok evs" "qsid \<le> VARINT_MAX" "sorted (t # event_times evs)"
    "relay_ok api qsid policy (spent l0 t0 t) s" "run_capsules api qsid evs buffer s = (r, s')"
  shows "r \<noteq> Panic \<and> relay_ok api qsid policy (spent l0 t0 (last (t # event_times evs))) s'"
  using assms(1,3-)
proof (induction evs arbitrary: buffer s t)
  case Nil
  then show ?case by (auto simp: rret_def)
next
  case (Cons ev evs)
  obtain r1 s1 where turn: "bind_turn api qsid ev buffer s = (r1, s1)" by fastforce
  have "\<exists>t1. r1 \<noteq> Panic \<and> relay_ok api qsid policy (spent l0 t0 t1) s1 \<and> sorted (t1 # event_times evs) \<and>
      last (t1 # event_times evs) = last (t # event_times (ev # evs)) \<and> t1 \<le> last (t # event_times (ev # evs))"
  proof (cases "\<exists>now send_ok body. ev = FromPeer now send_ok body")
    case True
    then obtain now send_ok body where ev: "ev = FromPeer now send_ok body" by blast
    obtain r2 s2 where o: "on_socket (outbound_step api now send_ok body) s = (r2, s2)" by fastforce
    have "t \<le> now" "length body < 2 ^ 64" "sorted (now # event_times evs)" using Cons.prems(1,2) ev by simp_all
    from from_peer_ok [OF Cons.prems(3) this(1,2) o] this(3) turn o ev show ?thesis
      using sorted_le_last [of "now # event_times evs" now]
      by (intro exI [of _ now]) (auto simp: bind_turn_def rbind_def rret_def)
  next
    case False
    then have times: "event_times (ev # evs) = event_times evs" using event_times_other by blast
    have "maintains (relay_ok api qsid policy (spent l0 t0 t)) (bind_turn api qsid ev buffer)"
      using Cons.prems(1) assms(2) False by (intro other_turn_ok) auto
    from this [unfolded maintains_def, rule_format, OF Cons.prems(3)] turn Cons.prems(2) show ?thesis
      unfolding times using sorted_le_last [of "t # event_times evs" t] by (intro exI [of _ t]) auto
  qed
  then obtain t1 where t1: "r1 \<noteq> Panic" "relay_ok api qsid policy (spent l0 t0 t1) s1" "sorted (t1 # event_times evs)"
    "last (t1 # event_times evs) = last (t # event_times (ev # evs))" "t1 \<le> last (t # event_times (ev # evs))" by blast
  have later: "relay_ok api qsid policy (spent l0 t0 (last (t # event_times (ev # evs)))) s1"
    using t1(2) spent_later [OF _ t1(5)] unfolding relay_ok_def by blast
  show ?case
  proof (cases "\<exists>buffer'. r1 = Ok (Some buffer')")
    case True
    then obtain buffer' where "run_capsules api qsid evs buffer' s1 = (r, s')"
      using turn Cons.prems(4) by (auto simp: rbind_def)
    from Cons.IH [OF _ t1(3,2) this] Cons.prems(1) show ?thesis unfolding t1(4) by simp
  next
    case False
    then have "s' = s1" "r \<noteq> Panic" using turn Cons.prems(4) t1(1)
      by (auto simp: rbind_def rret_def split: res.splits option.splits)
    then show ?thesis using later by simp
  qed
qed

section \<open>The handler\<close>

lemma encode_observed_no_panic: "encode_observed_address addr \<noteq> Panic"
proof -
  have "length (put_addr addr) \<le> 19" by (cases addr; cases "sa_ip addr") auto
  then have "word_of_nat (length (put_addr addr)) \<le> VARINT_MAX"
    by (simp add: VARINT_MAX_def word_le_nat_alt unat_word_of_nat)
  then obtain l where "write_varint (word_of_nat (length (put_addr addr))) = Ok l" using write_varint_Ok by blast
  moreover obtain t where "write_varint CAPSULE_OBSERVED_ADDRESS = Ok t"
    using write_varint_Ok [of CAPSULE_OBSERVED_ADDRESS] by (auto simp: CAPSULE_OBSERVED_ADDRESS_def VARINT_MAX_def)
  ultimately show ?thesis by (simp add: encode_observed_address_def Let_def)
qed

text \<open>When the stream takes every frame, an admitted session is accepted and registered.\<close>

lemma bind_accept_run:
  assumes "st_accepts (tk_stream t) = []"
  shows "\<exists>t'. bind_accept remote i sink b t = (Ok (), t') \<and> px_udp_bind (tk_ctx t') = ub_register i sink (px_udp_bind (tk_ctx t))"
proof -
  obtain buf where "encode_observed_address remote = Ok buf \<or> (\<exists>e. encode_observed_address remote = Err e)"
    using encode_observed_no_panic by (cases "encode_observed_address remote") auto
  moreover have "encode_observed_address remote \<noteq> Err e" for e by (simp add: encode_observed_address_def res_simps Let_def)
  ultimately have buf: "encode_observed_address remote = Ok buf" by blast
  then show ?thesis using assms
    by (simp add: bind_accept_def on_stream_def send_frame_def rbind_def rlift_def on_ctx_def upd_def count_metric_def
      on_engine_def)
qed

end
