(* ===== verification/Bind_Properties.thy ===== *)
theory Bind_Properties
  imports Bind_Safe
begin

text \<open>
  The properties of the CONNECT-UDP bind relay: no anonymous session, no open relay, egress within
  the configured rates, and public pairs given back. The example is a relay on 0.0.0.1 and 0.0.0.2
  with bearer tokens.
\<close>

section \<open>An example\<close>

definition relay_config :: proxy_config where
  "relay_config = config_default\<lparr>cfg_auth_mode := ModeBearer, cfg_auth_token := [''tok''], cfg_udp_bind := True,
     cfg_udp_bind_public_ips := [V4 1, V4 2], cfg_udp_bind_port_lo := 5000, cfg_udp_bind_port_hi := 5001\<rparr>"

definition relay_ctx :: proxy_ctx where
  "relay_ctx = \<lparr>px_config = relay_config, px_sessions = sm_new 1000, px_pool = ap_new (Ipv4Net 0x0A640000 24) None,
     px_engine = main_engine ref_ipnet relay_config (ap_new (Ipv4Net 0x0A640000 24) None) False,
     px_auth = au_new ModeBearer [''tok''] [],
     px_udp_bind = ub_enabled demo_allocator (dp_new [] []) \<lparr>packets_per_sec = 0, bytes_per_sec = 0\<rparr>\<rparr>"

definition relay_request :: request where
  "relay_request = \<lparr>rq_method = ''CONNECT'', rq_protocol = Some ''connect-udp'',
     rq_headers = [''capsule-protocol'' \<mapsto> ''?1'', ''connect-udp-bind'' \<mapsto> ''?1'', ''authorization'' \<mapsto> ''Bearer tok''],
     rq_path = ''/.well-known/masque/udp/*/*/''\<rparr>"

definition relay_task :: task where
  "relay_task = \<lparr>tk_ctx = relay_ctx, tk_stream = \<lparr>st_id = 0, st_accepts = [], st_sent = []\<rparr>, tk_assigned = []\<rparr>"

lemma relay_start: "main_context ref_ipnet relay_config False = Ok relay_ctx"
proof -
  have "validate relay_config = Ok ()" "main_auth relay_config = Ok (au_new ModeBearer [''tok''] [])"
    by (simp_all add: relay_config_def config_default_def validate_def basic_credentials_def main_auth_def word_less_nat_alt)
  moreover have "main_udp_bind relay_config =
      Ok (ub_enabled demo_allocator (dp_new [] []) \<lparr>packets_per_sec = 0, bytes_per_sec = 0\<rparr>)"
    using demo_allocator_new by (simp add: main_udp_bind_def relay_config_def config_default_def)
  moreover have "cfg_ipv4_pool relay_config = Ipv4Net 0x0A640000 24" "cfg_ipv6_pool relay_config = None"
    "cfg_max_sessions relay_config = 1000" by (simp_all add: relay_config_def config_default_def)
  ultimately show ?thesis by (simp add: main_context_def relay_ctx_def Let_def)
qed

lemma relay_valid: "bind_validate_request relay_request = Ok ()"
proof -
  have "header_is relay_request ''connect-udp-bind'' ''?1''" "header_is relay_request ''capsule-protocol'' ''?1''"
    by (simp_all add: header_is_def relay_request_def trim_def is_space_def)
  then show ?thesis
    by (simp add: bind_validate_request_def relay_request_def CONNECT_UDP_PROTOCOL_def UDP_PATH_PREFIX_def
      starts_with_def ok_or_def)
qed

lemma relay_granted:
  "authenticate crypto (px_auth relay_ctx) (rq_headers relay_request) None = Ok \<lparr>ac_method = ''bearer'', ac_principal = None\<rparr>"
proof -
  have "authorization_value (rq_headers relay_request) ''Bearer'' = Some ''tok''"
    by (simp add: authorization_value_def relay_request_def split_once_def eq_ignore_ascii_case_def trim_def is_space_def)
  then have "granted crypto (px_auth relay_ctx) (rq_headers relay_request) None \<lparr>ac_method = ''bearer'', ac_principal = None\<rparr>"
    by (simp add: granted_def relay_ctx_def au_new_def)
  moreover from authenticate_spec [of crypto "px_auth relay_ctx" "rq_headers relay_request" None] this
  obtain ac where "authenticate crypto (px_auth relay_ctx) (rq_headers relay_request) None = Ok ac"
    "granted crypto (px_auth relay_ctx) (rq_headers relay_request) None ac"
    by (auto split: res.splits)
  ultimately show ?thesis by (simp add: granted_def relay_ctx_def au_new_def)
qed

lemma relay_bound:
  "\<exists>b a. bind_loop (\<lambda>_. Ok) policy limiter BIND_ATTEMPTS demo_allocator = (Bound (SocketAddr (V4 1) 5000) b, a)"
proof -
  have attempts: "BIND_ATTEMPTS = Suc 15" by (simp add: BIND_ATTEMPTS_def)
  have "fst (pa_allocate demo_allocator) = Some (SocketAddr (V4 1) 5000)"
    by (simp add: pa_allocate_def demo_allocator_def pa_candidate_def numeral_2_eq_2 upt_rec)
  then obtain a where al: "pa_allocate demo_allocator = (Some (SocketAddr (V4 1) 5000), a)"
    by (metis prod.collapse)
  show ?thesis unfolding attempts bind_loop.simps(2) al by (simp add: bs_bind_def)
qed

lemma relay_admitted:
  "\<exists>b t'. bind_admit crypto (\<lambda>_. Ok) 0 relay_request None (relay_task\<lparr>tk_stream := stream\<rparr>) =
     (Ok (SocketAddr (V4 1) 5000, b), t')"
proof -
  obtain b a where "bind_loop (\<lambda>_. Ok) (dp_new [] []) (sl_new \<lparr>packets_per_sec = 0, bytes_per_sec = 0\<rparr> 0) BIND_ATTEMPTS
      demo_allocator = (Bound (SocketAddr (V4 1) 5000) b, a)" using relay_bound by blast
  moreover have "px_udp_bind relay_ctx = ub_enabled demo_allocator (dp_new [] []) \<lparr>packets_per_sec = 0, bytes_per_sec = 0\<rparr>"
    by (simp add: relay_ctx_def)
  ultimately show ?thesis
    by (simp add: bind_admit_def relay_task_def relay_valid relay_granted attempt_def rlift_def rbind_def peek_def upd_def
      rret_def ub_is_enabled_def ub_enabled_def set_allocator_def on_ctx_def)
qed

text \<open>A session with a compressed context for 203.0.113.7, at one packet a second.\<close>

definition relay_session :: bind_session where
  "relay_session = \<lparr>bx_stream = \<lparr>st_id = 0, st_accepts = [], st_sent = []\<rparr>,
     bx_socket = \<lparr>bs_public_addr = SocketAddr (V4 1) 5000, bs_contexts = sample_table, bs_policy = dp_new [] [],
       bs_limiter = sl_new \<lparr>packets_per_sec = 1, bytes_per_sec = 0\<rparr> 0, bs_to_net = [], bs_to_peer = []\<rparr>,
     bx_datagrams = []\<rparr>"

lemma relay_session_sends:
  "\<exists>r s'. run_capsules ref_ipnet 0 [FromPeer 5 True [4, 1, 2]] cb_new relay_session = (r, s') \<and>
     bs_to_net (bx_socket s') = [(sample_remote, [1, 2])]"
proof -
  have "read_varint [4, 1, 2] = (Ok 4, [1, 2])" by (simp add: read_varint_step tail_len_def rret_def)
  then have "decode_datagram sample_table [4, 1, 2] = Ok \<lparr>bd_context_id = 4, bd_remote = sample_remote, bd_payload = [1, 2]\<rparr>"
    by (simp add: decode_datagram_def sample_table_def ct_binding_def)
  moreover have "octets4 0xCB007107 = [203, 0, 113, 7]"
    using octets4_of_octets4 [of "[203, 0, 113, 7]"] by (simp add: of_octets4_def)
  then have "dp_allows ref_ipnet (dp_new [] []) sample_remote"
    by (simp add: dp_allows_def dp_new_def sample_remote_def is_private4_def is_loopback4_def is_link_local4_def
      is_multicast4_def is_broadcast4_def is_unspecified4_def)
  ultimately show ?thesis
    by (simp add: relay_session_def bind_turn_def rbind_def rret_def on_socket_def outbound_step_def Let_def
      try_consume_at_def sl_new_def is_unlimited_def sl_refill_def refill_amount_def)
qed

lemma relay_facts:
  "tk_ctx relay_task = relay_ctx" "ub_is_enabled (px_udp_bind relay_ctx)"
  "ub_allocator (px_udp_bind relay_ctx) = Some demo_allocator" "ub_sink (px_udp_bind relay_ctx) i = None"
  "st_accepts (tk_stream relay_task) = []" "st_id (tk_stream relay_task) = 0"
  by (simp_all add: relay_task_def relay_ctx_def ub_enabled_def ub_is_enabled_def ub_sink_def)

lemma relay_closes:
  "\<exists>s t'. handle_connect_udp_bind_stream ref_ipnet hex_api (\<lambda>_. Ok) 0 sample_remote 7 0 relay_request None [StreamFin]
     relay_task = (Ok (s, None), t')"
proof -
  obtain b t1 where ad: "bind_admit hex_api (\<lambda>_. Ok) 0 relay_request None relay_task = (Ok (SocketAddr (V4 1) 5000, b), t1)"
    using relay_admitted [of hex_api "tk_stream relay_task"] by auto
  have inv: "pa_inv demo_allocator" using pa_reach_inv [OF reach_new [OF demo_allocator_new]] by simp
  have "ub_allocator (px_udp_bind (tk_ctx relay_task)) = Some demo_allocator" by (simp add: relay_facts)
  from bind_admit_run [OF ad this inv] have "st_accepts (tk_stream t1) = []" by (auto simp: relay_facts)
  from bind_accept_run [OF this] obtain t2 where "bind_accept sample_remote (compose 0 0) 7 b t1 = (Ok (), t2)" by blast
  then show ?thesis using ad
    by (simp add: handle_connect_udp_bind_stream_def Let_def relay_facts rbind_def peek_def bind_turn_def rret_def on_ctx_def upd_def)
qed

section \<open>Where the code departs from its intent\<close>

text \<open>
  Teardown runs only after the session loop. When the stream fails before it, as the response or
  the report of the peer's address is sent, the handler returns with the pair still allocated.
\<close>

lemma bind_port_leak:
  "\<exists>e t' a'. handle_connect_udp_bind_stream ref_ipnet hex_api (\<lambda>_. Ok) 0 sample_remote 7 0 relay_request None []
      (relay_task\<lparr>tk_stream := \<lparr>st_id = 0, st_accepts = [False], st_sent = []\<rparr>\<rparr>) = (Err e, t') \<and>
     ub_allocator (px_udp_bind (tk_ctx t')) = Some a' \<and> pa_in_use a' = {SocketAddr (V4 1) 5000}"
proof -
  let ?t = "relay_task\<lparr>tk_stream := \<lparr>st_id = 0, st_accepts = [False], st_sent = []\<rparr>\<rparr>"
  obtain b t1 where ad: "bind_admit hex_api (\<lambda>_. Ok) 0 relay_request None ?t = (Ok (SocketAddr (V4 1) 5000, b), t1)"
    using relay_admitted by blast
  have inv: "pa_inv demo_allocator" using pa_reach_inv [OF reach_new [OF demo_allocator_new]] by simp
  have "ub_allocator (px_udp_bind (tk_ctx ?t)) = Some demo_allocator" by (simp add: relay_facts)
  from bind_admit_run [OF ad this inv] obtain a' where "tk_stream t1 = tk_stream ?t"
    "px_udp_bind (tk_ctx t1) = (px_udp_bind (tk_ctx ?t))\<lparr>ub_allocator := Some a'\<rparr>" "pa_in_use a' = {SocketAddr (V4 1) 5000}"
    by (auto simp: demo_allocator_def)
  then show ?thesis using ad
    by (simp add: handle_connect_udp_bind_stream_def Let_def rbind_def bind_accept_def on_stream_def send_frame_def)
qed

section \<open>Properties\<close>

text \<open>
  C8: no anonymous relay. Whatever configuration the proxy starts with, a bind request that is
  admitted carried credentials the configured mode accepts, and that mode is not none; it gets a
  pair of the configured pool that nobody holds, and only that pair becomes used. A refused
  request leaves every pair as it was, and the handler does not panic.
\<close>

theorem bind_admission:
  assumes "main_context api config tun = Ok c0" "px_auth (tk_ctx t) = px_auth c0" "ub_is_enabled (px_udp_bind c0)"
    "ub_allocator (px_udp_bind (tk_ctx t)) = Some a" "pa_reach ips lo hi a"
    "bind_admit crypto os now req cert t = (r, t')"
  shows "\<exists>a'. ub_allocator (px_udp_bind (tk_ctx t')) = Some a' \<and> (case r of
      Ok (addr, b) \<Rightarrow> (\<exists>ac. granted crypto (px_auth (tk_ctx t)) (rq_headers req) cert ac \<and> ac_method ac \<noteq> ''none'') \<and>
        addr \<in> pool_of ips lo hi \<and> addr \<notin> pa_in_use a \<and> pa_in_use a' = insert addr (pa_in_use a)
    | Err _ \<Rightarrow> pa_in_use a' = pa_in_use a
    | Panic \<Rightarrow> False)"
proof -
  have inv: "pa_inv a" "tuples a = pool_of ips lo hi"
    using pa_reach_inv [OF assms(5)] by (simp_all add: tuples_def pool_of_def)
  have mode: "au_mode (px_auth c0) \<noteq> ModeNone"
  proof -
    have c0: "main_udp_bind config = Ok (px_udp_bind c0)" "validate config = Ok ()"
      "main_auth config = Ok (px_auth c0)"
      using assms(1) by (auto simp: main_context_def and_then_eq_Ok Let_def res_simps)
    then have "px_udp_bind c0 = ub_disabled" if "\<not> cfg_udp_bind config" using that by (simp add: main_udp_bind_def)
    then have "cfg_udp_bind config" using assms(3) by (cases "cfg_udp_bind config") (simp_all add: ub_disabled_def ub_is_enabled_def)
    then have "cfg_auth_mode config \<noteq> ModeNone"
      using c0(2) by (auto simp: validate_def and_then_eq_Ok split: if_splits)
    moreover obtain creds where "px_auth c0 = au_new (cfg_auth_mode config) (cfg_auth_token config) creds"
      using c0(3) unfolding main_auth_def and_then_eq_Ok by (metis res.inject(1))
    ultimately show ?thesis by (simp add: au_new_def)
  qed
  have named: "granted crypto (px_auth (tk_ctx t)) (rq_headers req) cert ac \<and> ac_method ac \<noteq> ''none''"
    if "authenticate crypto (px_auth (tk_ctx t)) (rq_headers req) cert = Ok ac" for ac
    using authenticate_spec [of crypto "px_auth (tk_ctx t)" "rq_headers req" cert] that mode assms(2)
    by (auto simp: granted_def split: auth_mode.splits)
  note run = bind_admit_run [OF assms(6,4) inv(1)]
  show ?thesis
  proof (cases r)
    case (Ok x)
    then show ?thesis using run named inv(2) by (cases x) fastforce
  qed (use run in auto)
qed

theorem bind_admission_witness:
  "\<exists>b t' a'. bind_admit hex_api (\<lambda>_. Ok) 0 relay_request None relay_task = (Ok (SocketAddr (V4 1) 5000, b), t') \<and>
     ub_allocator (px_udp_bind (tk_ctx t')) = Some a' \<and> pa_in_use a' = {SocketAddr (V4 1) 5000}"
proof -
  obtain b t' where r: "bind_admit hex_api (\<lambda>_. Ok) 0 relay_request None relay_task = (Ok (SocketAddr (V4 1) 5000, b), t')"
    using relay_admitted [of hex_api "tk_stream relay_task"] by auto
  show ?thesis
    using bind_admission [OF relay_start _ _ _ reach_new [OF demo_allocator_new] r] r
    by (auto simp: relay_facts demo_allocator_def)
qed

text \<open>
  C3: no open relay. Over any sequence of stream data, datagrams from the peer and packets from the
  network, a session whose clocks do not run backwards never panics, every packet it sends to the
  network goes to a destination its policy allows, and every datagram to the peer carries the
  Quarter Stream ID of the session.
\<close>

theorem relay_no_open_relay:
  assumes "run_capsules api qsid evs buffer s = (r, s')" "qsid \<le> VARINT_MAX" "list_all event_ok evs"
    "sorted (t0 # event_times evs)" "ct_inv (bs_contexts (bx_socket s))"
    "bs_to_net (bx_socket s) = []" "bx_datagrams s = []"
  shows "r \<noteq> Panic \<and> list_all (\<lambda>(dst, _). dp_allows api (bs_policy (bx_socket s)) dst) (bs_to_net (bx_socket s')) \<and>
    list_all (\<lambda>w. \<exists>body. read_varint w = (Ok qsid, body)) (bx_datagrams s')"
proof -
  let ?l = "bs_limiter (bx_socket s)"
  have "spent ?l t0 t0 ?l []" unfolding spent_def by (intro exI [of _ "[]"]) simp
  then have "relay_ok api qsid (bs_policy (bx_socket s)) (spent ?l t0 t0) s" using assms(5-7) by (simp add: relay_ok_def)
  from run_capsules_ok [OF assms(3,2,4) this assms(1)] show ?thesis by (simp add: relay_ok_def)
qed

theorem relay_no_open_relay_witness:
  "\<exists>r s'. run_capsules ref_ipnet 0 [FromPeer 5 True [4, 1, 2]] cb_new relay_session = (r, s') \<and>
     bs_to_net (bx_socket s') = [(sample_remote, [1, 2])] \<and> dp_allows ref_ipnet (dp_new [] []) sample_remote"
proof -
  obtain r s' where r: "run_capsules ref_ipnet 0 [FromPeer 5 True [4, 1, 2]] cb_new relay_session = (r, s')"
    "bs_to_net (bx_socket s') = [(sample_remote, [1, 2])]" using relay_session_sends by blast
  have "ct_inv sample_table" by (simp add: ct_inv_def sample_table_def VARINT_MAX_def)
  with relay_no_open_relay [OF r(1), of 0] r show ?thesis by (simp add: relay_session_def)
qed

text \<open>
  C9: egress within the rates. Over any such sequence, what a session sends to the network stays
  within one second of burst plus the configured rate times the time elapsed, in packets and in
  bytes.
\<close>

theorem relay_egress_bounded:
  assumes "run_capsules api qsid evs buffer s = (r, s')" "qsid \<le> VARINT_MAX" "list_all event_ok evs"
    "sorted (t0 # event_times evs)" "t = last (t0 # event_times evs)" "ct_inv (bs_contexts (bx_socket s))"
    "bs_to_net (bx_socket s) = []" "bx_datagrams s = []" "bs_limiter (bx_socket s) = sl_new limits t0"
  shows "(packets_per_sec limits \<noteq> 0 \<longrightarrow> length (bs_to_net (bx_socket s')) * 1000000 \<le>
      unat (packets_per_sec limits) * (1000000 + (t - t0) div 1000)) \<and>
    (bytes_per_sec limits \<noteq> 0 \<longrightarrow> sum_list (List.map (length \<circ> snd) (bs_to_net (bx_socket s'))) * 1000000 \<le>
      unat (bytes_per_sec limits) * (1000000 + (t - t0) div 1000))"
proof -
  let ?l = "sl_new limits t0"
  have "spent ?l t0 t0 ?l []" unfolding spent_def by (intro exI [of _ "[]"]) simp
  then have "relay_ok api qsid (bs_policy (bx_socket s)) (spent ?l t0 t0) s" using assms(6-) by (simp add: relay_ok_def)
  from run_capsules_ok [OF assms(3,2,4) this assms(1)]
  obtain calls bs l where c: "admitted calls ?l = (bs, l)" "sorted (t0 # List.map snd calls)"
    "last (t0 # List.map snd calls) \<le> t" "length (bs_to_net (bx_socket s')) \<le> length bs"
    "sum_list (List.map (length \<circ> snd) (bs_to_net (bx_socket s'))) \<le> sum_list (List.map unat bs)"
    unfolding relay_ok_def spent_def assms(5) [symmetric] by blast
  have "(last (t0 # List.map snd calls) - t0) div 1000 \<le> (t - t0) div 1000" using c(3) by (intro div_le_mono) simp
  then have "unat n * (1000000 + (last (t0 # List.map snd calls) - t0) div 1000) \<le> unat n * (1000000 + (t - t0) div 1000)"
    for n :: u64 by simp
  with admitted_bound [OF c(1,2) refl] c(4,5) show ?thesis
    by (meson mult_le_mono1 order_trans)
qed

theorem relay_egress_bounded_witness:
  "\<exists>r s'. run_capsules ref_ipnet 0 [FromPeer 5 True [4, 1, 2]] cb_new relay_session = (r, s') \<and>
     bs_to_net (bx_socket s') = [(sample_remote, [1, 2])] \<and>
     length (bs_to_net (bx_socket s')) * 1000000 \<le> unat (1 :: u64) * (1000000 + (5 - 0) div 1000)"
proof -
  obtain r s' where r: "run_capsules ref_ipnet 0 [FromPeer 5 True [4, 1, 2]] cb_new relay_session = (r, s')"
    "bs_to_net (bx_socket s') = [(sample_remote, [1, 2])]" using relay_session_sends by blast
  have "ct_inv sample_table" by (simp add: ct_inv_def sample_table_def VARINT_MAX_def)
  with relay_egress_bounded [OF r(1), of 0 5 "\<lparr>packets_per_sec = 1, bytes_per_sec = 0\<rparr>"] r
  show ?thesis by (simp add: relay_session_def)
qed



end
