(* ===== verification/Slice.thy ===== *)
theory Slice
  imports Straw_Prelude
begin

text \<open>
  Access to byte slices as Rust checks it: an index or a range outside the slice panics. The
  parsers that compute their offsets from the input use these operations, so that a theorem that
  they do not panic covers every access.
\<close>

section \<open>Operations\<close>

text \<open>\<open>buf[i]\<close>, \<open>buf[i..j]\<close>, and integers read at an offset.\<close>

definition byte_at :: "nat \<Rightarrow> bytes \<Rightarrow> ('e, u8) res" where
  "byte_at i buf = (if i < length buf then Ok (buf ! i) else Panic)"

definition slice_at :: "nat \<Rightarrow> nat \<Rightarrow> bytes \<Rightarrow> ('e, bytes) res" where
  "slice_at i j buf = (if i \<le> j \<and> j \<le> length buf then Ok (sub_slice i j buf) else Panic)"

definition be16_at :: "nat \<Rightarrow> bytes \<Rightarrow> ('e, u16) res" where
  "be16_at i buf = and_then (byte_at i buf) (\<lambda>a. and_then (byte_at (i + 1) buf) (\<lambda>b. Ok (from_be16 a b)))"

definition be32_at :: "nat \<Rightarrow> bytes \<Rightarrow> ('e, u32) res" where
  "be32_at i buf =
     and_then (byte_at i buf) (\<lambda>a. and_then (byte_at (i + 1) buf) (\<lambda>b.
     and_then (byte_at (i + 2) buf) (\<lambda>c. and_then (byte_at (i + 3) buf) (\<lambda>d. Ok (from_be32 a b c d)))))"

text \<open>\<open>buf[i] = v\<close> and \<open>buf[i..i + src.len()].copy_from_slice(src)\<close>.\<close>

definition set_at :: "nat \<Rightarrow> u8 \<Rightarrow> bytes \<Rightarrow> ('e, bytes) res" where
  "set_at i v buf = (if i < length buf then Ok (buf[i := v]) else Panic)"

definition copy_at :: "nat \<Rightarrow> bytes \<Rightarrow> bytes \<Rightarrow> ('e, bytes) res" where
  "copy_at i src buf = (if i + length src \<le> length buf then Ok (write_at i src buf) else Panic)"

section \<open>Lemmas\<close>

named_theorems slice_simps \<open>accesses that are in range\<close>

lemma byte_at_Ok [slice_simps]: "i < length buf \<Longrightarrow> byte_at i buf = Ok (buf ! i)"
  by (simp add: byte_at_def)

lemma slice_at_Ok [slice_simps]: "i \<le> j \<Longrightarrow> j \<le> length buf \<Longrightarrow> slice_at i j buf = Ok (sub_slice i j buf)"
  by (simp add: slice_at_def)

lemma be16_at_Ok [slice_simps]: "i + 1 < length buf \<Longrightarrow> be16_at i buf = Ok (from_be16 (buf ! i) (buf ! (i + 1)))"
  by (simp add: be16_at_def byte_at_def)

lemma be32_at_Ok [slice_simps]:
  "i + 3 < length buf \<Longrightarrow>
     be32_at i buf = Ok (from_be32 (buf ! i) (buf ! (i + 1)) (buf ! (i + 2)) (buf ! (i + 3)))"
  by (simp add: be32_at_def byte_at_def)

lemma set_at_Ok [slice_simps]: "i < length buf \<Longrightarrow> set_at i v buf = Ok (buf[i := v])"
  by (simp add: set_at_def)

lemma copy_at_Ok [slice_simps]: "i + length src \<le> length buf \<Longrightarrow> copy_at i src buf = Ok (write_at i src buf)"
  by (simp add: copy_at_def)

text \<open>What was written in big-endian order is read back, wherever it stands in the buffer.\<close>

lemma from_be16_pair: "be16 w = [a, b] \<Longrightarrow> from_be16 a b = w"
  by (metis be_val_be16 from_be16_def word_nat_cases unat_word_of_nat)

lemma from_be32_quad: "be32 w = [a, b, c, d] \<Longrightarrow> from_be32 a b c d = w"
  by (metis be_val_be32 from_be32_def word_nat_cases unat_word_of_nat)

lemma be16_pair: "\<exists>a b. be16 w = [a, b] \<and> from_be16 a b = w"
proof -
  obtain a b where "be16 w = [a, b]"
    using length_be16 [of w] by (metis (no_types, opaque_lifting) One_nat_def Suc_length_conv length_0_conv numeral_2_eq_2)
  then show ?thesis using from_be16_pair by blast
qed

lemma be32_quad: "\<exists>a b c d. be32 w = [a, b, c, d] \<and> from_be32 a b c d = w"
proof -
  have "length (be32 w) = Suc (Suc (Suc (Suc 0)))" by simp
  then obtain a b c d where "be32 w = [a, b, c, d]" unfolding length_Suc_conv by auto
  then show ?thesis using from_be32_quad by blast
qed

lemma be16_at_append:
  assumes "length xs = i"
  shows "be16_at i (xs @ be16 w @ ys) = Ok w"
proof -
  obtain a b where "be16 w = [a, b]" "from_be16 a b = w" using be16_pair by blast
  then show ?thesis using assms by (simp add: slice_simps nth_append)
qed

lemma be32_at_append:
  assumes "length xs = i"
  shows "be32_at i (xs @ be32 w @ ys) = Ok w"
proof -
  obtain a b c d where "be32 w = [a, b, c, d]" "from_be32 a b c d = w" using be32_quad by blast
  then show ?thesis using assms by (simp add: slice_simps nth_append numeral_2_eq_2 numeral_3_eq_3)
qed

lemma slice_at_append: "length xs = i \<Longrightarrow> j = i + length ys \<Longrightarrow> slice_at i j (xs @ ys @ zs) = Ok ys"
  by (simp add: slice_at_def sub_slice_def)

end
