(* ===== verification/Stun.thy ===== *)
theory Stun
  imports Slice Net_Types Proxy_Error
begin

unbundle bit_operations_syntax

text \<open>
  NAT behaviour discovery, \<open>src/src/p2p/stun.rs\<close>: the STUN Binding codec, the client that classifies
  the mapping behaviour of its NAT with the three tests of RFC 5780, and the server on four
  sockets it asks. What a UDP socket does with one request is a parameter.
\<close>

section \<open>Codec\<close>

definition MAGIC_COOKIE :: u32 where "MAGIC_COOKIE = 0x2112A442"
definition BINDING_REQUEST :: u16 where "BINDING_REQUEST = 0x0001"
definition BINDING_SUCCESS :: u16 where "BINDING_SUCCESS = 0x0101"
definition ATTR_XOR_MAPPED_ADDRESS :: u16 where "ATTR_XOR_MAPPED_ADDRESS = 0x0020"
definition ATTR_OTHER_ADDRESS :: u16 where "ATTR_OTHER_ADDRESS = 0x802C"
definition FAMILY_V4 :: u8 where "FAMILY_V4 = 0x01"

lemmas stun_consts = BINDING_REQUEST_def BINDING_SUCCESS_def ATTR_XOR_MAPPED_ADDRESS_def ATTR_OTHER_ADDRESS_def

definition encode_binding_request :: "bytes \<Rightarrow> bytes" where
  "encode_binding_request txid = be16 BINDING_REQUEST @ be16 0 @ be32 MAGIC_COOKIE @ txid"

definition decode_addr :: "bytes \<Rightarrow> bool \<Rightarrow> sock_addr option" where
  "decode_addr val folded =
     (if length val < 8 \<or> val ! 1 \<noteq> FAMILY_V4 then None
      else
        (let port = from_be16 (val ! 2) (val ! 3);
             octets = from_be32 (val ! 4) (val ! 5) (val ! 6) (val ! 7);
             port = (if folded then port XOR ucast (drop_bit 16 MAGIC_COOKIE) else port);
             octets = (if folded then octets XOR MAGIC_COOKIE else octets)
         in Some (SocketAddr (V4 octets) port)))"

definition encode_addr :: "sock_addr \<Rightarrow> bool \<Rightarrow> bytes" where
  "encode_addr addr folded = (case sa_ip addr of
      V6 _ \<Rightarrow> []
    | V4 ip \<Rightarrow>
        (let port = (if folded then sa_port addr XOR ucast (drop_bit 16 MAGIC_COOKIE) else sa_port addr);
             octets = (if folded then ip XOR MAGIC_COOKIE else ip)
         in [0, FAMILY_V4] @ be16 port @ be32 octets))"

text \<open>The attribute loop. \<open>alen.div_ceil(4) * 4\<close> skips the padding.\<close>

function attr_loop ::
    "bytes \<Rightarrow> nat \<Rightarrow> nat \<Rightarrow> sock_addr option \<Rightarrow> sock_addr option \<Rightarrow>
     (proxy_error, sock_addr option \<times> sock_addr option) res" where
  "attr_loop buf len off mapped other =
     (if off + 4 \<le> 20 + len then
        and_then (be16_at off buf) (\<lambda>atype.
        and_then (be16_at (off + 2) buf) (\<lambda>alen.
          let val_start = off + 4 in
          if val_start + unat alen > length buf then Ok (mapped, other)
          else and_then (slice_at val_start (val_start + unat alen) buf) (\<lambda>val.
            attr_loop buf len (val_start + (unat alen + 3) div 4 * 4)
              (if atype = ATTR_XOR_MAPPED_ADDRESS then decode_addr val True else mapped)
              (if atype = ATTR_OTHER_ADDRESS then decode_addr val False else other))))
      else Ok (mapped, other))"
  by pat_completeness auto
termination by (relation "measure (\<lambda>(buf, len, off, mapped, other). 20 + len - off)") auto

declare attr_loop.simps [simp del]

definition parse_binding_response :: "bytes \<Rightarrow> bytes \<Rightarrow> (proxy_error, sock_addr \<times> sock_addr option) res" where
  "parse_binding_response buf txid =
     (if length buf < 20 then Err (PQuic ''short STUN response'')
      else and_then (be16_at 0 buf) (\<lambda>mtype.
        and_then (be16_at 2 buf) (\<lambda>len.
        and_then (be32_at 4 buf) (\<lambda>cookie.
        and_then (slice_at 8 20 buf) (\<lambda>id.
          if mtype \<noteq> BINDING_SUCCESS \<or> cookie \<noteq> MAGIC_COOKIE \<or> id \<noteq> txid
          then Err (PQuic ''not a matching STUN success response'')
          else if 20 + unat len > length buf then Err (PQuic ''STUN length past buffer'')
          else and_then (attr_loop buf (unat len) 20 None None) (\<lambda>(mapped, other).
            and_then (ok_or (PQuic ''no XOR-MAPPED-ADDRESS'') mapped) (\<lambda>mapped. Ok (mapped, other))))))))"

definition parse_binding_request :: "bytes \<Rightarrow> (proxy_error, bytes option) res" where
  "parse_binding_request buf =
     (if length buf < 20 then Ok None
      else and_then (be16_at 0 buf) (\<lambda>mtype.
        and_then (be32_at 4 buf) (\<lambda>cookie.
          if mtype \<noteq> BINDING_REQUEST \<or> cookie \<noteq> MAGIC_COOKIE then Ok None
          else and_then (slice_at 8 20 buf) (\<lambda>txid. Ok (Some txid)))))"

text \<open>\<open>push_attr\<close>: the attribute, padded to a multiple of four octets.\<close>

lemma pad4_less: "0 < l mod 4 \<Longrightarrow> (4 - Suc l mod 4) mod 4 < 4 - l mod (4 :: nat)"
proof -
  assume "0 < l mod 4"
  then have "l mod 4 = 1 \<or> l mod 4 = 2 \<or> l mod 4 = 3" using mod_less_divisor [of 4 l] by linarith
  then show ?thesis by (auto simp: mod_Suc)
qed

function pad4 :: "bytes \<Rightarrow> bytes" where
  "pad4 body = (if length body mod 4 \<noteq> 0 then pad4 (body @ [0]) else body)"
  by pat_completeness auto
termination
  by (relation "measure (\<lambda>body. (4 - length body mod 4) mod 4)") (simp_all add: pad4_less)

declare pad4.simps [simp del]

definition push_attr :: "u16 \<Rightarrow> bytes \<Rightarrow> bytes \<Rightarrow> bytes" where
  "push_attr atype val body = pad4 (body @ be16 atype @ be16 (word_of_nat (length val)) @ val)"

definition encode_binding_response :: "bytes \<Rightarrow> sock_addr \<Rightarrow> sock_addr option \<Rightarrow> bytes" where
  "encode_binding_response txid mapped other =
     (let body = push_attr ATTR_XOR_MAPPED_ADDRESS (encode_addr mapped True) [];
          body = (case other of None \<Rightarrow> body | Some a \<Rightarrow> push_attr ATTR_OTHER_ADDRESS (encode_addr a False) body)
      in be16 BINDING_SUCCESS @ be16 (word_of_nat (length body)) @ be32 MAGIC_COOKIE @ txid @ body)"

section \<open>Client and server\<close>

datatype nat_mapping = NatOpen | EndpointIndependent | AddressDependent | AddressAndPortDependent

definition is_punchable :: "nat_mapping \<Rightarrow> bool" where
  "is_punchable m \<longleftrightarrow> m \<in> {NatOpen, EndpointIndependent}"

fun nat_mapping_str :: "nat_mapping \<Rightarrow> string" where
  "nat_mapping_str NatOpen = ''open (no NAT)''"
| "nat_mapping_str EndpointIndependent = ''endpoint-independent (cone)''"
| "nat_mapping_str AddressDependent = ''address-dependent (restricted cone)''"
| "nat_mapping_str AddressAndPortDependent = ''address-and-port-dependent (symmetric)''"

text \<open>
  What sending a request and waiting for an answer gives: an error of either call, the timeout, or
  a datagram, cut to the receive buffer.
\<close>

datatype exchanged = SendFailed string | RecvFailed string | TimedOut | Received bytes

definition ATTEMPTS :: nat where "ATTEMPTS = 3"

primrec binding_loop ::
    "(nat \<Rightarrow> exchanged) \<Rightarrow> bytes \<Rightarrow> nat \<Rightarrow> (proxy_error, sock_addr \<times> sock_addr option) res" where
  "binding_loop udp txid 0 = Err (PQuic ''STUN server did not respond'')"
| "binding_loop udp txid (Suc n) = (case udp (ATTEMPTS - Suc n) of
      SendFailed e \<Rightarrow> Err (PIo e)
    | Received buf \<Rightarrow> parse_binding_response buf txid
    | RecvFailed e \<Rightarrow> Err (PIo e)
    | TimedOut \<Rightarrow> binding_loop udp txid n)"

text \<open>
  The sockets and the random transaction ids of a classification: \<open>se_udp k server req a\<close> is what
  attempt \<open>a\<close> of the \<open>k\<close>-th transaction meets when it sends \<open>req\<close> to \<open>server\<close>.
\<close>

record stun_env =
  se_local :: "(string, sock_addr) res"
  se_txid :: "nat \<Rightarrow> bytes"
  se_udp :: "nat \<Rightarrow> sock_addr \<Rightarrow> bytes \<Rightarrow> nat \<Rightarrow> exchanged"

definition stun_binding :: "stun_env \<Rightarrow> nat \<Rightarrow> sock_addr \<Rightarrow> (proxy_error, sock_addr \<times> sock_addr option) res" where
  "stun_binding env k server =
     binding_loop (se_udp env k server (encode_binding_request (se_txid env k))) (se_txid env k) ATTEMPTS"

definition detect_mapping :: "stun_env \<Rightarrow> sock_addr \<Rightarrow> (proxy_error, nat_mapping) res" where
  "detect_mapping env primary =
     and_then (map_err PIo (se_local env)) (\<lambda>local.
     and_then (stun_binding env 0 primary) (\<lambda>(ma1, other).
       if ma1 = local then Ok NatOpen
       else case other of
           None \<Rightarrow> Err (PQuic ''STUN server does not support RFC 5780 (no OTHER-ADDRESS)'')
         | Some other \<Rightarrow>
             and_then (stun_binding env 1 other) (\<lambda>(ma2, _).
               if ma1 = ma2 then Ok EndpointIndependent
               else and_then (stun_binding env 2 (SocketAddr (sa_ip primary) (sa_port other))) (\<lambda>(ma3, _).
                 if ma1 = ma3 then Ok AddressDependent else Ok AddressAndPortDependent))))"

text \<open>
  The server: each listening address with the diagonally opposite one it announces, and what a
  socket answers to a datagram.
\<close>

definition serve_combos :: "sock_addr \<Rightarrow> sock_addr \<Rightarrow> (sock_addr \<times> sock_addr) list" where
  "serve_combos primary alternate =
     (let (ipa, pa) = (sa_ip primary, sa_port primary); (ipb, pb) = (sa_ip alternate, sa_port alternate) in
      [(SocketAddr ipa pa, SocketAddr ipb pb), (SocketAddr ipa pb, SocketAddr ipb pa),
       (SocketAddr ipb pa, SocketAddr ipa pb), (SocketAddr ipb pb, SocketAddr ipa pa)])"

text \<open>\<open>serve\<close> binds the four sockets in turn, \<open>os\<close> giving the error of each; any error ends it.\<close>

primrec serve_bind ::
    "(sock_addr \<Rightarrow> string option) \<Rightarrow> (sock_addr \<times> sock_addr) list \<Rightarrow> (proxy_error, (sock_addr \<times> sock_addr) list) res" where
  "serve_bind os [] = Ok []"
| "serve_bind os (c # cs) = (case os (fst c) of
      Some e \<Rightarrow> Err (PIo e)
    | None \<Rightarrow> and_then (serve_bind os cs) (\<lambda>tasks. Ok (c # tasks)))"

definition serve :: "(sock_addr \<Rightarrow> string option) \<Rightarrow> sock_addr \<Rightarrow> sock_addr \<Rightarrow> (proxy_error, (sock_addr \<times> sock_addr) list) res" where
  "serve os primary alternate = serve_bind os (serve_combos primary alternate)"

definition serve_socket :: "sock_addr \<Rightarrow> sock_addr \<Rightarrow> bytes \<Rightarrow> (proxy_error, bytes option) res" where
  "serve_socket other from buf = and_then (parse_binding_request buf) (\<lambda>r. Ok (case r of
      Some txid \<Rightarrow> Some (encode_binding_response txid from (Some other))
    | None \<Rightarrow> None))"

section \<open>Round trips\<close>

lemma length_encode_addr: "is_ipv4 (sa_ip a) \<Longrightarrow> length (encode_addr a x) = 8"
  by (cases "sa_ip a") (simp_all add: encode_addr_def Let_def)

lemma decode_encode_addr:
  assumes "is_ipv4 (sa_ip a)"
  shows "decode_addr (encode_addr a x) x = Some a"
proof -
  obtain ip port where a: "a = SocketAddr (V4 ip) port"
    using assms by (cases a; cases "sa_ip a") auto
  let ?p = "if x then port XOR ucast (drop_bit 16 MAGIC_COOKIE) else port"
  let ?o = "if x then ip XOR MAGIC_COOKIE else ip"
  obtain p1 p2 where p: "be16 ?p = [p1, p2]" "from_be16 p1 p2 = ?p" using be16_pair by blast
  obtain o1 o2 o3 o4 where o: "be32 ?o = [o1, o2, o3, o4]" "from_be32 o1 o2 o3 o4 = ?o" using be32_quad by blast
  have "encode_addr a x = [0, FAMILY_V4, p1, p2, o1, o2, o3, o4]"
    using p(1) o(1) by (cases x) (simp_all add: a encode_addr_def Let_def)
  then show ?thesis
    using p(2) o(2) by (cases x) (simp_all add: decode_addr_def a Let_def xor.assoc)
qed

lemma pad4_id: "length body mod 4 = 0 \<Longrightarrow> pad4 body = body"
  by (simp add: pad4.simps)

lemma push_attr_v4:
  assumes "is_ipv4 (sa_ip a)" "length body mod 4 = 0"
  shows "push_attr t (encode_addr a x) body = body @ be16 t @ be16 8 @ encode_addr a x"
proof -
  have "(length body + 12) mod 4 = 0" using assms(2) by presburger
  then show ?thesis using assms(1) by (simp add: push_attr_def length_encode_addr pad4_id)
qed

lemma attr_loop_step:
  assumes "buf = pre @ be16 t @ be16 8 @ v @ post" "off = length pre" "length v = 8" "off + 12 \<le> 20 + len"
  shows "attr_loop buf len off m r = attr_loop buf len (off + 12)
    (if t = ATTR_XOR_MAPPED_ADDRESS then decode_addr v True else m)
    (if t = ATTR_OTHER_ADDRESS then decode_addr v False else r)"
proof -
  have "be16_at off buf = (Ok t :: (proxy_error, u16) res)" using assms by (simp add: be16_at_append)
  moreover have "be16_at (off + 2) buf = (Ok 8 :: (proxy_error, u16) res)" using assms be16_at_append [of "pre @ be16 t" "off + 2" 8] by simp
  moreover have "slice_at (off + 4) (off + 12) buf = (Ok v :: (proxy_error, bytes) res)"
    using assms slice_at_append [of "pre @ be16 t @ be16 8" "off + 4" "off + 12" v] by simp
  moreover have "off + 12 \<le> length buf" using assms(1-3) by simp
  ultimately show ?thesis
    using assms(4) by (subst attr_loop.simps) (simp add: Let_def add.commute [of 12 off])
qed

lemma attr_loop_end: "20 + len < off + 4 \<Longrightarrow> attr_loop buf len off m r = Ok (m, r)"
  by (simp add: attr_loop.simps)

lemma parse_encode_response:
  assumes "is_ipv4 (sa_ip mapped)" "is_ipv4 (sa_ip other)" "length txid = 12"
  shows "parse_binding_response (encode_binding_response txid mapped (Some other)) txid = Ok (mapped, Some other)"
proof -
  let ?v = "encode_addr mapped True" and ?w = "encode_addr other False"
  let ?hd = "be16 BINDING_SUCCESS @ be16 24 @ be32 MAGIC_COOKIE @ txid"
  let ?buf = "?hd @ be16 ATTR_XOR_MAPPED_ADDRESS @ be16 8 @ ?v @ be16 ATTR_OTHER_ADDRESS @ be16 8 @ ?w"
  have len: "length ?v = 8" "length ?w = 8" "length ?hd = 20" using assms by (simp_all add: length_encode_addr)
  have buf: "encode_binding_response txid mapped (Some other) = ?buf"
    using assms(1,2) by (simp add: encode_binding_response_def push_attr_v4 length_encode_addr)
  have "attr_loop ?buf 24 20 None None = attr_loop ?buf 24 32 (Some mapped) None"
    using attr_loop_step [of ?buf ?hd ATTR_XOR_MAPPED_ADDRESS ?v _ 20 24 None None] len assms
    by (simp add: decode_encode_addr stun_consts)
  also have "\<dots> = attr_loop ?buf 24 44 (Some mapped) (Some other)"
    using attr_loop_step [of ?buf "?hd @ be16 ATTR_XOR_MAPPED_ADDRESS @ be16 8 @ ?v" ATTR_OTHER_ADDRESS ?w "[]" 32 24 "Some mapped" None]
      len assms by (simp add: decode_encode_addr stun_consts)
  also have "\<dots> = Ok (Some mapped, Some other)" by (rule attr_loop_end) simp
  finally have attrs: "attr_loop ?buf 24 20 None None = Ok (Some mapped, Some other)" .
  have fields: "be16_at 0 ?buf = (Ok BINDING_SUCCESS :: (proxy_error, u16) res)"
      "be16_at 2 ?buf = (Ok 24 :: (proxy_error, u16) res)" "be32_at 4 ?buf = (Ok MAGIC_COOKIE :: (proxy_error, u32) res)"
      "slice_at 8 20 ?buf = (Ok txid :: (proxy_error, bytes) res)"
    using be16_at_append [of "[]" 0] be16_at_append [of "be16 BINDING_SUCCESS" 2]
      be32_at_append [of "be16 BINDING_SUCCESS @ be16 24" 4]
      slice_at_append [of "be16 BINDING_SUCCESS @ be16 24 @ be32 MAGIC_COOKIE" 8 20 txid] assms(3) by simp_all
  have "length ?buf = 44" using len by simp
  then show ?thesis
    using attrs unfolding buf parse_binding_response_def fields and_then.simps by (simp add: ok_or_def)
qed

lemma serve_socket_answers:
  assumes "length txid = 12"
  shows "serve_socket other from (encode_binding_request txid) = Ok (Some (encode_binding_response txid from (Some other)))"
proof -
  let ?buf = "encode_binding_request txid"
  have "be16_at 0 ?buf = (Ok BINDING_REQUEST :: (proxy_error, u16) res)"
      "be32_at 4 ?buf = (Ok MAGIC_COOKIE :: (proxy_error, u32) res)" "slice_at 8 20 ?buf = (Ok txid :: (proxy_error, bytes) res)"
    using be16_at_append [of "[]" 0] be32_at_append [of "be16 BINDING_REQUEST @ be16 0" 4]
      slice_at_append [of "be16 BINDING_REQUEST @ be16 0 @ be32 MAGIC_COOKIE" 8 20 txid "[]"] assms
    by (simp_all add: encode_binding_request_def)
  moreover have "length ?buf = 20" using assms by (simp add: encode_binding_request_def)
  ultimately show ?thesis by (simp add: serve_socket_def parse_binding_request_def)
qed

section \<open>No input makes the parsers panic\<close>

lemma attr_loop_no_panic: "20 + len \<le> length buf \<Longrightarrow> attr_loop buf len off m r \<noteq> Panic"
proof (induction buf len off m r rule: attr_loop.induct)
  case (1 buf len off mapped other)
  show ?case
  proof (cases "off + 4 \<le> 20 + len")
    case True
    obtain atype alen where
      f: "be16_at off buf = (Ok atype :: (proxy_error, u16) res)" "be16_at (off + 2) buf = (Ok alen :: (proxy_error, u16) res)"
      using True 1(2) by (simp add: slice_simps)
    show ?thesis
    proof (cases "off + 4 + unat alen > length buf")
      case True
      then show ?thesis using f by (subst attr_loop.simps) (simp add: Let_def)
    next
      case False
      then obtain v where v: "slice_at (off + 4) (off + 4 + unat alen) buf = (Ok v :: (proxy_error, bytes) res)"
        by (simp add: slice_simps)
      from 1(1) [OF True refl False 1(2)] show ?thesis
        using f v False True by (subst attr_loop.simps) (simp add: Let_def)
    qed
  qed (simp add: attr_loop.simps)
qed

lemma parse_binding_response_no_panic: "parse_binding_response buf txid \<noteq> Panic"
  using attr_loop_no_panic by (auto simp: parse_binding_response_def slice_simps res_simps)

lemma parse_binding_request_no_panic: "parse_binding_request buf \<noteq> Panic"
  by (auto simp: parse_binding_request_def slice_simps res_simps)

section \<open>Properties\<close>

text \<open>
  A network in which a request reaches the server. The NAT gives the client the source address
  \<open>ext dst\<close> towards \<open>dst\<close>; within the three attempts, after timeouts only, the client receives what the
  listening socket answered.
\<close>

definition answered :: "stun_env \<Rightarrow> (sock_addr \<Rightarrow> sock_addr) \<Rightarrow> (sock_addr \<times> sock_addr) list \<Rightarrow> bool" where
  "answered env ext listeners \<longleftrightarrow> (\<forall>k req. \<forall>(dst, other) \<in> set listeners. \<forall>ans.
     serve_socket other (ext dst) req = Ok (Some ans) \<longrightarrow>
     (\<exists>a < ATTEMPTS. (\<forall>b < a. se_udp env k dst req b = TimedOut) \<and> se_udp env k dst req a = Received ans))"

lemma binding_loop_eq:
  assumes "a < ATTEMPTS" "\<forall>b < a. udp b = TimedOut" "udp a = Received buf" "ATTEMPTS - n \<le> a" "n \<le> ATTEMPTS"
  shows "binding_loop udp txid n = parse_binding_response buf txid"
  using assms(4,5)
proof (induction n)
  case (Suc n)
  show ?case
  proof (cases "ATTEMPTS - Suc n = a")
    case False
    then have "udp (ATTEMPTS - Suc n) = TimedOut" using assms(2) Suc.prems(1) by simp
    moreover have "ATTEMPTS - n \<le> a" using False Suc.prems by linarith
    ultimately show ?thesis using Suc by simp
  qed (use assms(3) in simp)
qed (use assms(1) in simp)

lemma binding_answer:
  assumes "answered env ext listeners" "(dst, other) \<in> set listeners" "length (se_txid env k) = 12"
    "is_ipv4 (sa_ip (ext dst))" "is_ipv4 (sa_ip other)"
  shows "stun_binding env k dst = Ok (ext dst, Some other)"
proof -
  let ?t = "se_txid env k"
  from assms(1,2) serve_socket_answers [OF assms(3), of other "ext dst"] obtain a where
    "a < ATTEMPTS" "\<forall>b < a. se_udp env k dst (encode_binding_request ?t) b = TimedOut"
    "se_udp env k dst (encode_binding_request ?t) a = Received (encode_binding_response ?t (ext dst) (Some other))"
    unfolding answered_def by blast
  from binding_loop_eq [OF this] show ?thesis
    by (simp add: stun_binding_def parse_encode_response assms(3-5))
qed


text \<open>A NAT that keeps one port per destination port, and a network that loses every first attempt.\<close>

definition demo_nat :: "sock_addr \<Rightarrow> sock_addr" where
  "demo_nat dst = SocketAddr (V4 0xCB007107) (sa_port dst + 1)"

definition demo_stun :: stun_env where
  "demo_stun = \<lparr>se_local = Ok (SocketAddr (V4 0) 5000), se_txid = \<lambda>k. replicate 12 (word_of_nat k),
     se_udp = \<lambda>k dst req a. if a = 0 then TimedOut
       else case map_of (serve_combos (SocketAddr (V4 1) 3478) (SocketAddr (V4 2) 3479)) dst of
           None \<Rightarrow> TimedOut
         | Some other \<Rightarrow> (case serve_socket other (demo_nat dst) req of
               Ok (Some ans) \<Rightarrow> Received ans | _ \<Rightarrow> TimedOut)\<rparr>"


section \<open>Where the code departs from its intent\<close>

text \<open>
  The probe socket is bound to the unspecified address, which is then what it reports as its local
  address, and no server sees a packet from there: a client without a NAT is never reported open.
\<close>

lemma open_never_reported:
  assumes "se_local env = Ok local" "sa_ip local = V4 0"
    "\<And>m r. stun_binding env 0 primary = Ok (m, r) \<Longrightarrow> sa_ip m \<noteq> V4 0"
  shows "detect_mapping env primary \<noteq> Ok NatOpen"
proof
  assume "detect_mapping env primary = Ok NatOpen"
  then obtain r where "stun_binding env 0 primary = Ok (local, r)"
    using assms(1) by (auto simp: detect_mapping_def res_simps split: if_splits option.splits)
  from assms(3) [OF this] assms(2) show False by simp
qed

text \<open>
  Any datagram ends a transaction. A late answer to an earlier transaction carries its id, and is
  taken as the failure of the current one although a matching answer could still arrive.
\<close>

lemma late_answer_fails:
  assumes "udp 0 = Received (encode_binding_response txid' mapped (Some other))" "length txid' = 12" "txid \<noteq> txid'"
  shows "binding_loop udp txid ATTEMPTS = Err (PQuic ''not a matching STUN success response'')"
proof -
  let ?buf = "encode_binding_response txid' mapped (Some other)"
  obtain n body where buf: "?buf = be16 BINDING_SUCCESS @ be16 n @ be32 MAGIC_COOKIE @ txid' @ body"
    by (simp add: encode_binding_response_def Let_def)
  have fields: "be16_at 0 ?buf = (Ok BINDING_SUCCESS :: (proxy_error, u16) res)"
      "be16_at 2 ?buf = (Ok n :: (proxy_error, u16) res)" "be32_at 4 ?buf = (Ok MAGIC_COOKIE :: (proxy_error, u32) res)"
      "slice_at 8 20 ?buf = (Ok txid' :: (proxy_error, bytes) res)"
    unfolding buf using be16_at_append [of "[]" 0] be16_at_append [of "be16 BINDING_SUCCESS" 2]
      be32_at_append [of "be16 BINDING_SUCCESS @ be16 n" 4]
      slice_at_append [of "be16 BINDING_SUCCESS @ be16 n @ be32 MAGIC_COOKIE" 8 20 txid' body] assms(2) by simp_all
  have "\<not> length ?buf < 20" using assms(2) by (simp add: buf)
  then have "parse_binding_response ?buf txid = Err (PQuic ''not a matching STUN success response'')"
    using assms(3) unfolding parse_binding_response_def fields and_then.simps by auto
  then show ?thesis using assms(1) by (simp add: ATTEMPTS_def numeral_3_eq_3)
qed

end
