(* ===== verification/Port_Map.thy ===== *)
theory Port_Map
  imports Stun
begin

unbundle bit_operations_syntax

text \<open>
  Explicit port mapping, \<open>src/src/p2p/portmap.rs\<close>: the PCP and NAT-PMP codecs, the discovery of the
  gateway in the kernel's routing table, and the request that tries PCP and falls back to NAT-PMP.
\<close>

section \<open>Gateway discovery\<close>

text \<open>\<open>str::lines\<close> and \<open>str::split_whitespace\<close>.\<close>

definition strip_cr :: "string \<Rightarrow> string" where
  "strip_cr l = (if l \<noteq> [] \<and> last l = CHR 0x0D then butlast l else l)"

lemma split_once_shorter: "split_once c s = Some (a, b) \<Longrightarrow> length b < length s"
  by (simp add: split_once_Some)

function lines :: "string \<Rightarrow> string list" where
  "lines s = (case split_once (CHR 0x0A) s of
      Some (a, b) \<Rightarrow> strip_cr a # lines b
    | None \<Rightarrow> if s = [] then [] else [s])"
  by pat_completeness auto
termination by (relation "measure length") (auto dest: split_once_shorter)

declare lines.simps [simp del]

function split_whitespace :: "string \<Rightarrow> string list" where
  "split_whitespace s = (case dropWhile is_space s of
      [] \<Rightarrow> []
    | c # cs \<Rightarrow> (c # takeWhile (\<lambda>x. \<not> is_space x) cs) # split_whitespace (dropWhile (\<lambda>x. \<not> is_space x) cs))"
  by pat_completeness auto
termination
  by (relation "measure length") (simp_all, metis le_imp_less_Suc length_Cons length_dropWhile_le order_trans order_less_le_trans)

declare split_whitespace.simps [simp del]

text \<open>The columns are little-endian hexadecimal; a line with fewer than three ends the search.\<close>

fun gateway_loop :: "string list \<Rightarrow> ipv4 option" where
  "gateway_loop [] = None"
| "gateway_loop (line # ls) = (case split_whitespace line of
      iface # dest # gw # _ \<Rightarrow>
        if dest = ''00000000''
        then map_option (\<lambda>raw. of_octets4 (rev (nat_be 4 raw))) (parse_uint 16 (2 ^ 32 - 1) gw)
        else gateway_loop ls
    | _ \<Rightarrow> None)"

definition parse_default_gateway :: "string \<Rightarrow> ipv4 option" where
  "parse_default_gateway table = gateway_loop (drop 1 (lines table))"

section \<open>NAT-PMP\<close>

definition natpmp_external_request :: bytes where
  "natpmp_external_request = [0, 0]"

definition parse_natpmp_external :: "bytes \<Rightarrow> (proxy_error, ipv4) res" where
  "parse_natpmp_external resp =
     (if length resp < 12 \<or> resp ! 0 \<noteq> 0 \<or> resp ! 1 \<noteq> 128 then Err (PQuic ''bad NAT-PMP external response'')
      else and_then (be16_at 2 resp) (\<lambda>result.
        if result \<noteq> 0 then Err (PQuic (''NAT-PMP error '' @ show_nat (unat result)))
        else and_then (slice_at 8 12 resp) (\<lambda>o4. Ok (of_octets4 o4))))"

definition natpmp_map_request :: "u16 \<Rightarrow> u16 \<Rightarrow> u32 \<Rightarrow> bytes" where
  "natpmp_map_request internal suggested lifetime =
     (let b = (replicate 12 0)[1 := 1];
          b = write_at 4 (be16 internal) b;
          b = write_at 6 (be16 suggested) b
      in write_at 8 (be32 lifetime) b)"

definition parse_natpmp_map :: "bytes \<Rightarrow> (proxy_error, u16 \<times> u16 \<times> u32) res" where
  "parse_natpmp_map resp =
     (if length resp < 16 \<or> resp ! 0 \<noteq> 0 \<or> resp ! 1 \<noteq> 129 then Err (PQuic ''bad NAT-PMP map response'')
      else and_then (be16_at 2 resp) (\<lambda>result.
        if result \<noteq> 0 then Err (PQuic (''NAT-PMP map error '' @ show_nat (unat result)))
        else and_then (be16_at 8 resp) (\<lambda>internal.
          and_then (be16_at 10 resp) (\<lambda>mapped.
          and_then (be32_at 12 resp) (\<lambda>lifetime. Ok (internal, mapped, lifetime))))))"

section \<open>PCP\<close>

definition PROTO_UDP :: u8 where "PROTO_UDP = 17"

definition v4_mapped :: "ipv4 \<Rightarrow> bytes" where
  "v4_mapped ip = write_at 12 (octets4 ip) ((replicate 16 0)[10 := 0xff, 11 := 0xff])"

definition v4_from_mapped :: "bytes \<Rightarrow> ipv4 option" where
  "v4_from_mapped bs =
     (if length bs \<noteq> 16 \<or> bs ! 10 \<noteq> 0xff \<or> bs ! 11 \<noteq> 0xff then None
      else Some (of_octets4 (sub_slice 12 16 bs)))"

definition pcp_map_request :: "ipv4 \<Rightarrow> bytes \<Rightarrow> u16 \<Rightarrow> u16 \<Rightarrow> u32 \<Rightarrow> bytes" where
  "pcp_map_request client_ip nonce internal_port suggested_port lifetime =
     [2, 1] @ [0, 0] @ be32 lifetime @ v4_mapped client_ip @
     nonce @ [PROTO_UDP] @ [0, 0, 0] @ be16 internal_port @ be16 suggested_port @ v4_mapped 0"

definition parse_pcp_map :: "bytes \<Rightarrow> bytes \<Rightarrow> (proxy_error, ipv4 \<times> u16 \<times> u32) res" where
  "parse_pcp_map resp nonce =
     (if length resp < 60 \<or> resp ! 0 \<noteq> 2 \<or> resp ! 1 \<noteq> 0x81 then Err (PQuic ''bad PCP response'')
      else and_then (byte_at 3 resp) (\<lambda>result.
        if result \<noteq> 0 then Err (PQuic (''PCP error '' @ show_nat (unat result)))
        else and_then (be32_at 4 resp) (\<lambda>lifetime.
          and_then (slice_at 24 36 resp) (\<lambda>echoed.
          if echoed \<noteq> nonce then Err (PQuic ''PCP nonce mismatch'')
          else and_then (be16_at 42 resp) (\<lambda>external_port.
            and_then (slice_at 44 60 resp) (\<lambda>ext.
            and_then (ok_or (PQuic ''PCP returned a non-IPv4 mapping'') (v4_from_mapped ext)) (\<lambda>external_ip.
              Ok (external_ip, external_port, lifetime))))))))"

section \<open>Requesting a mapping\<close>

record port_mapping =
  pm_external :: sock_addr
  pm_lifetime :: u64

definition PORT_MAP_PORT :: u16 where "PORT_MAP_PORT = 5351"
definition PORT_MAP_ATTEMPTS :: nat where "PORT_MAP_ATTEMPTS = 3"

primrec exchange_loop :: "(nat \<Rightarrow> exchanged) \<Rightarrow> nat \<Rightarrow> (proxy_error, bytes) res" where
  "exchange_loop udp 0 = Err (PQuic ''port-mapping server did not respond'')"
| "exchange_loop udp (Suc n) = (case udp (PORT_MAP_ATTEMPTS - Suc n) of
      SendFailed e \<Rightarrow> Err (PIo e)
    | Received buf \<Rightarrow> Ok buf
    | RecvFailed e \<Rightarrow> Err (PIo e)
    | TimedOut \<Rightarrow> exchange_loop udp n)"

text \<open>
  The socket connected to the server: the local address the kernel chose, the random nonce, and
  what each attempt to exchange a request meets.
\<close>

record map_env =
  me_local :: "(string, ip_addr) res"
  me_nonce :: bytes
  me_udp :: "sock_addr \<Rightarrow> bytes \<Rightarrow> nat \<Rightarrow> exchanged"

definition exchange :: "map_env \<Rightarrow> sock_addr \<Rightarrow> bytes \<Rightarrow> (proxy_error, bytes) res" where
  "exchange env server req = exchange_loop (me_udp env server req) PORT_MAP_ATTEMPTS"

definition map_udp_via :: "map_env \<Rightarrow> sock_addr \<Rightarrow> u16 \<Rightarrow> u64 \<Rightarrow> (proxy_error, port_mapping) res" where
  "map_udp_via env server internal_port lifetime =
     and_then (map_err PIo (me_local env)) (\<lambda>ip. case ip of
        V6 _ \<Rightarrow> Err (PConfig ''port mapping is IPv4-only'')
      | V4 client_ip \<Rightarrow>
          (let secs = word_of_nat (min (unat lifetime) (2 ^ 32 - 1));
               natpmp =
                 and_then (exchange env server natpmp_external_request) (\<lambda>ext_resp.
                 and_then (parse_natpmp_external ext_resp) (\<lambda>ext_ip.
                 and_then (exchange env server (natpmp_map_request internal_port 0 secs)) (\<lambda>map_resp.
                 and_then (parse_natpmp_map map_resp) (\<lambda>(_, mapped, life).
                   Ok \<lparr>pm_external = SocketAddr (V4 ext_ip) mapped, pm_lifetime = ucast life\<rparr>))))
           in case exchange env server (pcp_map_request client_ip (me_nonce env) internal_port 0 secs) of
                Panic \<Rightarrow> Panic
              | Err _ \<Rightarrow> natpmp
              | Ok resp \<Rightarrow> (case parse_pcp_map resp (me_nonce env) of
                    Panic \<Rightarrow> Panic
                  | Err _ \<Rightarrow> natpmp
                  | Ok (ip, port, life) \<Rightarrow> Ok \<lparr>pm_external = SocketAddr (V4 ip) port, pm_lifetime = ucast life\<rparr>)))"

definition map_udp :: "map_env \<Rightarrow> string option \<Rightarrow> u16 \<Rightarrow> u64 \<Rightarrow> (proxy_error, port_mapping) res" where
  "map_udp env table internal_port lifetime =
     and_then (ok_or (PConfig ''no default IPv4 gateway for port mapping'') (Option.bind table parse_default_gateway))
       (\<lambda>gateway. map_udp_via env (SocketAddr (V4 gateway) PORT_MAP_PORT) internal_port lifetime)"

section \<open>No answer makes the parsers panic\<close>

lemma parse_natpmp_external_no_panic: "parse_natpmp_external resp \<noteq> Panic"
  by (auto simp: parse_natpmp_external_def slice_simps res_simps)

lemma parse_natpmp_map_no_panic: "parse_natpmp_map resp \<noteq> Panic"
  by (auto simp: parse_natpmp_map_def slice_simps res_simps)

lemma parse_pcp_map_no_panic: "parse_pcp_map resp nonce \<noteq> Panic"
  by (auto simp: parse_pcp_map_def slice_simps res_simps)

lemma exchange_no_panic: "exchange env server req \<noteq> Panic"
proof -
  have "exchange_loop udp n \<noteq> Panic" for udp n by (induction n) (auto split: exchanged.splits)
  then show ?thesis by (simp add: exchange_def)
qed

lemma map_udp_via_no_panic: "me_local env \<noteq> Panic \<Longrightarrow> map_udp_via env server port lifetime \<noteq> Panic"
  using exchange_no_panic parse_natpmp_external_no_panic parse_natpmp_map_no_panic parse_pcp_map_no_panic
  by (auto simp: map_udp_via_def Let_def res_simps split: res.splits ip_addr.splits)

section \<open>Answers of a gateway\<close>

text \<open>
  What a gateway sends when it grants a mapping: the MAP response of RFC 6887 and the two responses
  of RFC 6886, with the epoch and the fields the client ignores left open.
\<close>

definition pcp_grant :: "bytes \<Rightarrow> bytes \<Rightarrow> bytes \<Rightarrow> ipv4 \<Rightarrow> u16 \<Rightarrow> u32 \<Rightarrow> bytes" where
  "pcp_grant nonce epoch rest ip port life =
     [2, 0x81, 0, 0] @ be32 life @ epoch @ nonce @ rest @ be16 port @ v4_mapped ip"

definition natpmp_external_grant :: "bytes \<Rightarrow> ipv4 \<Rightarrow> bytes" where
  "natpmp_external_grant epoch ip = [0, 128, 0, 0] @ epoch @ octets4 ip"

definition natpmp_map_grant :: "bytes \<Rightarrow> u16 \<Rightarrow> u16 \<Rightarrow> u32 \<Rightarrow> bytes" where
  "natpmp_map_grant epoch internal port life = [0, 129, 0, 0] @ epoch @ be16 internal @ be16 port @ be32 life"

lemma v4_mapped_blocks: "v4_mapped ip = replicate 10 0 @ [0xff, 0xff] @ octets4 ip"
  by (simp add: v4_mapped_def write_at_def numeral_eq_Suc)

lemma v4_from_mapped_v4_mapped [simp]: "v4_from_mapped (v4_mapped ip) = Some ip"
  by (simp add: v4_from_mapped_def v4_mapped_blocks nth_append sub_slice_def)

lemma length_v4_mapped [simp]: "length (v4_mapped ip) = 16"
  by (simp add: v4_mapped_blocks)

lemma parse_pcp_grant:
  assumes "length nonce = 12" "length epoch = 16" "length rest = 6"
  shows "parse_pcp_map (pcp_grant nonce epoch rest ip port life) nonce = Ok (ip, port, life)"
proof -
  let ?r = "pcp_grant nonce epoch rest ip port life" and ?h = "[2, 0x81, 0, 0] :: bytes"
  have len: "length ?r = 60" using assms by (simp add: pcp_grant_def)
  have fields: "byte_at 3 ?r = (Ok 0 :: (proxy_error, u8) res)" "be32_at 4 ?r = (Ok life :: (proxy_error, u32) res)"
      "slice_at 24 36 ?r = (Ok nonce :: (proxy_error, bytes) res)" "be16_at 42 ?r = (Ok port :: (proxy_error, u16) res)"
      "slice_at 44 60 ?r = (Ok (v4_mapped ip) :: (proxy_error, bytes) res)"
    using be32_at_append [of ?h 4 life] slice_at_append [of "?h @ be32 life @ epoch" 24 36 nonce]
      be16_at_append [of "?h @ be32 life @ epoch @ nonce @ rest" 42 port]
      slice_at_append [of "?h @ be32 life @ epoch @ nonce @ rest @ be16 port" 44 60 "v4_mapped ip" "[]"] assms
    by (simp_all add: pcp_grant_def byte_at_def)
  have "?r ! 0 = 2" "?r ! 1 = 0x81" by (simp_all add: pcp_grant_def)
  then show ?thesis
    using len unfolding parse_pcp_map_def fields and_then.simps by (simp add: ok_or_def)
qed

lemma parse_natpmp_external_grant:
  assumes "length epoch = 4"
  shows "parse_natpmp_external (natpmp_external_grant epoch ip) = Ok ip"
proof -
  let ?r = "natpmp_external_grant epoch ip"
  have fields: "be16_at 2 ?r = (Ok 0 :: (proxy_error, u16) res)" "slice_at 8 12 ?r = (Ok (octets4 ip) :: (proxy_error, bytes) res)"
    using slice_at_append [of "[0, 128, 0, 0] @ epoch" 8 12 "octets4 ip" "[]"] assms
    by (simp_all add: natpmp_external_grant_def be16_at_def byte_at_def from_be16_def)
  have "length ?r = 12" "?r ! 0 = 0" "?r ! 1 = 128" using assms by (simp_all add: natpmp_external_grant_def)
  then show ?thesis unfolding parse_natpmp_external_def fields and_then.simps by simp
qed

lemma parse_natpmp_map_grant:
  assumes "length epoch = 4"
  shows "parse_natpmp_map (natpmp_map_grant epoch internal port life) = Ok (internal, port, life)"
proof -
  let ?r = "natpmp_map_grant epoch internal port life" and ?h = "[0, 129, 0, 0] @ epoch :: bytes"
  have fields: "be16_at 2 ?r = (Ok 0 :: (proxy_error, u16) res)" "be16_at 8 ?r = (Ok internal :: (proxy_error, u16) res)"
      "be16_at 10 ?r = (Ok port :: (proxy_error, u16) res)" "be32_at 12 ?r = (Ok life :: (proxy_error, u32) res)"
    using be16_at_append [of ?h 8 internal] be16_at_append [of "?h @ be16 internal" 10 port]
      be32_at_append [of "?h @ be16 internal @ be16 port" 12 life "[]"] assms
    by (simp_all add: natpmp_map_grant_def be16_at_def byte_at_def from_be16_def)
  have "length ?r = 16" "?r ! 0 = 0" "?r ! 1 = 129" using assms by (simp_all add: natpmp_map_grant_def)
  then show ?thesis unfolding parse_natpmp_map_def fields and_then.simps by simp
qed

section \<open>Properties\<close>

text \<open>An answer within the attempts, after timeouts only.\<close>

definition replies :: "map_env \<Rightarrow> sock_addr \<Rightarrow> bytes \<Rightarrow> bytes \<Rightarrow> bool" where
  "replies env server req ans \<longleftrightarrow> (\<exists>a < PORT_MAP_ATTEMPTS.
     (\<forall>b < a. me_udp env server req b = TimedOut) \<and> me_udp env server req a = Received ans)"

lemma exchange_replies: "replies env server req ans \<Longrightarrow> exchange env server req = Ok ans"
  by (auto simp: replies_def exchange_def PORT_MAP_ATTEMPTS_def numeral_3_eq_3 less_Suc_eq)

lemma exchange_silent: "\<forall>a < PORT_MAP_ATTEMPTS. me_udp env server req a = TimedOut \<Longrightarrow> \<exists>e. exchange env server req = Err e"
  by (auto simp: exchange_def PORT_MAP_ATTEMPTS_def numeral_3_eq_3)

text \<open>
  C40: a mapping the gateway grants is the one the peer gets. Whatever the gateway answers, the
  request does not panic; a grant over PCP gives the external address and lifetime it names; and
  when the gateway is silent on PCP or answers it in another version, the address and the port it
  grants over NAT-PMP are the ones returned.
\<close>

theorem port_map_granted:
  assumes "me_local env = Ok (V4 client)" "length (me_nonce env) = 12"
    and "secs = word_of_nat (min (unat lifetime) (2 ^ 32 - 1))"
    and "pcp = pcp_map_request client (me_nonce env) internal 0 secs"
  shows "map_udp_via env server internal lifetime \<noteq> Panic \<and>
    (length epoch = 16 \<and> length rest = 6 \<and> replies env server pcp (pcp_grant (me_nonce env) epoch rest ip port life) \<longrightarrow>
       map_udp_via env server internal lifetime =
         Ok \<lparr>pm_external = SocketAddr (V4 ip) port, pm_lifetime = ucast life\<rparr>) \<and>
    (((\<forall>a < PORT_MAP_ATTEMPTS. me_udp env server pcp a = TimedOut) \<or> (\<exists>v bs. v \<noteq> 2 \<and> replies env server pcp (v # bs))) \<and>
     length ea = 4 \<and> length eb = 4 \<and>
     replies env server natpmp_external_request (natpmp_external_grant ea ip) \<and>
     replies env server (natpmp_map_request internal 0 secs) (natpmp_map_grant eb internal port life) \<longrightarrow>
       map_udp_via env server internal lifetime =
         Ok \<lparr>pm_external = SocketAddr (V4 ip) port, pm_lifetime = ucast life\<rparr>)"
    (is "_ \<and> (?pcp \<longrightarrow> ?ok) \<and> (?refused \<and> ?rest \<longrightarrow> ?ok)")
proof (intro conjI impI)
  let ?natpmp = "and_then (exchange env server natpmp_external_request) (\<lambda>ext_resp.
       and_then (parse_natpmp_external ext_resp) (\<lambda>ext_ip.
       and_then (exchange env server (natpmp_map_request internal 0 secs)) (\<lambda>map_resp.
       and_then (parse_natpmp_map map_resp) (\<lambda>(_, mapped, life).
         Ok \<lparr>pm_external = SocketAddr (V4 ext_ip) mapped, pm_lifetime = ucast life\<rparr>))))"
  have eq: "map_udp_via env server internal lifetime = (case exchange env server pcp of
        Panic \<Rightarrow> Panic
      | Err _ \<Rightarrow> ?natpmp
      | Ok resp \<Rightarrow> (case parse_pcp_map resp (me_nonce env) of
            Panic \<Rightarrow> Panic
          | Err _ \<Rightarrow> ?natpmp
          | Ok (ip, port, life) \<Rightarrow> Ok \<lparr>pm_external = SocketAddr (V4 ip) port, pm_lifetime = ucast life\<rparr>))"
    unfolding map_udp_via_def assms(1,3,4) Let_def by simp
  show "map_udp_via env server internal lifetime \<noteq> Panic" by (rule map_udp_via_no_panic) (simp add: assms(1))
  show ?ok if p: ?pcp
  proof -
    have "exchange env server pcp = Ok (pcp_grant (me_nonce env) epoch rest ip port life)" using p exchange_replies by blast
    then show ?ok using p by (simp add: eq parse_pcp_grant assms(2))
  qed
  show ?ok if r: "?refused \<and> ?rest"
  proof -
    have "(\<exists>e. exchange env server pcp = Err e) \<or> (\<exists>resp e. exchange env server pcp = Ok resp \<and> parse_pcp_map resp (me_nonce env) = Err e)"
      using r exchange_silent by (auto simp: parse_pcp_map_def dest: exchange_replies)
    moreover have "exchange env server natpmp_external_request = Ok (natpmp_external_grant ea ip)"
      "exchange env server (natpmp_map_request internal 0 secs) = Ok (natpmp_map_grant eb internal port life)"
      using r exchange_replies by blast+
    ultimately show ?ok
      using r parse_natpmp_external_grant parse_natpmp_map_grant
by (auto simp: eq)
  qed
qed

text \<open>A gateway that speaks NAT-PMP only and answers every second attempt.\<close>

definition demo_gateway :: map_env where
  "demo_gateway = \<lparr>me_local = Ok (V4 0xC0A80102), me_nonce = replicate 12 7,
     me_udp = \<lambda>server req a. if a \<noteq> 1 then TimedOut
       else if req = natpmp_external_request then Received (natpmp_external_grant [0, 0, 0, 1] 0xCB007107)
       else if req = natpmp_map_request 5000 0 3600 then Received (natpmp_map_grant [0, 0, 0, 1] 5000 40000 3600)
       else TimedOut\<rparr>"

theorem port_map_granted_witness:
  "map_udp_via demo_gateway (SocketAddr (V4 0xC0A80101) 5351) 5000 3600 =
     Ok \<lparr>pm_external = SocketAddr (V4 0xCB007107) 40000, pm_lifetime = 3600\<rparr>"
proof -
  let ?s = "SocketAddr (V4 0xC0A80101) 5351"
  have pcp: "length (pcp_map_request c (replicate 12 7) i 0 l) = 60" for c i l by (simp add: pcp_map_request_def)
  have req: "length (natpmp_map_request i 0 l) = 12" for i l by (simp add: natpmp_map_request_def buf_simps Let_def)
  have "me_udp demo_gateway ?s (pcp_map_request 0xC0A80102 (me_nonce demo_gateway) 5000 0 3600) a = TimedOut" for a
    using pcp [of "0xC0A80102" 5000 3600] req [of 5000 3600] by (auto simp: demo_gateway_def natpmp_external_request_def)
  moreover have "replies demo_gateway ?s natpmp_external_request (natpmp_external_grant [0, 0, 0, 1] 0xCB007107)"
    "replies demo_gateway ?s (natpmp_map_request 5000 0 3600) (natpmp_map_grant [0, 0, 0, 1] 5000 40000 3600)"
    using req [of 5000 3600]
    by (auto simp: replies_def demo_gateway_def PORT_MAP_ATTEMPTS_def natpmp_external_request_def intro!: exI [of _ 1])
  moreover have "me_local demo_gateway = Ok (V4 0xC0A80102)" "length (me_nonce demo_gateway) = 12"
    by (simp_all add: demo_gateway_def)
  ultimately show ?thesis
    using port_map_granted [where env = demo_gateway and client = "0xC0A80102" and secs = "3600" and lifetime = "3600"
      and internal = "5000" and server = ?s and ip = "0xCB007107" and port = "40000" and life = "3600"
      and ea = "[0, 0, 0, 1]" and eb = "[0, 0, 0, 1]", OF _ _ _ refl]
    by simp
qed

text \<open>
  The gateway of a routing table whose first route, after the header line, is the default one. The
  columns are separated by tabs.
\<close>

lemma lines_step: "CHR 0x0A \<notin> set a \<Longrightarrow> lines (a @ CHR 0x0A # b) = strip_cr a # lines b"
  by (subst lines.simps) (simp add: split_once_Some [THEN iffD2])

lemma split_whitespace_step:
  assumes "a \<noteq> []" "\<forall>c \<in> set a. \<not> is_space c" "is_space w"
  shows "split_whitespace (a @ w # b) = a # split_whitespace b"
proof -
  have skip: "split_whitespace (w # b) = split_whitespace b"
    using assms(3) by (subst (1 2) split_whitespace.simps) simp
  obtain c cs where a: "a = c # cs" using assms(1) by (cases a) auto
  have "takeWhile (\<lambda>x. \<not> is_space x) (cs @ w # b) = cs" "dropWhile (\<lambda>x. \<not> is_space x) (cs @ w # b) = w # b"
    using assms(2,3) by (simp_all add: a)
  then show ?thesis using assms(2) skip by (subst split_whitespace.simps) (simp add: a)
qed

lemma gateway_of_table:
  assumes "CHR 0x0A \<notin> set header" "CHR 0x0A \<notin> set (iface @ gw @ rest)"
    "iface \<noteq> []" "gw \<noteq> []" "\<forall>c \<in> set (iface @ gw). \<not> is_space c" "parse_uint 16 (2 ^ 32 - 1) gw = Some raw"
  shows "parse_default_gateway (header @ CHR 0x0A # (iface @ CHR 0x09 # ''00000000'' @ CHR 0x09 # gw @ CHR 0x09 # rest) @ CHR 0x0A # below) =
    Some (of_octets4 (rev (nat_be 4 raw)))"
proof -
  let ?l = "iface @ CHR 0x09 # ''00000000'' @ CHR 0x09 # gw @ CHR 0x09 # rest"
  have tab: "is_space (CHR 0x09)" by (simp add: is_space_def)
  have zeros: "\<forall>c \<in> set ''00000000''. \<not> is_space c" by (simp add: is_space_def)
  have "lines (header @ CHR 0x0A # ?l @ CHR 0x0A # below) = strip_cr header # strip_cr ?l # lines below"
    using assms(1,2) by (simp add: lines_step lines_step [of ?l, simplified])
  moreover have "\<exists>r'. strip_cr ?l = iface @ CHR 0x09 # ''00000000'' @ CHR 0x09 # gw @ CHR 0x09 # r'"
  proof (cases rest rule: rev_cases)
    case (snoc xs x)
    have "?l = (iface @ CHR 0x09 # ''00000000'' @ CHR 0x09 # gw @ CHR 0x09 # xs) @ [x]" by (simp add: snoc)
    then show ?thesis unfolding strip_cr_def by (metis append_is_Nil_conv butlast_snoc snoc)
  qed (auto simp: strip_cr_def)
  then obtain r' where "strip_cr ?l = iface @ CHR 0x09 # ''00000000'' @ CHR 0x09 # gw @ CHR 0x09 # r'" by blast
  moreover have "split_whitespace (iface @ CHR 0x09 # ''00000000'' @ CHR 0x09 # gw @ CHR 0x09 # r') =
      iface # ''00000000'' # gw # split_whitespace r'"
    using split_whitespace_step [OF _ zeros tab] split_whitespace_step [OF assms(3) _ tab] split_whitespace_step [OF assms(4) _ tab] assms(5)
    by simp
  ultimately show ?thesis using assms(6) by (simp add: parse_default_gateway_def)
qed

section \<open>Where the code departs from its intent\<close>

text \<open>
  \<open>v4_from_mapped\<close> is to recover an address from an IPv4-mapped one, if it is one. It does not look
  at the first ten octets, so it takes IPv6 addresses that are not IPv4-mapped.
\<close>

lemma v4_from_mapped_ignores_prefix:
  "length p = 10 \<Longrightarrow> v4_from_mapped (p @ [0xff, 0xff] @ octets4 ip) = Some ip"
  by (simp add: v4_from_mapped_def nth_append sub_slice_def)

end
