(* ===== verification/Punch.thy ===== *)
theory Punch
  imports Net_Types Proxy_Error
begin

text \<open>
  What a peer offers for the hole punch: the strategies and direct modes of
  \<open>src/src/p2p/strategy.rs\<close>, and the prediction of the next port of a NAT that allocates
  sequentially, \<open>src/src/p2p/predict.rs\<close>.
\<close>

section \<open>Strategies\<close>

datatype punch_strategy = PunchBasic | PunchPredict | PunchBirthday | PunchRelayAssisted

datatype direct_mode = DirectReflexive | DirectFull | DirectOff

fun strategy_as_str :: "punch_strategy \<Rightarrow> string" where
  "strategy_as_str PunchBasic = ''basic''"
| "strategy_as_str PunchPredict = ''predict''"
| "strategy_as_str PunchBirthday = ''birthday''"
| "strategy_as_str PunchRelayAssisted = ''relay-assisted''"

fun direct_as_str :: "direct_mode \<Rightarrow> string" where
  "direct_as_str DirectReflexive = ''reflexive''"
| "direct_as_str DirectFull = ''full''"
| "direct_as_str DirectOff = ''off''"

text \<open>The \<open>Debug\<close> form of a string, for ASCII.\<close>

definition escape_debug :: "char \<Rightarrow> string" where
  "escape_debug c =
     (let n = (of_char c :: nat) in
      if n = 0 then [CHR 0x5C, CHR ''0'']
      else if n = 9 then [CHR 0x5C, CHR ''t'']
      else if n = 10 then [CHR 0x5C, CHR ''n'']
      else if n = 13 then [CHR 0x5C, CHR ''r'']
      else if n = 34 \<or> n = 92 then [CHR 0x5C, c]
      else if n < 32 \<or> n = 127 then [CHR 0x5C, CHR ''u'', CHR 0x7B] @ show_radix 16 n @ [CHR 0x7D]
      else [c])"

definition debug_str :: "string \<Rightarrow> string" where
  "debug_str s = [CHR 0x22] @ concat (map escape_debug s) @ [CHR 0x22]"

definition strategy_from_str :: "string \<Rightarrow> (string, punch_strategy) res" where
  "strategy_from_str s =
     (let other = map to_lower (trim s) in
      if other = ''basic'' then Ok PunchBasic
      else if other = ''predict'' then Ok PunchPredict
      else if other = ''birthday'' then Ok PunchBirthday
      else if other = ''relay-assisted'' \<or> other = ''relay_assisted'' \<or> other = ''relayassisted'' then Ok PunchRelayAssisted
      else Err (''unknown punch strategy '' @ debug_str other @ '' (basic|predict|birthday|relay-assisted)''))"

definition direct_from_str :: "string \<Rightarrow> (string, direct_mode) res" where
  "direct_from_str s =
     (let other = map to_lower (trim s) in
      if other = ''reflexive'' then Ok DirectReflexive
      else if other = ''full'' then Ok DirectFull
      else if other = ''off'' \<or> other = ''none'' \<or> other = ''relay'' then Ok DirectOff
      else Err (''unknown direct mode '' @ debug_str other @ '' (reflexive|full|off)''))"

definition offers_host :: "direct_mode \<Rightarrow> bool" where
  "offers_host m \<longleftrightarrow> m = DirectFull"

definition punches :: "direct_mode \<Rightarrow> bool" where
  "punches m \<longleftrightarrow> m \<noteq> DirectOff"

section \<open>Port prediction\<close>

definition SAMPLE_COUNT :: nat where "SAMPLE_COUNT = 3"
definition MAX_STRIDE :: int where "MAX_STRIDE = 8"
definition PREDICT_SPAN :: u16 where "PREDICT_SPAN = 6"

datatype port_behaviour = Sequential int | RandomPorts

text \<open>The differences of neighbours, \<open>ports.windows(2)\<close>.\<close>

fun port_diffs :: "u16 list \<Rightarrow> int list" where
  "port_diffs (p # q # ps) = (uint q - uint p) # port_diffs (q # ps)"
| "port_diffs _ = []"

definition classify :: "u16 list \<Rightarrow> port_behaviour" where
  "classify ports =
     (if length ports < 2 then RandomPorts
      else
        (let diffs = port_diffs ports; first = hd diffs in
         if list_all (\<lambda>d. d = first) diffs \<and> \<bar>first\<bar> \<le> MAX_STRIDE then Sequential first else RandomPorts))"

definition predict_range :: "ip_addr \<Rightarrow> u16 \<Rightarrow> int \<Rightarrow> u16 \<Rightarrow> sock_addr list" where
  "predict_range ip last_port stride span =
     (let base = uint last_port + stride;
          lo = max (base - uint span) 1;
          hi = min (base + uint span) 65535
      in map (\<lambda>p. SocketAddr ip (word_of_int p)) [lo..hi])"

text \<open>Each sample is a bind session: an error to connect, or the address the relay observed, if it did.\<close>

primrec sample :: "(nat \<Rightarrow> (proxy_error, sock_addr option) res) \<Rightarrow> nat \<Rightarrow> (proxy_error, sock_addr list) res" where
  "sample connect 0 = Ok []"
| "sample connect (Suc n) =
     and_then (sample connect n) (\<lambda>seen.
     and_then (connect n) (\<lambda>observed. Ok (case observed of None \<Rightarrow> seen | Some a \<Rightarrow> seen @ [a])))"

definition predicted_candidates :: "(nat \<Rightarrow> (proxy_error, sock_addr option) res) \<Rightarrow> sock_addr list" where
  "predicted_candidates connect = (case sample connect SAMPLE_COUNT of
      Ok samples \<Rightarrow>
        if samples = [] then []
        else (case classify (map sa_port samples) of
            RandomPorts \<Rightarrow> []
          | Sequential stride \<Rightarrow> predict_range (sa_ip (last samples)) (sa_port (last samples)) stride PREDICT_SPAN)
    | _ \<Rightarrow> [])"

section \<open>Lemmas\<close>

text \<open>Every mode is read back from its name, in any case and with white space around it.\<close>

lemma trim_spaces:
  assumes "\<forall>c \<in> set a. is_space c" "\<forall>c \<in> set b. is_space c" "s \<noteq> []" "\<not> is_space (hd s)" "\<not> is_space (last s)"
  shows "trim (a @ s @ b) = s"
proof -
  have "dropWhile is_space (a @ s @ b) = s @ b" using assms(1,3,4) by (cases s) auto
  moreover have "dropWhile is_space (rev b @ y # ys) = y # ys" if "\<not> is_space y" for y ys
    using dropWhile_append2 [of "rev b" is_space "y # ys"] assms(2) that by simp
  then have "dropWhile is_space (rev (s @ b)) = rev s"
    using assms(3,5) by (cases s rule: rev_cases) auto
  ultimately show ?thesis by (simp add: trim_def)
qed

lemma trim_name:
  assumes "\<forall>c \<in> set a. is_space c" "\<forall>c \<in> set b. is_space c" "map to_lower s = n"
    "n \<noteq> []" "\<not> is_space (hd n)" "\<not> is_space (last n)"
  shows "trim (a @ s @ b) = s"
proof (rule trim_spaces [OF assms(1,2)])
  have visible: "\<not> is_space (to_lower c) \<Longrightarrow> \<not> is_space c" for c
    by (auto simp: to_lower_def is_space_def Let_def)
  show "s \<noteq> []" using assms(3,4) by auto
  then show "\<not> is_space (hd s)" "\<not> is_space (last s)"
    using assms(5,6) visible by (auto simp: hd_map last_map simp flip: assms(3))
qed

lemma strategy_roundtrip:
  assumes "\<forall>c \<in> set a. is_space c" "\<forall>c \<in> set b. is_space c" "map to_lower s = strategy_as_str m"
  shows "strategy_from_str (a @ s @ b) = Ok m"
proof -
  have "trim (a @ s @ b) = s"
    by (rule trim_name [OF assms]) (cases m; simp add: is_space_def)+
  then show ?thesis using assms(3) by (cases m) (simp_all add: strategy_from_str_def)
qed

lemma direct_roundtrip:
  assumes "\<forall>c \<in> set a. is_space c" "\<forall>c \<in> set b. is_space c" "map to_lower s = direct_as_str m"
  shows "direct_from_str (a @ s @ b) = Ok m"
proof -
  have "trim (a @ s @ b) = s"
    by (rule trim_name [OF assms]) (cases m; simp add: is_space_def)+
  then show ?thesis using assms(3) by (cases m) (simp_all add: direct_from_str_def)
qed

text \<open>
  Prediction covers a sequential NAT. When the three samples come from a NAT that moves by a
  constant small stride, the candidates are of its address, at most thirteen, and contain every
  port within six of the next one.
\<close>

lemma prediction_covers:
  assumes "\<And>k. k < SAMPLE_COUNT \<Longrightarrow> connect k = Ok (Some (SocketAddr ip (p k)))"
    "uint (p 1) = uint (p 0) + stride" "uint (p 2) = uint (p 1) + stride" "\<bar>stride\<bar> \<le> 8"
    "\<bar>uint q - (uint (p 2) + stride)\<bar> \<le> 6" "q \<noteq> 0"
  shows "SocketAddr ip q \<in> set (predicted_candidates connect) \<and>
    length (predicted_candidates connect) \<le> 13 \<and> (\<forall>a \<in> set (predicted_candidates connect). sa_ip a = ip)"
proof -
  have c: "connect 0 = Ok (Some (SocketAddr ip (p 0)))" "connect (Suc 0) = Ok (Some (SocketAddr ip (p 1)))"
      "connect 2 = Ok (Some (SocketAddr ip (p 2)))"
    using assms(1) [of 0] assms(1) [of 1] assms(1) [of 2] by (simp_all add: SAMPLE_COUNT_def)
  have "sample connect SAMPLE_COUNT = Ok [SocketAddr ip (p 0), SocketAddr ip (p 1), SocketAddr ip (p 2)]"
    using c by (simp add: SAMPLE_COUNT_def numeral_3_eq_3 numeral_2_eq_2)
  moreover have "classify [p 0, p 1, p 2] = Sequential stride"
    using assms(2-4) by (simp add: classify_def MAX_STRIDE_def)
  ultimately have eq: "predicted_candidates connect = predict_range ip (p 2) stride 6"
    by (simp add: predicted_candidates_def PREDICT_SPAN_def)
  have "uint q \<le> 65535" using unsigned_less [of q, where ?'a = int] by simp
  moreover have "uint q \<noteq> 0" using assms(6) by (simp add: word_uint_eq_iff)
  then have "1 \<le> uint q" using unsigned_greater_eq [of q, where ?'a = int] by linarith
  ultimately have "uint q \<in> {max (uint (p 2) + stride - 6) 1 .. min (uint (p 2) + stride + 6) 65535}"
    using assms(5) by auto
  then have "SocketAddr ip q \<in> set (predict_range ip (p 2) stride 6)"
    by (force simp: predict_range_def Let_def)
  then show ?thesis unfolding eq by (auto simp: predict_range_def Let_def)
qed

text \<open>A NAT whose ports move otherwise, or that was not observed twice, gets no prediction.\<close>

lemma no_prediction: "classify (map sa_port samples) = RandomPorts \<Longrightarrow> sample connect SAMPLE_COUNT = Ok samples \<Longrightarrow>
    predicted_candidates connect = []"
  by (simp add: predicted_candidates_def)

end
