(* ===== verification/Client.thy ===== *)
theory Client
  imports Server
begin

text \<open>
  The CONNECT-IP client, \<open>Tunnel\<close> and \<open>TunnelClient\<close> of \<open>src/src/client.rs\<close>: the demultiplexer of a
  connection, the request and the life of a tunnel. Both transports of the client behave alike;
  what the connection does with a datagram and what arrives on the stream are parameters. A
  channel is a bounded queue, named by a number; it is open while its receiver lives.
\<close>

section \<open>Channels and the demultiplexer\<close>

record channel =
  ch_queue :: "bytes list"
  ch_depth :: nat
  ch_open :: bool

definition TUNNEL_QUEUE_DEPTH :: nat where
  "TUNNEL_QUEUE_DEPTH = 256"

definition ch_new :: "nat \<Rightarrow> channel" where
  "ch_new depth = \<lparr>ch_queue = [], ch_depth = depth, ch_open = True\<rparr>"

definition try_send :: "bytes \<Rightarrow> channel \<Rightarrow> channel" where
  "try_send p c = (if ch_open c \<and> length (ch_queue c) < ch_depth c then c\<lparr>ch_queue := ch_queue c @ [p]\<rparr> else c)"

text \<open>A connection: the senders by Quarter Stream ID, the channels, and the next unused name.\<close>

record client_conn =
  cc_demux :: "u64 \<rightharpoonup> chan"
  cc_chans :: "chan \<Rightarrow> channel"
  cc_next :: chan

definition dispatch_client_datagram :: "bytes \<Rightarrow> client_conn \<Rightarrow> client_conn" where
  "dispatch_client_datagram wire c = (case decode_quic_datagram wire of
      Ok (qsid, datagram) \<Rightarrow>
        if dg_context_id datagram = CONTEXT_ID_IP_PACKET then
          (case cc_demux c qsid of
             Some tx \<Rightarrow> c\<lparr>cc_chans := (cc_chans c)(tx := try_send (dg_payload datagram) (cc_chans c tx))\<rparr>
           | None \<Rightarrow> c)
        else c
    | _ \<Rightarrow> c)"

section \<open>Tunnels\<close>

record client_tunnel =
  tc_stream :: req_stream
  tc_qsid :: u64
  tc_rx :: "chan option"
  tc_capsules :: capsule_buffer
  tc_assigned :: "assigned_address list"
  tc_routes :: "ip_address_range list"

definition tunnel_request :: "auth_api \<Rightarrow> client_auth \<Rightarrow> string option \<Rightarrow> u8 option \<Rightarrow> request" where
  "tunnel_request crypto auth target ipproto =
     \<lparr>rq_method = ''CONNECT'', rq_protocol = Some CONNECT_IP_PROTOCOL,
      rq_headers = apply_auth crypto auth [''capsule-protocol'' \<mapsto> ''?1''],
      rq_path = request_path target ipproto\<rparr>"

text \<open>
  \<open>establish\<close>, once the request is on the stream: \<open>response\<close> is the error of the transport, or the
  status and its text.
\<close>

definition tc_establish ::
    "(proxy_error, nat \<times> string) res \<Rightarrow> req_stream \<Rightarrow> client_conn \<Rightarrow> (proxy_error, client_tunnel) res \<times> client_conn" where
  "tc_establish response stream c = (case response of
      Panic \<Rightarrow> (Panic, c)
    | Err e \<Rightarrow> (Err e, c)
    | Ok (status, status_text) \<Rightarrow>
        if status \<noteq> 200 then (Err (PHttp (''proxy rejected tunnel: '' @ status_text)), c)
        else
          (let qsid = quarter_stream_id (st_id stream); tx = cc_next c in
           (Ok \<lparr>tc_stream = stream, tc_qsid = qsid, tc_rx = Some tx, tc_capsules = cb_new,
                tc_assigned = [], tc_routes = []\<rparr>,
            c\<lparr>cc_demux := (cc_demux c)(qsid \<mapsto> tx),
              cc_chans := (cc_chans c)(tx := ch_new TUNNEL_QUEUE_DEPTH), cc_next := tx + 1\<rparr>)))"

text \<open>Every tunnel of a client is opened this way, on the connection they share.\<close>

definition open_tunnel ::
    "(request \<Rightarrow> (proxy_error, nat \<times> string) res) \<Rightarrow> auth_api \<Rightarrow> client_auth \<Rightarrow> string option \<Rightarrow> u8 option \<Rightarrow>
     req_stream \<Rightarrow> client_conn \<Rightarrow> (proxy_error, client_tunnel) res \<times> client_conn" where
  "open_tunnel proxy crypto auth target ipproto stream c =
     tc_establish (proxy (tunnel_request crypto auth target ipproto)) stream c"

definition apply_capsule :: "capsule \<Rightarrow> client_tunnel \<Rightarrow> client_tunnel" where
  "apply_capsule capsule t = (case capsule of
      CapAddressAssign assign \<Rightarrow> t\<lparr>tc_assigned := assigned_addresses assign\<rparr>
    | CapRouteAdvertisement ra \<Rightarrow> t\<lparr>tc_routes := ip_address_ranges ra\<rparr>
    | _ \<Rightarrow> t)"

text \<open>The inner loop over the buffered capsules.\<close>

function apply_capsules :: "client_tunnel \<Rightarrow> capsule list \<Rightarrow> (proxy_error, capsule list) res \<times> client_tunnel" where
  "apply_capsules t seen = (case next_capsule (tc_capsules t) of
      (Ok None, b) \<Rightarrow> (Ok seen, t\<lparr>tc_capsules := b\<rparr>)
    | (Ok (Some c), b) \<Rightarrow> apply_capsules (apply_capsule c (t\<lparr>tc_capsules := b\<rparr>)) (seen @ [c])
    | (Err e, b) \<Rightarrow> (Err (PDecode e), t\<lparr>tc_capsules := b\<rparr>)
    | (Panic, b) \<Rightarrow> (Panic, t\<lparr>tc_capsules := b\<rparr>))"
  by pat_completeness auto
termination
  by (relation "measure (\<lambda>(t, seen). length (cb_buf (tc_capsules t)))")
     (auto simp: apply_capsule_def dest!: next_capsule_shorter [OF sym] split: capsule.splits)

declare apply_capsules.simps [simp del]

text \<open>
  What \<open>recv_data\<close> gives, call by call: a chunk, the end of the stream, or an error. When the
  list is used up the client waits, and the result is \<open>None\<close>.
\<close>

type_synonym incoming = "(string, bytes list option) res list"

fun process_next_capsules ::
    "incoming \<Rightarrow> client_tunnel \<Rightarrow> (proxy_error, capsule list) res option \<times> client_tunnel \<times> incoming" where
  "process_next_capsules [] t = (None, t, [])"
| "process_next_capsules (d # ds) t = (case d of
      Ok (Some chunk) \<Rightarrow>
        (case apply_capsules (t\<lparr>tc_capsules := cb_push chunk (tc_capsules t)\<rparr>) [] of
           (Ok [], t) \<Rightarrow> process_next_capsules ds t
         | (r, t) \<Rightarrow> (Some r, t, ds))
    | Ok None \<Rightarrow> (Some (Err (PHttp ''proxy closed the tunnel'')), t, ds)
    | Err e \<Rightarrow> (Some (Err (of_h3_error e)), t, ds)
    | Panic \<Rightarrow> (Some Panic, t, ds))"

lemma process_next_shorter: "process_next_capsules ds t = (Some r, t', ds') \<Longrightarrow> length ds' < length ds"
  by (induction ds arbitrary: t) (auto intro: less_SucI split: res.splits option.splits prod.splits list.splits)

function wait_for_assignment ::
    "incoming \<Rightarrow> client_tunnel \<Rightarrow> (proxy_error, unit) res option \<times> client_tunnel \<times> incoming" where
  "wait_for_assignment ds t =
     (if tc_assigned t = [] \<or> tc_routes t = [] then
        (case process_next_capsules ds t of
           (Some (Ok seen), t', ds') \<Rightarrow> wait_for_assignment ds' t'
         | (Some (Err e), t', ds') \<Rightarrow> (Some (Err e), t', ds')
         | (Some Panic, t', ds') \<Rightarrow> (Some Panic, t', ds')
         | (None, t', ds') \<Rightarrow> (None, t', ds'))
      else (Some (Ok ()), t, ds))"
  by pat_completeness auto
termination
  by (relation "measure (\<lambda>(ds, t). length ds)") (auto dest: process_next_shorter [OF sym])

declare wait_for_assignment.simps [simp del]

definition tc_ipv4_address :: "client_tunnel \<Rightarrow> ipv4 option" where
  "tc_ipv4_address t = (case filter (is_ipv4 \<circ> aa_ip_address) (tc_assigned t) of
      [] \<Rightarrow> None
    | a # _ \<Rightarrow> (case aa_ip_address a of V4 ip \<Rightarrow> Some ip | V6 _ \<Rightarrow> None))"

definition tc_send_capsule :: "capsule \<Rightarrow> client_tunnel \<Rightarrow> (proxy_error, unit) res \<times> client_tunnel" where
  "tc_send_capsule capsule t = (case encode_capsule capsule of
      Ok buf \<Rightarrow> (case send_frame (Data buf) (tc_stream t) of (r, s) \<Rightarrow> (r, t\<lparr>tc_stream := s\<rparr>))
    | Err e \<Rightarrow> (Err (PDecode e), t)
    | Panic \<Rightarrow> (Panic, t))"

definition send_route_advertisement ::
    "ip_address_range list \<Rightarrow> client_tunnel \<Rightarrow> (proxy_error, unit) res \<times> client_tunnel" where
  "send_route_advertisement ranges t =
     tc_send_capsule (CapRouteAdvertisement \<lparr>ip_address_ranges = ranges\<rparr>) t"

text \<open>Send the request, then read until an assignment arrives.\<close>

function await_assign ::
    "incoming \<Rightarrow> client_tunnel \<Rightarrow> (proxy_error, assigned_address list) res option \<times> client_tunnel \<times> incoming" where
  "await_assign ds t = (case process_next_capsules ds t of
      (Some (Ok seen), t', ds') \<Rightarrow>
        if list_ex (\<lambda>c. case c of CapAddressAssign _ \<Rightarrow> True | _ \<Rightarrow> False) seen
        then (Some (Ok (tc_assigned t')), t', ds')
        else await_assign ds' t'
    | (Some (Err e), t', ds') \<Rightarrow> (Some (Err e), t', ds')
    | (Some Panic, t', ds') \<Rightarrow> (Some Panic, t', ds')
    | (None, t', ds') \<Rightarrow> (None, t', ds'))"
  by pat_completeness auto
termination
  by (relation "measure (\<lambda>(ds, t). length ds)") (auto dest: process_next_shorter [OF sym])

declare await_assign.simps [simp del]

definition request_address ::
    "requested_address \<Rightarrow> incoming \<Rightarrow> client_tunnel \<Rightarrow>
     (proxy_error, assigned_address list) res option \<times> client_tunnel \<times> incoming" where
  "request_address request ds t =
     (case tc_send_capsule (CapAddressRequest \<lparr>requested_addresses = [request]\<rparr>) t of
        (Ok _, t') \<Rightarrow> await_assign ds t'
      | (Err e, t') \<Rightarrow> (Some (Err e), t', ds)
      | (Panic, t') \<Rightarrow> (Some Panic, t', ds))"

section \<open>Packets\<close>

text \<open>
  The handle for sending: what the connection reports as the size of its datagrams, and what it
  does with one, are parameters. The result is the datagram that was handed over.
\<close>

definition send_packet ::
    "nat option \<Rightarrow> (bytes \<Rightarrow> (string, unit) res) \<Rightarrow> u64 \<Rightarrow> bytes \<Rightarrow> (proxy_error, bytes) res" where
  "send_packet max_size send_datagram qsid packet =
     and_then (unwrap (encode_quic_datagram qsid (dg_ip_packet packet))) (\<lambda>wire.
     if (case max_size of Some m \<Rightarrow> length wire > m | None \<Rightarrow> False) then Err (PForwarding MtuExceeded)
     else and_then (map_err of_quic_error (send_datagram wire)) (\<lambda>_. Ok wire))"

definition tc_send_packet ::
    "nat option \<Rightarrow> (bytes \<Rightarrow> (string, unit) res) \<Rightarrow> client_tunnel \<Rightarrow> bytes \<Rightarrow> (proxy_error, bytes) res" where
  "tc_send_packet max_size send_datagram t packet = send_packet max_size send_datagram (tc_qsid t) packet"

definition max_packet_size :: "nat option \<Rightarrow> u64 \<Rightarrow> nat option" where
  "max_packet_size max_size qsid = Option.bind max_size (\<lambda>m. max_ip_packet_size m qsid)"

definition tc_max_packet_size :: "nat option \<Rightarrow> client_tunnel \<Rightarrow> nat option" where
  "tc_max_packet_size max_size t = max_packet_size max_size (tc_qsid t)"

text \<open>
  The next packet of the tunnel. The channel is closed when the demultiplexer has no sender for it
  any more; an open and empty channel makes the call wait.
\<close>

definition recv_packet :: "client_tunnel \<Rightarrow> client_conn \<Rightarrow> (proxy_error, bytes) res option \<times> client_conn" where
  "recv_packet t c = (case tc_rx t of
      None \<Rightarrow> (Some (Err (PHttp ''packet receiver was taken'')), c)
    | Some rx \<Rightarrow> (case ch_queue (cc_chans c rx) of
          p # ps \<Rightarrow> (Some (Ok p), c\<lparr>cc_chans := (cc_chans c)(rx := (cc_chans c rx)\<lparr>ch_queue := ps\<rparr>)\<rparr>)
        | [] \<Rightarrow> if rx \<in> ran (cc_demux c) then (None, c) else (Some (Err (PHttp ''connection closed'')), c)))"

definition take_packet_rx :: "client_tunnel \<Rightarrow> chan option \<times> client_tunnel" where
  "take_packet_rx t = (tc_rx t, t\<lparr>tc_rx := None\<rparr>)"

definition close_rx :: "chan option \<Rightarrow> client_conn \<Rightarrow> client_conn" where
  "close_rx rx c = (case rx of None \<Rightarrow> c
     | Some rx \<Rightarrow> c\<lparr>cc_chans := (cc_chans c)(rx := (cc_chans c rx)\<lparr>ch_open := False\<rparr>)\<rparr>)"

definition set_packet_sink :: "chan \<Rightarrow> client_tunnel \<Rightarrow> client_conn \<Rightarrow> client_tunnel \<times> client_conn" where
  "set_packet_sink sink t c =
     (let c = close_rx (tc_rx t) c in (t\<lparr>tc_rx := None\<rparr>, c\<lparr>cc_demux := (cc_demux c)(tc_qsid t \<mapsto> sink)\<rparr>))"

definition tc_close :: "client_tunnel \<Rightarrow> client_conn \<Rightarrow> req_stream \<times> client_conn" where
  "tc_close t c =
     (let c = c\<lparr>cc_demux := (cc_demux c)(tc_qsid t := None)\<rparr> in
      (snd (send_frame Finish (tc_stream t)), close_rx (tc_rx t) c))"

end
