(* ===== verification/Client_Properties.thy ===== *)
theory Client_Properties
  imports Client Proxy_Run
begin

text \<open>
  The client against the proxy: a packet one client sends arrives at the client that leases its
  destination, and a client whose proxy announces a tunnel learns exactly what was announced.
\<close>

section \<open>Packets\<close>

lemma send_packet_Ok:
  assumes "qsid \<le> VARINT_MAX" "\<And>w. send w = Ok ()"
    "\<And>m. max_size = Some m \<Longrightarrow> \<exists>n. max_ip_packet_size m qsid = Some n \<and> length p \<le> n"
  shows "\<exists>wire. send_packet max_size send qsid p = Ok wire \<and> decode_quic_datagram wire = Ok (qsid, dg_ip_packet p) \<and>
    encode_quic_datagram qsid (dg_ip_packet p) = Ok wire"
proof -
  have ctx: "dg_context_id (dg_ip_packet p) \<le> VARINT_MAX" by (simp add: dg_ip_packet_def CONTEXT_ID_IP_PACKET_def)
  from encode_quic_datagram_Ok [OF assms(1) ctx] obtain wire where
    w: "encode_quic_datagram qsid (dg_ip_packet p) = Ok wire" "decode_quic_datagram wire = Ok (qsid, dg_ip_packet p)"
    by blast
  have "\<not> (case max_size of Some m \<Rightarrow> length wire > m | None \<Rightarrow> False)"
  proof (cases max_size)
    case (Some m)
    from assms(3) [OF this] datagram_fits [OF assms(1), of p m] w(1) show ?thesis using Some by auto
  qed simp
  then show ?thesis using w assms(2) by (simp add: send_packet_def)
qed

text \<open>The demultiplexer of a client puts a packet into the queue of its tunnel, and nowhere else.\<close>

lemma dispatch_delivers:
  assumes "qsid \<le> VARINT_MAX" "encode_quic_datagram qsid (dg_ip_packet p) = Ok wire"
  shows "dispatch_client_datagram wire c = (case cc_demux c qsid of None \<Rightarrow> c
    | Some tx \<Rightarrow> c\<lparr>cc_chans := (cc_chans c)(tx := try_send p (cc_chans c tx))\<rparr>)"
proof -
  have ctx: "dg_context_id (dg_ip_packet p) \<le> VARINT_MAX" by (simp add: dg_ip_packet_def CONTEXT_ID_IP_PACKET_def)
  from encode_quic_datagram_Ok [OF assms(1) ctx] assms(2)
  have "decode_quic_datagram wire = Ok (qsid, dg_ip_packet p)" by auto
  then show ?thesis by (simp add: dispatch_client_datagram_def dg_ip_packet_def split: option.split)
qed

lemma demux_forwards:
  assumes "decode_quic_datagram wire = Ok (qsid, dg_ip_packet p)" "i = compose conn_seq (qsid * 4)"
    "ub_sink (px_udp_bind ctx) i = None" "assigned_snapshot (px_sessions ctx) i = Some assigned"
    "forward_from_client env api i assigned p (px_engine ctx) = (Ok fw, e')"
  shows "\<exists>ctx'. run_datagram_demux env api conn_seq wire ctx = (DemuxForward i (Ok fw), ctx') \<and> px_engine ctx' = e'"
proof -
  obtain rest where "read_varint wire = (Ok qsid, rest)"
    using assms(1) by (auto simp: decode_quic_datagram_def rbind_def rret_def split: prod.splits res.splits)
  then show ?thesis using assms by (simp add: run_datagram_demux_def dg_ip_packet_def Let_def)
qed

section \<open>Capsules\<close>

lemma apply_capsule_buffer [simp]:
  "apply_capsule c (t\<lparr>tc_capsules := b\<rparr>) = (apply_capsule c t)\<lparr>tc_capsules := b\<rparr>"
  "tc_capsules (apply_capsule c t) = tc_capsules t"
  by (cases c; simp add: apply_capsule_def)+

abbreviation "apply_all \<equiv> foldl (\<lambda>t c. apply_capsule c t)"

lemma apply_all_buffer [simp]: "apply_all (t\<lparr>tc_capsules := b\<rparr>) cs = (apply_all t cs)\<lparr>tc_capsules := b\<rparr>"
  by (induction cs arbitrary: t) simp_all

text \<open>The inner loop folds in every capsule the buffer holds.\<close>

lemma apply_capsules_drain:
  "apply_capsules t seen = (case drain (tc_capsules t) of (cs, r, b) \<Rightarrow>
     (and_then (map_err PDecode r) (\<lambda>_. Ok (seen @ cs)), (apply_all t cs)\<lparr>tc_capsules := b\<rparr>))"
proof (induction t seen rule: apply_capsules.induct)
  case (1 t seen)
  obtain r b where n: "next_capsule (tc_capsules t) = (r, b)" by fastforce
  show ?case
  proof (cases r)
    case (Ok o')
    show ?thesis
    proof (cases o')
      case (Some c)
      then show ?thesis using n Ok 1 [OF n [symmetric]]
        by (simp add: apply_capsules.simps [of t] drain.simps [of "tc_capsules t"] split: prod.split)
    qed (use n Ok in \<open>simp add: apply_capsules.simps [of t] drain.simps [of "tc_capsules t"]\<close>)
  qed (use n in \<open>simp_all add: apply_capsules.simps [of t] drain.simps [of "tc_capsules t"]\<close>)
qed

definition ready :: "client_tunnel \<Rightarrow> bool" where
  "ready t \<longleftrightarrow> tc_assigned t \<noteq> [] \<and> tc_routes t \<noteq> []"

lemma wait_ready: "ready t \<Longrightarrow> wait_for_assignment ds t = (Some (Ok ()), t, ds)"
  by (simp add: ready_def wait_for_assignment.simps)

lemma wait_chunk:
  assumes "\<not> ready t" "drain (cb_push chunk (tc_capsules t)) = (cs, Ok (), b)"
  shows "wait_for_assignment (Ok (Some chunk) # ds) t = wait_for_assignment ds ((apply_all t cs)\<lparr>tc_capsules := b\<rparr>)"
proof (cases cs)
  case Nil
  then show ?thesis using assms unfolding ready_def
    by (simp add: wait_for_assignment.simps [of "_ # ds"] apply_capsules_drain wait_for_assignment.simps [of ds])
next
  case (Cons c cs')
  then show ?thesis using assms unfolding ready_def
    by (simp add: wait_for_assignment.simps [of "_ # ds"] apply_capsules_drain)
qed

text \<open>The client is set up once the two capsules of an announcement are in, however they were cut.\<close>

lemma wait_announced:
  assumes "recv_chunks chunks (tc_capsules t) = (cs, Ok (), b)"
    "cs = [CapAddressAssign \<lparr>assigned_addresses = as\<rparr>, CapRouteAdvertisement \<lparr>ip_address_ranges = rs\<rparr>] \<and> tc_routes t = [] \<or>
     cs = [CapRouteAdvertisement \<lparr>ip_address_ranges = rs\<rparr>] \<and> tc_assigned t = as \<and> tc_routes t = [] \<or>
     cs = [] \<and> tc_assigned t = as \<and> tc_routes t = rs"
    "as \<noteq> []" "rs \<noteq> []"
  shows "\<exists>t' ds. wait_for_assignment (map (\<lambda>c. Ok (Some c)) chunks) t = (Some (Ok ()), t', ds) \<and>
    tc_assigned t' = as \<and> tc_routes t' = rs"
  using assms(1,2)
proof (induction chunks arbitrary: t cs)
  case Nil
  then show ?case using wait_ready [of t] assms(3,4) by (auto simp: ready_def)
next
  case (Cons chunk chunks)
  show ?case
  proof (cases "ready t")
    case True
    then show ?thesis using Cons.prems(2) wait_ready by (auto simp: ready_def)
  next
    case False
    obtain cs1 r b1 where d: "drain (cb_push chunk (tc_capsules t)) = (cs1, r, b1)" by (metis prod_cases3)
    obtain cs2 where r: "r = Ok ()" and rest: "recv_chunks chunks b1 = (cs2, Ok (), b)" "cs = cs1 @ cs2"
      using Cons.prems(1) d by (cases r) (auto split: prod.splits)
    let ?t = "(apply_all t cs1)\<lparr>tc_capsules := b1\<rparr>"
    have "recv_chunks chunks (tc_capsules ?t) = (cs2, Ok (), b)" using rest(1) by simp
    moreover have "cs2 = [CapAddressAssign \<lparr>assigned_addresses = as\<rparr>, CapRouteAdvertisement \<lparr>ip_address_ranges = rs\<rparr>] \<and> tc_routes ?t = [] \<or>
       cs2 = [CapRouteAdvertisement \<lparr>ip_address_ranges = rs\<rparr>] \<and> tc_assigned ?t = as \<and> tc_routes ?t = [] \<or>
       cs2 = [] \<and> tc_assigned ?t = as \<and> tc_routes ?t = rs"
      using Cons.prems(2) rest(2) False assms(3,4)
      by (auto simp: append_eq_Cons_conv Cons_eq_append_conv apply_capsule_def ready_def)
    ultimately show ?thesis
      using Cons.IH wait_chunk [OF False] d r by simp
  qed
qed

section \<open>Properties\<close>


text \<open>The client of the run sends an echo request to its own address, and reads it back.\<close>

definition loop_packet :: bytes where
  "loop_packet = [0x45, 0, 0, 28, 0, 0, 0, 0, 64, 1, 0, 0, 192, 0, 2, 2, 192, 0, 2, 2, 8, 0, 0, 0, 0, 1, 0, 1]"

definition loop_info :: packet_info where
  "loop_info = \<lparr>pi_version = 4, pi_src = V4 0xC0000202, pi_dst = V4 0xC0000202, pi_protocol = 1\<rparr>"

definition loop_tunnel :: client_tunnel where
  "loop_tunnel = \<lparr>tc_stream = run_stream, tc_qsid = 0, tc_rx = Some 0, tc_capsules = cb_new,
     tc_assigned = [run_lease], tc_routes = sample_full_range\<rparr>"

definition loop_conn :: client_conn where
  "loop_conn = \<lparr>cc_demux = [0 \<mapsto> 0], cc_chans = \<lambda>_. ch_new TUNNEL_QUEUE_DEPTH, cc_next = 1\<rparr>"

lemma loop_parses: "parse_packet loop_packet = Ok loop_info"
  by (simp add: loop_packet_def loop_info_def parse_packet_def ver_def ihl_def sub_slice_def from_be16_def of_octets4_def)

lemma loop_engine:
  "lookup ref_ipnet (fe_route_table (px_engine run_installed)) (V4 0xC0000202) 1 = Some 0"
  "fe_session_sinks (px_engine run_installed) 0 = Some (SinkDatagram 1 0)"
  "session_mtu (px_engine run_installed) 0 = 1400"
  by (simp_all add: run_installed_def register_session_def session_mtu_def insert_client_addr_def lookup_def)


lemma announce_sends:
  assumes "announce routes t = (Ok (), t')"
  shows "\<exists>a b. encode_capsule (CapAddressAssign \<lparr>assigned_addresses = tk_assigned t\<rparr>) = Ok a \<and>
    encode_capsule (CapRouteAdvertisement \<lparr>ip_address_ranges = routes\<rparr>) = Ok b \<and>
    st_sent (tk_stream t') = st_sent (tk_stream t) @ [Data a, Data b]"
proof -
  obtain t1 where t1: "send_capsule (CapAddressAssign \<lparr>assigned_addresses = tk_assigned t\<rparr>) t = (Ok (), t1)"
    "send_capsule (CapRouteAdvertisement \<lparr>ip_address_ranges = routes\<rparr>) t1 = (Ok (), t')"
    using assms by (auto simp: announce_def rbind_def peek_def split: prod.splits res.splits)
  have one: "\<exists>a. encode_capsule c = Ok a \<and> st_sent (tk_stream s') = st_sent (tk_stream s) @ [Data a]"
    if "send_capsule c s = (Ok (), s')" for c s s'
    using that by (cases "encode_capsule c")
      (auto simp: send_capsule_def rbind_def rlift_def on_stream_def send_frame_def split: list.splits bool.splits)
  from one [OF t1(1)] one [OF t1(2)] show ?thesis by auto
qed

text \<open>
  C20: a tunnel is set up. When the proxy's announcement of a tunnel goes out, a client that reads
  the stream, cut in any way, finishes waiting for its assignment, with exactly the addresses the
  proxy recorded and the ranges it advertised, in the order of the specification.
\<close>

theorem setup_completes:
  assumes "announce routes t = (Ok (), t')" "tk_assigned t \<noteq> []" "routes \<noteq> []"
    and "wf_capsule (CapAddressAssign \<lparr>assigned_addresses = tk_assigned t\<rparr>)"
    and "wf_capsule (CapRouteAdvertisement \<lparr>ip_address_ranges = routes\<rparr>)"
    and "tc_establish (Ok (200, text)) stream c = (Ok k, c')"
  shows "\<exists>a b. st_sent (tk_stream t') = st_sent (tk_stream t) @ [Data a, Data b] \<and>
    (\<forall>chunks. concat (concat chunks) = a @ b \<longrightarrow>
       (\<exists>k' ds. wait_for_assignment (map (\<lambda>c. Ok (Some c)) chunks) k = (Some (Ok ()), k', ds) \<and>
          tc_assigned k' = tk_assigned t \<and> tc_routes k' = sort_key rfc_key routes))"
proof -
  let ?cs = "[CapAddressAssign \<lparr>assigned_addresses = tk_assigned t\<rparr>, CapRouteAdvertisement \<lparr>ip_address_ranges = routes\<rparr>]"
  obtain a b where ab: "encode_capsule (?cs ! 0) = Ok a" "encode_capsule (?cs ! 1) = Ok b"
    "st_sent (tk_stream t') = st_sent (tk_stream t) @ [Data a, Data b]"
    using announce_sends [OF assms(1)] by auto
  have k: "tc_capsules k = cb_new" "tc_routes k = []" using assms(6) by (auto simp: tc_establish_def Let_def)
  have "list_all wf_capsule ?cs" using assms(4,5) by simp
  from stream_delivered [OF this] obtain wire where w: "encode_items encode_capsule ?cs = Ok wire"
    "\<And>chunks. concat (concat chunks) = wire \<Longrightarrow> recv_chunks chunks cb_new = (map as_received ?cs, Ok (), cb_new)"
    by blast
  have "wire = a @ b" using w(1) ab(1,2) by simp
  moreover have "sort_key rfc_key routes \<noteq> []" using assms(3) by (metis length_0_conv length_sort)
  ultimately have "\<exists>k' ds. wait_for_assignment (map (\<lambda>c. Ok (Some c)) chunks) k = (Some (Ok ()), k', ds) \<and>
      tc_assigned k' = tk_assigned t \<and> tc_routes k' = sort_key rfc_key routes"
    if "concat (concat chunks) = a @ b" for chunks
    using wait_announced [of chunks k] w(2) [of chunks] that k assms(2) by simp
  then show ?thesis using ab(3) by blast
qed

theorem setup_completes_witness:
  "\<exists>t' k c'. announce sample_full_range \<lparr>tk_ctx = run_leased, tk_stream = run_stream, tk_assigned = [run_lease]\<rparr> = (Ok (), t') \<and>
     tc_establish (Ok (200, ''200 OK'')) run_stream loop_conn = (Ok k, c') \<and>
     (\<exists>a b. st_sent (tk_stream t') = [Data a, Data b] \<and>
       (\<exists>k' ds. wait_for_assignment [Ok (Some [a]), Ok (Some [b])] k = (Some (Ok ()), k', ds) \<and> tc_assigned k' = [run_lease]))"
proof -
  let ?t = "\<lparr>tk_ctx = run_leased, tk_stream = run_stream, tk_assigned = [run_lease]\<rparr>"
  have "run_stream\<lparr>st_sent := []\<rparr> = run_stream" by (simp add: run_stream_def)
  then obtain sent where an: "announce sample_full_range ?t =
      (Ok (), \<lparr>tk_ctx = run_leased, tk_stream = run_stream\<lparr>st_sent := sent\<rparr>, tk_assigned = [run_lease]\<rparr>)"
    using run_announce [of run_leased "[]"] by auto
  obtain k c' where k: "tc_establish (Ok (200, ''200 OK'')) run_stream loop_conn = (Ok k, c')"
    by (simp add: tc_establish_def Let_def)
  have wf: "wf_capsule (CapAddressAssign \<lparr>assigned_addresses = [run_lease]\<rparr>)"
    "wf_capsule (CapRouteAdvertisement \<lparr>ip_address_ranges = sample_full_range\<rparr>)" "sample_full_range \<noteq> []"
    by (simp_all add: run_lease_def wf_assigned_def VARINT_MAX_def sample_full_range_def wf_range_def)
  from setup_completes [OF an _ wf(3) _ wf(2) k] wf(1) obtain a b where
    ab: "sent = [Data a, Data b]" and got: "\<forall>chunks. concat (concat chunks) = a @ b \<longrightarrow>
       (\<exists>k' ds. wait_for_assignment (map (\<lambda>c. Ok (Some c)) chunks) k = (Some (Ok ()), k', ds) \<and>
          tc_assigned k' = [run_lease] \<and> tc_routes k' = sort_key rfc_key sample_full_range)"
    by (auto simp: run_stream_def)
  from got [rule_format, of "[[a], [b]]"] show ?thesis using an k ab by auto
qed

end
