(* ===== verification/Bind_Client.thy ===== *)
theory Bind_Client
  imports Bind_Handler
begin

text \<open>
  The client of a bind session, \<open>BindClient\<close> of \<open>src/src/client.rs\<close>: the request, the handshake up to
  the acknowledgement of the uncompressed context, datagrams in both directions, and the pump
  that serves a relay socket. What arrives on the stream is a list of chunks, as for the
  CONNECT-IP client; an exhausted list means that the client waits.
\<close>

section \<open>Opening the session\<close>

definition FIRST_UNCOMPRESSED_CONTEXT :: u64 where
  "FIRST_UNCOMPRESSED_CONTEXT = 2"

definition bind_request :: "auth_api \<Rightarrow> client_auth \<Rightarrow> request" where
  "bind_request crypto auth =
     \<lparr>rq_method = ''CONNECT'', rq_protocol = Some CONNECT_UDP_PROTOCOL,
      rq_headers = apply_auth crypto auth [''capsule-protocol'' \<mapsto> ''?1'', ''connect-udp-bind'' \<mapsto> ''?1''],
      rq_path = ''/.well-known/masque/udp/%2A/%2A/''\<rparr>"

text \<open>\<open>v.trim().trim_matches('"')\<close>.\<close>

definition unquote :: "string \<Rightarrow> string" where
  "unquote v = rev (dropWhile (\<lambda>c. c = CHR 0x22) (rev (dropWhile (\<lambda>c. c = CHR 0x22) (trim v))))"

definition public_addr_of :: "header_map \<Rightarrow> (proxy_error, sock_addr) res" where
  "public_addr_of headers =
     ok_or (PHttp ''relay omitted proxy-public-address'')
       (Option.bind (headers ''proxy-public-address'') (\<lambda>v. parse_socket_addr (unquote v)))"

record bind_client =
  bc_stream :: req_stream
  bc_qsid :: u64
  bc_contexts :: context_table
  bc_uncompressed :: u64
  bc_public_addr :: sock_addr
  bc_observed_addr :: "sock_addr option"

text \<open>
  The capsules of one chunk while the acknowledgement is awaited: the table, what is known of the
  observed address, and whether the acknowledgement has come; the loop stops there.
\<close>

function ack_capsules ::
    "u64 \<Rightarrow> capsule_buffer \<Rightarrow> context_table \<Rightarrow> sock_addr option \<Rightarrow>
     (proxy_error, capsule_buffer \<times> context_table \<times> sock_addr option \<times> bool) res" where
  "ack_capsules uncompressed b t observed = (case next_capsule b of
      (Ok None, b') \<Rightarrow> Ok (b', t, observed, False)
    | (Ok (Some c), b') \<Rightarrow> (case c of
          CapUnknown type_id data \<Rightarrow>
            if type_id = CAPSULE_OBSERVED_ADDRESS
            then ack_capsules uncompressed b' t (case decode_observed_address data of Ok a \<Rightarrow> Some a | _ \<Rightarrow> None)
            else if type_id = CAPSULE_COMPRESSION_ACK
            then and_then (map_err PDecode (decode_context_capsule data)) (\<lambda>id.
              if id = uncompressed
              then and_then (unwrap (ct_ack uncompressed t)) (\<lambda>t'. Ok (b', t', observed, True))
              else ack_capsules uncompressed b' t observed)
            else ack_capsules uncompressed b' t observed
        | _ \<Rightarrow> ack_capsules uncompressed b' t observed)
    | (Err e, b') \<Rightarrow> Err (PDecode e)
    | (Panic, b') \<Rightarrow> Panic)"
  by pat_completeness auto
termination
  by (relation "measure (\<lambda>(u, b, t, o'). length (cb_buf b))") (auto dest: next_capsule_shorter [OF sym])

declare ack_capsules.simps [simp del]

fun await_ack ::
    "u64 \<Rightarrow> (string, bytes list option) res list \<Rightarrow> capsule_buffer \<Rightarrow> context_table \<Rightarrow> sock_addr option \<Rightarrow>
     (proxy_error, context_table \<times> sock_addr option) res option" where
  "await_ack uncompressed [] b t observed = None"
| "await_ack uncompressed (d # ds) b t observed = (case d of
      Ok (Some chunk) \<Rightarrow>
        (case ack_capsules uncompressed (cb_push chunk b) t observed of
           Ok (b', t', observed', acked) \<Rightarrow>
             if acked then Some (Ok (t', observed')) else await_ack uncompressed ds b' t' observed'
         | Err e \<Rightarrow> Some (Err e)
         | Panic \<Rightarrow> Some Panic)
    | Ok None \<Rightarrow> Some (Err (PHttp ''relay closed before ACK''))
    | Err e \<Rightarrow> Some (Err (of_h3_error e))
    | Panic \<Rightarrow> Some Panic)"

text \<open>
  \<open>connect\<close>, once the request is on the stream. The response is an error of the transport, or the
  status, its text and the headers.
\<close>

definition bc_connect ::
    "(proxy_error, nat \<times> string \<times> header_map) res \<Rightarrow> req_stream \<Rightarrow> (string, bytes list option) res list \<Rightarrow>
     (proxy_error, bind_client) res option" where
  "bc_connect response stream ds = (case response of
      Panic \<Rightarrow> Some Panic
    | Err e \<Rightarrow> Some (Err e)
    | Ok (status, status_text, headers) \<Rightarrow>
        if status \<noteq> 200 then Some (Err (PHttp (''relay rejected bind: '' @ status_text)))
        else (case public_addr_of headers of
            Panic \<Rightarrow> Some Panic
          | Err e \<Rightarrow> Some (Err e)
          | Ok public_addr \<Rightarrow>
              (let assign = \<lparr>ca_context_id = FIRST_UNCOMPRESSED_CONTEXT, ca_binding = Uncompressed\<rparr> in
               case and_then (unwrap (ct_register assign ct_new)) (\<lambda>contexts.
                   and_then (unwrap (ca_encode assign)) (\<lambda>buf. Ok (contexts, buf))) of
                 Panic \<Rightarrow> Some Panic
               | Err e \<Rightarrow> Some (Err e)
               | Ok (contexts, buf) \<Rightarrow>
                   (case send_frame (Data buf) stream of
                      (Ok _, stream) \<Rightarrow>
                        map_option (\<lambda>r. and_then r (\<lambda>(contexts, observed).
                          Ok \<lparr>bc_stream = stream, bc_qsid = quarter_stream_id (st_id stream), bc_contexts = contexts,
                              bc_uncompressed = FIRST_UNCOMPRESSED_CONTEXT, bc_public_addr = public_addr,
                              bc_observed_addr = observed\<rparr>))
                          (await_ack FIRST_UNCOMPRESSED_CONTEXT ds cb_new contexts None)
                    | (Err e, _) \<Rightarrow> Some (Err e)
                    | (Panic, _) \<Rightarrow> Some Panic))))"

section \<open>Datagrams\<close>

definition bc_send_to ::
    "(context_error \<Rightarrow> string) \<Rightarrow> (bytes \<Rightarrow> (string, unit) res) \<Rightarrow> bind_client \<Rightarrow> sock_addr \<Rightarrow> bytes \<Rightarrow>
     (proxy_error, bytes) res" where
  "bc_send_to show_error send_datagram c remote payload =
     and_then (map_err (InvalidRequest \<circ> show_error)
       (encode_datagram (bc_contexts c) (bc_uncompressed c) remote payload)) (\<lambda>body.
     and_then (unwrap (write_varint (bc_qsid c))) (\<lambda>q.
     and_then (map_err of_quic_error (send_datagram (q @ body))) (\<lambda>_. Ok (q @ body))))"

text \<open>\<open>recv_from\<close>: datagrams of other streams, and those that do not decode, are skipped.\<close>

fun bc_recv_from ::
    "bind_client \<Rightarrow> (string, bytes) res list \<Rightarrow> (proxy_error, sock_addr \<times> bytes) res option \<times> (string, bytes) res list" where
  "bc_recv_from c [] = (None, [])"
| "bc_recv_from c (d # ds) = (case d of
      Ok wire \<Rightarrow> (case read_varint wire of
          (Ok qsid, cursor) \<Rightarrow>
            if qsid \<noteq> bc_qsid c then bc_recv_from c ds
            else (case decode_datagram (bc_contexts c) (drop (length wire - length cursor) wire) of
                Ok dg \<Rightarrow> (Some (Ok (bd_remote dg, bd_payload dg)), ds)
              | Err _ \<Rightarrow> bc_recv_from c ds
              | Panic \<Rightarrow> (Some Panic, ds))
        | (Err e, _) \<Rightarrow> (Some (Err (PDecode e)), ds)
        | (Panic, _) \<Rightarrow> (Some Panic, ds))
    | Err e \<Rightarrow> (Some (Err (of_quic_error e)), ds)
    | Panic \<Rightarrow> (Some Panic, ds))"

definition bc_close :: "bind_client \<Rightarrow> req_stream" where
  "bc_close c = snd (send_frame Finish (bc_stream c))"

section \<open>The pump of a relay socket\<close>

text \<open>A datagram from the relay: the remote and the payload it carries, if it is of this session and decodes.\<close>

definition pump_datagram :: "u64 \<Rightarrow> context_table \<Rightarrow> bytes \<Rightarrow> (sock_addr \<times> bytes) option" where
  "pump_datagram qsid t wire = (case read_varint wire of
      (Ok got, cursor) \<Rightarrow>
        if got \<noteq> qsid then None
        else (case decode_datagram t (drop (length wire - length cursor) wire) of
            Ok dg \<Rightarrow> Some (bd_remote dg, bd_payload dg)
          | _ \<Rightarrow> None)
    | _ \<Rightarrow> None)"

text \<open>
  Stream data: acknowledged contexts become usable. The loop runs while capsules of unknown type
  follow each other, and leaves the rest of the buffer for the next chunk.
\<close>

definition pump_ack :: "u64 \<Rightarrow> bytes \<Rightarrow> context_table \<Rightarrow> context_table" where
  "pump_ack type_id data t =
     (if type_id = CAPSULE_COMPRESSION_ACK then
        (case decode_context_capsule data of
           Ok cid \<Rightarrow> (case ct_ack cid t of Ok t' \<Rightarrow> t' | _ \<Rightarrow> t)
         | _ \<Rightarrow> t)
      else t)"

function pump_capsules :: "capsule_buffer \<Rightarrow> context_table \<Rightarrow> capsule_buffer \<times> context_table" where
  "pump_capsules b t = (case next_capsule b of
      (Ok (Some c), b') \<Rightarrow> (case c of
          CapUnknown type_id data \<Rightarrow> pump_capsules b' (pump_ack type_id data t)
        | _ \<Rightarrow> (b', t))
    | (_, b') \<Rightarrow> (b', t))"
  by pat_completeness auto
termination
  by (relation "measure (\<lambda>(b, t). length (cb_buf b))") (auto dest: next_capsule_shorter [OF sym])

declare pump_capsules.simps [simp del]

text \<open>
  The pump with all it owns: the stream, the shared table, the buffer, and the channel of 256
  datagrams to the socket. An event is what its \<open>select!\<close> wakes up for: a datagram, a capsule of the
  lockdown to be written, or what the stream gives; \<open>None\<close> means that the pump has ended.
\<close>

record relay_pump =
  rp_stream :: req_stream
  rp_qsid :: u64
  rp_contexts :: context_table
  rp_capsules :: capsule_buffer
  rp_rx :: "(sock_addr \<times> bytes) list"

definition into_relay_parts :: "bind_client \<Rightarrow> relay_pump" where
  "into_relay_parts c = \<lparr>rp_stream = bc_stream c, rp_qsid = bc_qsid c, rp_contexts = bc_contexts c,
     rp_capsules = cb_new, rp_rx = []\<rparr>"

datatype pump_event =
    PumpDatagram "(string, bytes) res"
  | PumpCapsule bytes
  | PumpData "(string, bytes list option) res"

definition pump_turn :: "pump_event \<Rightarrow> relay_pump \<Rightarrow> relay_pump option" where
  "pump_turn ev p = (case ev of
      PumpDatagram (Ok wire) \<Rightarrow> Some (case pump_datagram (rp_qsid p) (rp_contexts p) wire of
          Some d \<Rightarrow> if length (rp_rx p) < 256 then p\<lparr>rp_rx := rp_rx p @ [d]\<rparr> else p
        | None \<Rightarrow> p)
    | PumpDatagram _ \<Rightarrow> None
    | PumpCapsule out \<Rightarrow> (case send_frame (Data out) (rp_stream p) of
          (Ok _, stream) \<Rightarrow> Some (p\<lparr>rp_stream := stream\<rparr>)
        | _ \<Rightarrow> None)
    | PumpData (Ok (Some chunk)) \<Rightarrow>
        (case pump_capsules (cb_push chunk (rp_capsules p)) (rp_contexts p) of
           (b, t) \<Rightarrow> Some (p\<lparr>rp_capsules := b, rp_contexts := t\<rparr>))
    | PumpData _ \<Rightarrow> None)"

text \<open>
  A capsule of a known type ends the loop over the buffered capsules although more may follow: an
  acknowledgement behind it takes effect only when the next chunk arrives.
\<close>

lemma pump_stops_at_known:
  assumes "next_capsule b = (Ok (Some c), b')" "\<And>type_id data. c \<noteq> CapUnknown type_id data"
  shows "pump_capsules b t = (b', t)"
proof (cases c)
  case (CapUnknown type_id data)
  then show ?thesis using assms(2) by blast
qed (use assms(1) in \<open>simp_all add: pump_capsules.simps [of b]\<close>)

end
