(* ===== verification/Relay_Socket.thy ===== *)
theory Relay_Socket
  imports Bind_Client Bind_Safe
begin

text \<open>
  The sockets an inner QUIC endpoint runs over, \<open>src/src/p2p/relay_socket.rs\<close>: the relay alone, the
  relay beside a real UDP socket, and the lockdown that narrows the relay to one peer. The
  outcome of a system call is a parameter. The last part runs the lockdown against the relay's
  session handler of \<open>Bind_Handler\<close>.
\<close>

section \<open>Framing\<close>

definition frame_bind :: "binding_iter \<Rightarrow> u64 \<Rightarrow> context_table \<Rightarrow> sock_addr \<Rightarrow> bytes \<Rightarrow> (unit, bytes option) res" where
  "frame_bind iter qsid table dst contents =
     (case (case compressed_context_for iter table dst of Some cid \<Rightarrow> Some cid | None \<Rightarrow> uncompressed_context iter table) of
        None \<Rightarrow> Ok None
      | Some cid \<Rightarrow> (case encode_datagram table cid dst contents of
            Ok body \<Rightarrow> and_then (unwrap (write_varint qsid)) (\<lambda>q. Ok (Some (q @ body)))
          | Err _ \<Rightarrow> Ok None
          | Panic \<Rightarrow> Panic))"

text \<open>
  The result of a poll, and a received datagram: the bytes written to its buffer, and what
  \<open>mk_meta\<close> says of them.
\<close>

datatype 'a poll = Pending | Ready 'a

record recv_meta =
  rm_addr :: sock_addr
  rm_len :: nat
  rm_stride :: nat
  rm_dst_ip :: "ip_addr option"

definition mk_meta :: "sock_addr \<Rightarrow> nat \<Rightarrow> ip_addr \<Rightarrow> recv_meta" where
  "mk_meta addr len dst_ip = \<lparr>rm_addr = addr, rm_len = len, rm_stride = len, rm_dst_ip = Some dst_ip\<rparr>"

type_synonym slot = "bytes \<times> recv_meta"

definition fill :: "nat \<Rightarrow> ip_addr \<Rightarrow> sock_addr \<times> bytes \<Rightarrow> slot" where
  "fill cap local d = (let len = min (length (snd d)) cap in (take len (snd d), mk_meta (fst d) len local))"

section \<open>The relay alone\<close>

text \<open>A packet no context can carry is dropped; the result is the datagram handed to the connection.\<close>

definition relay_poll_send ::
    "binding_iter \<Rightarrow> (bytes \<Rightarrow> (string, unit) res) \<Rightarrow> u64 \<Rightarrow> context_table \<Rightarrow> sock_addr \<Rightarrow> bytes \<Rightarrow>
     (string, bytes option) res" where
  "relay_poll_send iter send_datagram qsid table dst contents = (case frame_bind iter qsid table dst contents of
      Ok (Some wire) \<Rightarrow> and_then (send_datagram wire) (\<lambda>_. Ok (Some wire))
    | Ok None \<Rightarrow> Ok None
    | _ \<Rightarrow> Panic)"

text \<open>
  The channel from the pump: the datagrams waiting, and whether the pump has ended. The sizes of
  the free buffers are an argument, the filled ones the result.
\<close>

fun relay_poll_recv ::
    "ip_addr \<Rightarrow> bool \<Rightarrow> nat list \<Rightarrow> (sock_addr \<times> bytes) list \<Rightarrow> slot list \<Rightarrow>
     (string, slot list) res poll \<times> (sock_addr \<times> bytes) list" where
  "relay_poll_recv local closed [] rx got = (Ready (Ok got), rx)"
| "relay_poll_recv local closed (cap # caps) rx got = (case rx of
      d # rx' \<Rightarrow> relay_poll_recv local closed caps rx' (got @ [fill cap local d])
    | [] \<Rightarrow>
        if closed then ((if got = [] then Ready (Err ''relay session closed'') else Ready (Ok got)), [])
        else ((if got = [] then Pending else Ready (Ok got)), []))"

section \<open>Relay and direct path\<close>

record path_mux =
  mx_qsid :: u64
  mx_local :: sock_addr
  mx_direct_local :: sock_addr
  mx_relay_remotes :: "sock_addr set"

definition mux_endpoint :: "u64 \<Rightarrow> sock_addr \<Rightarrow> sock_addr \<Rightarrow> sock_addr option \<Rightarrow> path_mux" where
  "mux_endpoint qsid local direct_local relay_peer =
     \<lparr>mx_qsid = qsid, mx_local = local, mx_direct_local = direct_local, mx_relay_remotes = set_option relay_peer\<rparr>"

datatype sent = ViaRelay bytes | ViaDirect sock_addr bytes | Dropped

definition mux_poll_send ::
    "binding_iter \<Rightarrow> (bytes \<Rightarrow> (string, unit) res) \<Rightarrow> (sock_addr \<Rightarrow> bytes \<Rightarrow> (string, unit) res poll) \<Rightarrow> context_table \<Rightarrow>
     path_mux \<Rightarrow> sock_addr \<Rightarrow> bytes \<Rightarrow> (string, sent) res poll" where
  "mux_poll_send iter send_datagram send_to table m dst contents =
     (if dst \<in> mx_relay_remotes m then
        (case frame_bind iter (mx_qsid m) table dst contents of
           Ok (Some wire) \<Rightarrow> Ready (and_then (send_datagram wire) (\<lambda>_. Ok (ViaRelay wire)))
         | Ok None \<Rightarrow> Ready (Ok Dropped)
         | _ \<Rightarrow> Ready Panic)
      else (case send_to dst contents of
           Ready r \<Rightarrow> Ready (and_then r (\<lambda>_. Ok (ViaDirect dst contents)))
         | Pending \<Rightarrow> Pending))"

text \<open>
  \<open>poll_recv\<close>, first the direct socket. What it has ready is a list; an error ends this round and
  is dropped.
\<close>

fun drain_direct ::
    "ip_addr \<Rightarrow> nat list \<Rightarrow> (string, sock_addr \<times> bytes) res list \<Rightarrow> slot list \<times> nat list \<times> (string, sock_addr \<times> bytes) res list" where
  "drain_direct local [] ready = ([], [], ready)"
| "drain_direct local (cap # caps) ready = (case ready of
      Ok d # ready' \<Rightarrow>
        (let (got, left, rest) = drain_direct local caps ready' in (fill cap local d # got, left, rest))
    | _ # ready' \<Rightarrow> ([], cap # caps, ready')
    | [] \<Rightarrow> ([], cap # caps, []))"

text \<open>Then the tunnel: the first source is learned as the relay remote, and no other.\<close>

definition learn :: "sock_addr \<Rightarrow> sock_addr set \<Rightarrow> sock_addr set" where
  "learn src relay_remotes = (if relay_remotes = {} then {src} else relay_remotes)"

fun drain_relay ::
    "ip_addr \<Rightarrow> nat list \<Rightarrow> (sock_addr \<times> bytes) list \<Rightarrow> sock_addr set \<Rightarrow>
     slot list \<times> nat list \<times> (sock_addr \<times> bytes) list \<times> sock_addr set" where
  "drain_relay local [] rx remotes = ([], [], rx, remotes)"
| "drain_relay local (cap # caps) rx remotes = (case rx of
      d # rx' \<Rightarrow>
        (let (got, left, rest, remotes') = drain_relay local caps rx' (learn (fst d) remotes) in
         (fill cap local d # got, left, rest, remotes'))
    | [] \<Rightarrow> ([], cap # caps, [], remotes))"

text \<open>
  A free buffer is left after the second loop when the channel was empty; an ended pump is then an
  error, if nothing at all was received.
\<close>

definition mux_poll_recv ::
    "bool \<Rightarrow> nat list \<Rightarrow> (string, sock_addr \<times> bytes) res list \<Rightarrow> (sock_addr \<times> bytes) list \<Rightarrow> path_mux \<Rightarrow>
     (string, slot list) res poll \<times> (string, sock_addr \<times> bytes) res list \<times> (sock_addr \<times> bytes) list \<times> path_mux" where
  "mux_poll_recv closed caps ready rx m =
     (let (direct, caps1, ready') = drain_direct (sa_ip (mx_direct_local m)) caps ready;
          (relay, caps2, rx', remotes) = drain_relay (sa_ip (mx_local m)) caps1 rx (mx_relay_remotes m);
          got = direct @ relay in
      ((if got \<noteq> [] then Ready (Ok got)
        else if caps2 \<noteq> [] \<and> closed then Ready (Err ''relay session closed'')
        else Pending),
       ready', rx', m\<lparr>mx_relay_remotes := remotes\<rparr>))"

section \<open>Lockdown\<close>

text \<open>
  \<open>engage\<close> up to its wait: it is done already, or a compressed context for the peer is pending and
  proposed to the relay. \<open>queue_ok\<close> says whether the queue of the pump takes the capsule.
\<close>

definition lockdown_peer :: "(sock_addr set \<Rightarrow> sock_addr list) \<Rightarrow> sock_addr set \<Rightarrow> sock_addr option" where
  "lockdown_peer order remotes = (case order remotes of [] \<Rightarrow> None | a # _ \<Rightarrow> Some a)"

datatype engaging = AlreadyEngaged | Awaiting u64 u64

definition engage_propose ::
    "binding_iter \<Rightarrow> (context_error \<Rightarrow> string) \<Rightarrow> bool \<Rightarrow> sock_addr option \<Rightarrow> context_table \<Rightarrow>
     (proxy_error, engaging \<times> bytes list) res \<times> context_table" where
  "engage_propose iter show_error queue_ok peer table = (case peer of
      None \<Rightarrow> (Err (InvalidRequest ''no relay remote learned; nothing to bind a context to''), table)
    | Some peer \<Rightarrow>
        if compressed_context_for iter table peer \<noteq> None then (Ok (AlreadyEngaged, []), table)
        else (case uncompressed_context iter table of
            None \<Rightarrow> (Err (InvalidRequest ''uncompressed context already closed''), table)
          | Some uncompressed \<Rightarrow>
              (let assign = \<lparr>ca_context_id = uncompressed + 2, ca_binding = Compressed peer\<rparr> in
               case ct_register assign table of
                 Ok table' \<Rightarrow> (case ca_encode assign of
                     Ok buf \<Rightarrow>
                       if queue_ok then (Ok (Awaiting (uncompressed + 2) uncompressed, [buf]), table')
                       else (Err (InvalidRequest ''capsule queue''), table')
                   | _ \<Rightarrow> (Panic, table'))
               | Err e \<Rightarrow> (Err (InvalidRequest (show_error e)), table)
               | Panic \<Rightarrow> (Panic, table))))"

text \<open>After the acknowledgement: the uncompressed context goes. When none comes in time, the proposal does.\<close>

definition engage_finish :: "bool \<Rightarrow> u64 \<Rightarrow> context_table \<Rightarrow> (proxy_error, bytes list) res \<times> context_table" where
  "engage_finish queue_ok uncompressed table = (case encode_context_capsule CAPSULE_COMPRESSION_CLOSE uncompressed of
      Ok buf \<Rightarrow>
        if queue_ok then (Ok [buf], ct_close uncompressed table)
        else (Err (InvalidRequest ''capsule queue''), table)
    | _ \<Rightarrow> (Panic, table))"

definition engage_timeout :: "u64 \<Rightarrow> context_table \<Rightarrow> (proxy_error, bytes list) res \<times> context_table" where
  "engage_timeout assign_id table =
     (Err (InvalidRequest ''relay did not acknowledge the compressed context''), ct_close assign_id table)"

section \<open>The lockdown and the relay\<close>

text \<open>
  A session of the client and its relay: the table the sender and the pump share, the capsules
  written and not yet read by the relay, the relay's session with its buffer, how many frames of
  the relay's stream the pump has read, the pump's buffer, and how far \<open>engage\<close> is. Between two
  steps each side may be descheduled; the streams deliver in order, cut at frames.
\<close>

datatype engage_state = NotEngaged | Engaging u64 u64 | Engaged

record lockdown =
  ld_table :: context_table
  ld_up :: "bytes list"
  ld_relay :: bind_session
  ld_relay_buffer :: capsule_buffer
  ld_read :: nat
  ld_buffer :: capsule_buffer
  ld_state :: engage_state

abbreviation relay_table :: "lockdown \<Rightarrow> context_table" where
  "relay_table w \<equiv> bs_contexts (bx_socket (ld_relay w))"

definition down :: "lockdown \<Rightarrow> frame list" where
  "down w = drop (ld_read w) (st_sent (bx_stream (ld_relay w)))"

text \<open>
  One step: a call of \<open>engage\<close> begins, ends, times out or finds the queue full; the relay reads a
  capsule, or carries a datagram in either direction; the pump reads a frame.
\<close>

inductive lstep :: "ipnet_api \<Rightarrow> u64 \<Rightarrow> sock_addr \<Rightarrow> lockdown \<Rightarrow> lockdown \<Rightarrow> bool"
  for api :: ipnet_api and qsid :: u64 and peer :: sock_addr where
  lstep_propose: "hash_iter iter \<Longrightarrow> ld_state w = NotEngaged \<Longrightarrow>
    engage_propose iter show_error queue_ok (Some peer) (ld_table w) = (r, t) \<Longrightarrow>
    lstep api qsid peer w (case r of
        Ok (Awaiting a u, out) \<Rightarrow> w\<lparr>ld_table := t, ld_up := ld_up w @ out, ld_state := Engaging a u\<rparr>
      | _ \<Rightarrow> w\<lparr>ld_table := t\<rparr>)"
| lstep_finish: "ld_state w = Engaging a u \<Longrightarrow> ct_binding (ld_table w) a \<noteq> None \<Longrightarrow>
    engage_finish queue_ok u (ld_table w) = (r, t) \<Longrightarrow>
    lstep api qsid peer w (case r of
        Ok out \<Rightarrow> w\<lparr>ld_table := t, ld_up := ld_up w @ out, ld_state := Engaged\<rparr>
      | _ \<Rightarrow> w\<lparr>ld_table := t, ld_state := NotEngaged\<rparr>)"
| lstep_timeout: "ld_state w = Engaging a u \<Longrightarrow>
    lstep api qsid peer w (w\<lparr>ld_table := snd (engage_timeout a (ld_table w)), ld_state := NotEngaged\<rparr>)"
| lstep_relay: "ld_up w = x # rest \<Longrightarrow>
    bind_turn api qsid (StreamData [x]) (ld_relay_buffer w) (ld_relay w) = (Ok (Some b), s) \<Longrightarrow>
    lstep api qsid peer w (w\<lparr>ld_up := rest, ld_relay := s, ld_relay_buffer := b\<rparr>)"
| lstep_traffic: "(\<exists>now send_ok body. ev = FromPeer now send_ok body) \<or>
    (\<exists>iter queue_ok send_ok remote packet. ev = FromNetwork iter queue_ok send_ok remote packet) \<Longrightarrow>
    bind_turn api qsid ev (ld_relay_buffer w) (ld_relay w) = (Ok (Some b), s) \<Longrightarrow>
    lstep api qsid peer w (w\<lparr>ld_relay := s, ld_relay_buffer := b\<rparr>)"
| lstep_pump: "down w = Data x # rest \<Longrightarrow> pump_capsules (cb_push [x] (ld_buffer w)) (ld_table w) = (b, t) \<Longrightarrow>
    lstep api qsid peer w (w\<lparr>ld_table := t, ld_buffer := b, ld_read := Suc (ld_read w)\<rparr>)"

inductive_cases lstepE: "lstep api qsid peer w w'"

text \<open>The session as the handshake leaves it: the uncompressed context on both sides, nothing in flight.\<close>

definition opened :: "lockdown \<Rightarrow> bool" where
  "opened w \<longleftrightarrow> ct_contexts (ld_table w) = [FIRST_UNCOMPRESSED_CONTEXT \<mapsto> Uncompressed] \<and> ct_pending (ld_table w) = Map.empty \<and>
     ct_contexts (relay_table w) = [FIRST_UNCOMPRESSED_CONTEXT \<mapsto> Uncompressed] \<and> ct_pending (relay_table w) = Map.empty \<and>
     ld_up w = [] \<and> down w = [] \<and> ld_read w \<le> length (st_sent (bx_stream (ld_relay w))) \<and>
     ld_relay_buffer w = cb_new \<and> ld_buffer w = cb_new \<and> ld_state w = NotEngaged"

inductive lreach :: "ipnet_api \<Rightarrow> u64 \<Rightarrow> sock_addr \<Rightarrow> lockdown \<Rightarrow> bool"
  for api :: ipnet_api and qsid :: u64 and peer :: sock_addr where
  lreach_opened: "opened w \<Longrightarrow> lreach api qsid peer w"
| lreach_step: "lreach api qsid peer w \<Longrightarrow> lstep api qsid peer w w' \<Longrightarrow> lreach api qsid peer w'"

end
