(* ===== verification/Lockdown.thy ===== *)
theory Lockdown
  imports Relay_Socket
begin

text \<open>
  The lockdown of \<open>src/src/p2p/relay_socket.rs\<close> against the relay of \<open>src/src/udp_bind/handler.rs\<close>: whatever
  the order of their steps, what the client frames the relay can read, and once the lockdown is
  through the relay carries the packets of the peer and of nobody else.
\<close>

section \<open>The capsules exchanged\<close>

definition proposal :: "sock_addr \<Rightarrow> bytes" where
  "proposal peer = (case ca_encode \<lparr>ca_context_id = 4, ca_binding = Compressed peer\<rparr> of Ok b \<Rightarrow> b | _ \<Rightarrow> [])"

definition closing :: bytes where
  "closing = (case encode_context_capsule CAPSULE_COMPRESSION_CLOSE 2 of Ok b \<Rightarrow> b | _ \<Rightarrow> [])"

definition acking :: bytes where
  "acking = (case encode_context_capsule CAPSULE_COMPRESSION_ACK 4 of Ok b \<Rightarrow> b | _ \<Rightarrow> [])"

lemma context_ids: "(4 :: u64) \<le> VARINT_MAX" "(2 :: u64) \<le> VARINT_MAX" "CAPSULE_COMPRESSION_CLOSE \<le> VARINT_MAX" "CAPSULE_COMPRESSION_ACK \<le> VARINT_MAX"
  by (simp_all add: VARINT_MAX_def CAPSULE_COMPRESSION_CLOSE_def CAPSULE_COMPRESSION_ACK_def)

lemma proposal_sealed:
  "ca_encode \<lparr>ca_context_id = 4, ca_binding = Compressed peer\<rparr> = Ok (proposal peer)"
  "\<exists>body. ca_decode body = Ok \<lparr>ca_context_id = 4, ca_binding = Compressed peer\<rparr> \<and>
    envelope (proposal peer) = Some (CAPSULE_COMPRESSION_ASSIGN, body, [])"
  using ca_sealed [of "\<lparr>ca_context_id = 4, ca_binding = Compressed peer\<rparr>"] context_ids(1)
  by (auto simp: proposal_def dest: spec [of _ "[]"])

lemma closing_sealed:
  "encode_context_capsule CAPSULE_COMPRESSION_CLOSE 2 = Ok closing"
  "\<exists>body. decode_context_capsule body = Ok 2 \<and> envelope closing = Some (CAPSULE_COMPRESSION_CLOSE, body, [])"
  using context_capsule_sealed [OF context_ids(3,2)] by (auto simp: closing_def dest: spec [of _ "[]"])

lemma acking_sealed:
  "encode_context_capsule CAPSULE_COMPRESSION_ACK 4 = Ok acking"
  "\<exists>body. decode_context_capsule body = Ok 4 \<and> envelope acking = Some (CAPSULE_COMPRESSION_ACK, body, [])"
  using context_capsule_sealed [OF context_ids(4,1)] by (auto simp: acking_def dest: spec [of _ "[]"])

lemma proposal_not_closing: "proposal peer \<noteq> closing"
  using proposal_sealed(2) [of peer] closing_sealed(2)
  by (auto simp: CAPSULE_COMPRESSION_ASSIGN_def CAPSULE_COMPRESSION_CLOSE_def)

text \<open>A whole capsule of unknown type is handled, and leaves an empty buffer.\<close>

lemma next_sealed:
  assumes "envelope x = Some (t, body, [])" "t \<notin> {1, 2, 3}"
  shows "next_capsule (cb_push [x] cb_new) = (Ok (Some (CapUnknown t body)), cb_new)"
  using assms unknown_capsule [OF assms] decode_capsule_envelope [OF assms(1)]
  by (simp add: next_capsule_envelope cb_push_concat cb_new_def)

lemma next_empty: "next_capsule cb_new = (Ok None, cb_new)"
  using envelope_shorter [of "[]"] by (cases "envelope []") (auto simp: next_capsule_envelope cb_new_def)

lemma turn_sealed:
  assumes "envelope x = Some (t, body, [])" "t \<notin> {1, 2, 3}"
  shows "bind_turn api qsid (StreamData [x]) cb_new s =
    rbind (handle_context_capsule t body) (\<lambda>_. rret (Some cb_new)) s"
proof -
  have "process_capsules bind_capsule (cb_push [x] cb_new) = rbind (handle_context_capsule t body) (\<lambda>_. rret cb_new)"
    unfolding process_capsules.simps [of _ "cb_push [x] cb_new"] next_sealed [OF assms]
    by (simp add: process_capsules.simps [of _ cb_new] next_empty bind_capsule_def)
  then show ?thesis by (simp only: bind_turn_def bind_event.case rbind_rbind rbind_rret_left)
qed

lemma pump_sealed:
  assumes "envelope x = Some (t, body, [])" "t \<notin> {1, 2, 3}"
  shows "pump_capsules (cb_push [x] cb_new) table = (cb_new, pump_ack t body table)"
  unfolding pump_capsules.simps [of "cb_push [x] cb_new"] next_sealed [OF assms]
  by (simp add: pump_capsules.simps [of cb_new] next_empty)

section \<open>The steps on the tables\<close>

text \<open>A table with the uncompressed context or not, and the peer's context or not.\<close>

definition tab :: "sock_addr \<Rightarrow> bool \<Rightarrow> bool \<Rightarrow> u64 \<Rightarrow> binding option" where
  "tab peer u c i = (if i = 2 \<and> u then Some Uncompressed else if i = 4 \<and> c then Some (Compressed peer) else None)"

definition ctab :: "sock_addr \<Rightarrow> bool \<Rightarrow> bool \<Rightarrow> bool \<Rightarrow> context_table" where
  "ctab peer u c p = \<lparr>ct_contexts = tab peer u c, ct_pending = tab peer False p\<rparr>"

lemma tab_dom: "dom (tab peer u c) \<subseteq> {2, 4}"
  by (auto simp: tab_def split: if_splits)

lemma ctab_inv: "\<not> (c \<and> p) \<Longrightarrow> ct_inv (ctab peer u c p)"
  using finite_subset [OF tab_dom] context_ids
  by (auto simp: ct_inv_def ctab_def tab_def not_le [symmetric] simp del: finite_dom_map_of split: if_splits)

lemma ctab_steps:
  "ct_close 2 (ctab peer u c p) = ctab peer False c p"
  "ct_close 4 (ctab peer u c p) = ctab peer u False False"
  "ct_ack 4 (ctab peer u c p) = (if p then Ok (ctab peer u True False) else Err (Unknown 4))"
  "ct_register \<lparr>ca_context_id = 4, ca_binding = Compressed peer\<rparr> (ctab peer u c p) =
     (if c \<or> p then Err (Duplicate 4) else Ok (ctab peer u c True))"
  by (auto simp: ct_close_def ct_ack_def ct_register_def ctab_def tab_def fun_eq_iff)

lemma ctab_lookup:
  assumes "hash_iter iter" "\<not> (c \<and> p)"
  shows "compressed_context_for iter (ctab peer u c p) peer = (if c then Some 4 else None)"
    "uncompressed_context iter (ctab peer u c p) = (if u then Some 2 else None)"
  using compressed_context_for_Some [OF assms(1) ctab_inv [OF assms(2)], of peer u peer]
    compressed_context_for_None [OF assms(1) ctab_inv [OF assms(2)], of peer u peer]
    uncompressed_context_Some [OF assms(1) ctab_inv [OF assms(2)], of peer u]
    uncompressed_context_None [OF assms(1) ctab_inv [OF assms(2)], of peer u]
  by (force simp: ctab_def tab_def split: if_splits)+

lemma register_ack_ctab:
  "register_ack \<lparr>ca_context_id = 4, ca_binding = Compressed peer\<rparr> (ctab peer u c False) =
     (if c then (Err (Duplicate 4), ctab peer u True False) else (Ok (), ctab peer u True False))"
  by (simp add: register_ack_def ctab_steps)

abbreviation sent_of :: "bind_session \<Rightarrow> frame list" where
  "sent_of s \<equiv> st_sent (bx_stream s)"

abbreviation table_of :: "bind_session \<Rightarrow> context_table" where
  "table_of s \<equiv> bs_contexts (bx_socket s)"

lemma turn_proposal:
  assumes "bind_turn api qsid (StreamData [proposal peer]) cb_new s = (Ok (Some b), s')" "table_of s = ctab peer u c False"
  shows "b = cb_new" "table_of s' = ctab peer u True False" "sent_of s' = sent_of s @ (if c then [] else [Data acking])"
proof -
  obtain body where body: "ca_decode body = Ok \<lparr>ca_context_id = 4, ca_binding = Compressed peer\<rparr>"
    "envelope (proposal peer) = Some (CAPSULE_COMPRESSION_ASSIGN, body, [])" using proposal_sealed(2) by blast
  have "bind_turn api qsid (StreamData [proposal peer]) cb_new s =
      rbind (handle_context_capsule CAPSULE_COMPRESSION_ASSIGN body) (\<lambda>_. rret (Some cb_new)) s"
    by (rule turn_sealed [OF body(2)]) (simp add: CAPSULE_COMPRESSION_ASSIGN_def)
  with assms show "b = cb_new" "table_of s' = ctab peer u True False" "sent_of s' = sent_of s @ (if c then [] else [Data acking])"
    by (cases c; auto simp: handle_context_capsule_def body(1) rbind_def rlift_def rret_def on_contexts_def register_ack_ctab
      acking_sealed(1) on_bind_stream_def dest!: send_frame_cases split: prod.splits res.splits)+
qed

lemma turn_closing:
  assumes "bind_turn api qsid (StreamData [closing]) cb_new s = (Ok (Some b), s')" "table_of s = ctab peer u c False"
  shows "b = cb_new" "table_of s' = ctab peer False c False" "sent_of s' = sent_of s"
proof -
  obtain body where body: "decode_context_capsule body = Ok 2"
    "envelope closing = Some (CAPSULE_COMPRESSION_CLOSE, body, [])" using closing_sealed(2) by blast
  have "bind_turn api qsid (StreamData [closing]) cb_new s =
      rbind (handle_context_capsule CAPSULE_COMPRESSION_CLOSE body) (\<lambda>_. rret (Some cb_new)) s"
    by (rule turn_sealed [OF body(2)]) (simp add: CAPSULE_COMPRESSION_CLOSE_def)
  with assms show "b = cb_new" "table_of s' = ctab peer False c False" "sent_of s' = sent_of s"
    by (auto simp: handle_context_capsule_def body(1) rbind_def rlift_def rret_def on_contexts_def ctab_steps
      CAPSULE_COMPRESSION_ASSIGN_def CAPSULE_COMPRESSION_CLOSE_def)
qed

lemma turn_traffic:
  assumes "bind_turn api qsid ev buffer s = (Ok (Some b), s')"
    "(\<exists>now send_ok body. ev = FromPeer now send_ok body) \<or>
     (\<exists>iter queue_ok send_ok remote packet. ev = FromNetwork iter queue_ok send_ok remote packet)"
  shows "b = buffer" "table_of s' = table_of s" "sent_of s' = sent_of s"
  using assms by (auto simp: bind_turn_def rbind_def rret_def on_socket_def outbound_step_def inbound_step_def egress_def Let_def
    and_then_eq_Ok split: res.splits prod.splits if_splits option.splits list.splits)

lemma pump_acking:
  "pump_capsules (cb_push [acking] cb_new) (ctab peer u c p) = (cb_new, ctab peer u (c \<or> p) (if p then False else p))"
proof -
  obtain body where body: "decode_context_capsule body = Ok 4"
    "envelope acking = Some (CAPSULE_COMPRESSION_ACK, body, [])" using acking_sealed(2) by blast
  have "pump_capsules (cb_push [acking] cb_new) (ctab peer u c p) = (cb_new, pump_ack CAPSULE_COMPRESSION_ACK body (ctab peer u c p))"
    by (rule pump_sealed [OF body(2)]) (simp add: CAPSULE_COMPRESSION_ACK_def)
  then show ?thesis by (simp add: pump_ack_def body(1) ctab_steps)
qed

section \<open>The invariant\<close>

text \<open>
  The contexts the client uses are active at the relay; an acknowledgement in flight is one the
  relay stands by; the uncompressed context is given up by both sides, by the client first.
\<close>

definition lok :: "sock_addr \<Rightarrow> bool \<Rightarrow> bool \<Rightarrow> bool \<Rightarrow> bool \<Rightarrow> lockdown \<Rightarrow> bool" where
  "lok peer c p a2 a4 w \<longleftrightarrow> ld_relay_buffer w = cb_new \<and> ld_buffer w = cb_new \<and> ld_read w \<le> length (sent_of (ld_relay w)) \<and>
     set (ld_up w) \<subseteq> {proposal peer, closing} \<and> set (down w) \<subseteq> {Data acking} \<and>
     (\<forall>a u. ld_state w = Engaging a u \<longrightarrow> a = 4 \<and> u = 2) \<and>
     ld_table w = ctab peer (ld_state w \<noteq> Engaged) c p \<and> relay_table w = ctab peer a2 a4 False \<and>
     \<not> (c \<and> p) \<and> (c \<or> down w \<noteq> [] \<longrightarrow> a4) \<and> (ld_state w = Engaged \<longrightarrow> c \<and> (a2 \<longrightarrow> closing \<in> set (ld_up w))) \<and>
     (ld_state w \<noteq> Engaged \<longrightarrow> a2 \<and> closing \<notin> set (ld_up w))"

definition linv :: "sock_addr \<Rightarrow> lockdown \<Rightarrow> bool" where
  "linv peer w \<longleftrightarrow> (\<exists>c p a2 a4. lok peer c p a2 a4 w)"

lemma linvI: "lok peer c p a2 a4 w \<Longrightarrow> linv peer w"
  by (auto simp: linv_def)

lemma linv_opened: "opened w \<Longrightarrow> linv peer w"
  by (rule linvI [of _ False False True False])
     (auto simp: lok_def opened_def ctab_def tab_def FIRST_UNCOMPRESSED_CONTEXT_def fun_eq_iff intro!: context_table.equality)

lemma propose_ctab:
  assumes "hash_iter iter" "\<not> (c \<and> p)" "engage_propose iter show_error queue_ok (Some peer) (ctab peer True c p) = (r, t)"
  shows "t = ctab peer True c (\<not> c)"
    "(case r of Ok (Awaiting a u, out) \<Rightarrow> a = 4 \<and> u = 2 \<and> out = [proposal peer] | _ \<Rightarrow> True)"
  using assms(3) ctab_lookup [OF assms(1,2), of peer True] assms(2)
  by (cases c; cases p; cases queue_ok; auto simp: engage_propose_def ctab_steps proposal_sealed(1))+

lemma linv_propose:
  assumes "lok peer c p a2 a4 w" "hash_iter iter" "ld_state w = NotEngaged"
    "engage_propose iter show_error queue_ok (Some peer) (ld_table w) = (r, t)"
  shows "linv peer (case r of
        Ok (Awaiting a u, out) \<Rightarrow> w\<lparr>ld_table := t, ld_up := ld_up w @ out, ld_state := Engaging a u\<rparr>
      | _ \<Rightarrow> w\<lparr>ld_table := t\<rparr>)"
proof -
  have e: "engage_propose iter show_error queue_ok (Some peer) (ctab peer True c p) = (r, t)" "\<not> (c \<and> p)"
    using assms by (simp_all add: lok_def)
  note t = propose_ctab [OF assms(2) e(2,1)]
  have "linv peer (w\<lparr>ld_table := t\<rparr>)"
    using assms(1,3) t(1) by (intro linvI [of _ c "\<not> c" a2 a4]) (simp add: lok_def down_def)
  moreover have "linv peer (w\<lparr>ld_table := t, ld_up := ld_up w @ [proposal peer], ld_state := Engaging 4 2\<rparr>)"
    using assms(1,3) t(1) proposal_not_closing [of peer] by (intro linvI [of _ c "\<not> c" a2 a4]) (auto simp: lok_def down_def)
  ultimately show ?thesis using t(2) by (auto split: res.splits engaging.splits)
qed

lemma linv_finish:
  assumes "lok peer c p a2 a4 w" "ld_state w = Engaging a u" "ct_binding (ld_table w) a \<noteq> None"
    "engage_finish queue_ok u (ld_table w) = (r, t)"
  shows "linv peer (case r of
        Ok out \<Rightarrow> w\<lparr>ld_table := t, ld_up := ld_up w @ out, ld_state := Engaged\<rparr>
      | _ \<Rightarrow> w\<lparr>ld_table := t, ld_state := NotEngaged\<rparr>)"
proof -
  have au: "a = 4" "u = 2" and t0: "ld_table w = ctab peer True c p" using assms(1,2) by (simp_all add: lok_def)
  have c: "c" using assms(3) by (simp add: t0 au ct_binding_def ctab_def tab_def split: if_splits)
  have "linv peer (w\<lparr>ld_table := ld_table w, ld_state := NotEngaged\<rparr>)"
    using assms(1,2) by (intro linvI [of _ c p a2 a4]) (simp add: lok_def down_def)
  moreover have "linv peer (w\<lparr>ld_table := ctab peer False c p, ld_up := ld_up w @ [closing], ld_state := Engaged\<rparr>)"
    using assms(1,2) c by (intro linvI [of _ c p a2 a4]) (auto simp: lok_def down_def)
  ultimately show ?thesis
    using assms(4) t0 by (auto simp: engage_finish_def au closing_sealed(1) ctab_steps split: if_splits)
qed

lemma linv_timeout:
  assumes "lok peer c p a2 a4 w" "ld_state w = Engaging a u"
  shows "linv peer (w\<lparr>ld_table := snd (engage_timeout a (ld_table w)), ld_state := NotEngaged\<rparr>)"
  using assms by (intro linvI [of _ False False a2 a4]) (simp add: lok_def down_def engage_timeout_def ctab_steps)

lemma linv_relay:
  assumes "lok peer c p a2 a4 w" "ld_up w = x # rest"
    "bind_turn api qsid (StreamData [x]) (ld_relay_buffer w) (ld_relay w) = (Ok (Some b), s)"
  shows "linv peer (w\<lparr>ld_up := rest, ld_relay := s, ld_relay_buffer := b\<rparr>)"
proof -
  have w: "ld_relay_buffer w = cb_new" "relay_table w = ctab peer a2 a4 False" "x = proposal peer \<or> x = closing"
    using assms(1,2) by (auto simp: lok_def)
  from w(3) show ?thesis
  proof
    assume x: "x = proposal peer"
    from turn_proposal [OF assms(3) [unfolded x w(1)] w(2)] show ?thesis
      using assms(1,2) x proposal_not_closing [of peer] by (intro linvI [of _ c p a2 True]) (auto simp: lok_def down_def)
  next
    assume x: "x = closing"
    from turn_closing [OF assms(3) [unfolded x w(1)] w(2)] show ?thesis
      using assms(1,2) x by (intro linvI [of _ c p False a4]) (auto simp: lok_def down_def)
  qed
qed

lemma linv_pump:
  assumes "lok peer c p a2 a4 w" "down w = Data x # rest"
    "pump_capsules (cb_push [x] (ld_buffer w)) (ld_table w) = (b, t)"
  shows "linv peer (w\<lparr>ld_table := t, ld_buffer := b, ld_read := Suc (ld_read w)\<rparr>)"
proof -
  have x: "x = acking" "a4" using assms(1,2) by (auto simp: lok_def)
  have b: "b = cb_new" "t = ctab peer (ld_state w \<noteq> Engaged) (c \<or> p) False"
    using assms(1,3) pump_acking [of peer "ld_state w \<noteq> Engaged" c p] by (auto simp: lok_def x(1) split: if_splits)
  have "ld_read w < length (sent_of (ld_relay w))" "drop (Suc (ld_read w)) (sent_of (ld_relay w)) = rest"
    using assms(2) by (auto simp: down_def drop_Suc tl_drop [symmetric] intro: ccontr)
  then show ?thesis
    using assms(1,2) b x(2) by (intro linvI [of _ "c \<or> p" False a2 a4]) (auto simp: lok_def down_def)
qed

lemma linv_step:
  assumes "linv peer w" "lstep api qsid peer w w'"
  shows "linv peer w'"
proof -
  obtain c p a2 a4 where w: "lok peer c p a2 a4 w" using assms(1) by (auto simp: linv_def)
  from assms(2) show ?thesis
  proof (rule lstepE)
    fix ev b s
    assume "w' = w\<lparr>ld_relay := s, ld_relay_buffer := b\<rparr>"
      "bind_turn api qsid ev (ld_relay_buffer w) (ld_relay w) = (Ok (Some b), s)"
      "(\<exists>now send_ok body. ev = FromPeer now send_ok body) \<or>
       (\<exists>iter queue_ok send_ok remote packet. ev = FromNetwork iter queue_ok send_ok remote packet)"
    with turn_traffic [of api qsid ev "ld_relay_buffer w" "ld_relay w" b s] w show ?thesis
      by (intro linvI [of _ c p a2 a4]) (simp add: lok_def down_def)
  qed (use w linv_propose linv_finish linv_timeout linv_relay linv_pump in simp_all)
qed

lemma linv_reach: "lreach api qsid peer w \<Longrightarrow> linv peer w"
  by (induction rule: lreach.induct) (auto intro: linv_opened linv_step)

section \<open>Datagrams between the two tables\<close>

lemma frame_bind_encapsulate:
  "frame_bind iter qsid t dst payload = (case encapsulate iter t dst payload of
      Ok (Some body) \<Rightarrow> and_then (unwrap (write_varint qsid)) (\<lambda>q. Ok (Some (q @ body)))
    | Ok None \<Rightarrow> Ok None
    | _ \<Rightarrow> Panic)"
  by (auto simp: frame_bind_def encapsulate_def Let_def split: option.splits res.splits)

lemma decode_datagram_mono:
  assumes "decode_datagram t w = Ok dg" "ct_contexts t \<subseteq>\<^sub>m ct_contexts t'"
  shows "decode_datagram t' w = Ok dg"
proof -
  obtain r rest where r: "read_varint w = (r, rest)" by (cases "read_varint w")
  then obtain i b where i: "r = Ok i" "ct_contexts t i = Some b"
    using assms(1) by (auto simp: decode_datagram_def ct_binding_def split: res.splits option.splits)
  then have "ct_contexts t' i = Some b" using assms(2) by (auto simp: map_le_def dom_def)
  then show ?thesis using assms(1) r i by (simp add: decode_datagram_def ct_binding_def)
qed

lemma pump_framed:
  assumes "\<And>rest. read_varint (q @ rest) = (Ok qsid, rest)"
  shows "pump_datagram qsid t (q @ body) =
    (case decode_datagram t body of Ok dg \<Rightarrow> Some (bd_remote dg, bd_payload dg) | _ \<Rightarrow> None)"
  using assms [of body] by (simp add: pump_datagram_def)

lemma tab_fits: "(\<exists>i b. ct_binding (ctab peer u c p) i = Some b \<and> fits b dst) \<longleftrightarrow> u \<or> c \<and> dst = peer"
  by (cases u; cases c) (force simp: ct_binding_def ctab_def tab_def split: if_splits)+

lemma tab_le: "(u \<longrightarrow> u') \<Longrightarrow> (c \<longrightarrow> c') \<Longrightarrow> ct_contexts (ctab peer u c p) \<subseteq>\<^sub>m ct_contexts (ctab peer u' c' p')"
  by (auto simp: map_le_def ctab_def tab_def split: if_splits)

text \<open>A datagram wrapped under one table is read under a larger one.\<close>

lemma wrapped:
  assumes "hash_iter iter" "\<not> (c \<and> p)" "u \<longrightarrow> u'" "c \<longrightarrow> c'" "qsid \<le> VARINT_MAX"
  shows "if u \<or> c \<and> dst = peer
    then \<exists>body wire i. encapsulate iter (ctab peer u c p) dst payload = Ok (Some body) \<and>
      frame_bind iter qsid (ctab peer u c p) dst payload = Ok (Some wire) \<and> egress_wire qsid body = Ok wire \<and>
      read_varint wire = (Ok qsid, body) \<and>
      decode_datagram (ctab peer u' c' p') body = Ok \<lparr>bd_context_id = i, bd_remote = dst, bd_payload = payload\<rparr> \<and>
      pump_datagram qsid (ctab peer u' c' p') wire = Some (dst, payload)
    else encapsulate iter (ctab peer u c p) dst payload = Ok None \<and>
      frame_bind iter qsid (ctab peer u c p) dst payload = Ok None"
proof -
  obtain q where q: "write_varint qsid = Ok q" "\<And>rest. read_varint (q @ rest) = (Ok qsid, rest)"
    using write_varint_Ok [OF assms(5)] by auto
  show ?thesis
  proof (cases "u \<or> c \<and> dst = peer")
    case True
    then obtain body i where body: "encapsulate iter (ctab peer u c p) dst payload = Ok (Some body)"
      "decode_datagram (ctab peer u c p) body = Ok \<lparr>bd_context_id = i, bd_remote = dst, bd_payload = payload\<rparr>"
      using encapsulate_spec [OF assms(1) ctab_inv [OF assms(2)], of peer u dst payload] by (auto simp: tab_fits)
    note d = decode_datagram_mono [OF body(2) tab_le [OF assms(3,4)]]
    show ?thesis using True body(1) d [of p']
      by (intro if_P [THEN iffD2] exI [of _ body] exI [of _ "q @ body"] exI [of _ i])
         (simp_all add: frame_bind_encapsulate egress_wire_def q pump_framed [OF q(2)])
  next
    case False
    then show ?thesis
      using encapsulate_spec [OF assms(1) ctab_inv [OF assms(2)], of peer u dst payload]
      by (auto simp: tab_fits frame_bind_encapsulate)
  qed
qed

section \<open>Runs\<close>

lemma turn_runs:
  assumes "table_of s = ctab peer u c False" "st_accepts (bx_stream s) = []"
  shows "\<exists>s'. bind_turn api qsid (StreamData [proposal peer]) cb_new s = (Ok (Some cb_new), s') \<and> st_accepts (bx_stream s') = []"
    "\<exists>s'. bind_turn api qsid (StreamData [closing]) cb_new s = (Ok (Some cb_new), s') \<and> st_accepts (bx_stream s') = []"
proof -
  obtain b1 where b1: "ca_decode b1 = Ok \<lparr>ca_context_id = 4, ca_binding = Compressed peer\<rparr>"
    "envelope (proposal peer) = Some (CAPSULE_COMPRESSION_ASSIGN, b1, [])" using proposal_sealed(2) by blast
  obtain b2 where b2: "decode_context_capsule b2 = Ok 2"
    "envelope closing = Some (CAPSULE_COMPRESSION_CLOSE, b2, [])" using closing_sealed(2) by blast
  show "\<exists>s'. bind_turn api qsid (StreamData [proposal peer]) cb_new s = (Ok (Some cb_new), s') \<and> st_accepts (bx_stream s') = []"
    using turn_sealed [OF b1(2)] assms
    by (simp add: CAPSULE_COMPRESSION_ASSIGN_def handle_context_capsule_def b1(1) rbind_def rlift_def rret_def
      on_contexts_def register_ack_ctab acking_sealed(1) on_bind_stream_def send_frame_def)
  show "\<exists>s'. bind_turn api qsid (StreamData [closing]) cb_new s = (Ok (Some cb_new), s') \<and> st_accepts (bx_stream s') = []"
    using turn_sealed [OF b2(2)] assms
    by (simp add: CAPSULE_COMPRESSION_ASSIGN_def CAPSULE_COMPRESSION_CLOSE_def handle_context_capsule_def b2(1) rbind_def
      rlift_def rret_def on_contexts_def)
qed

text \<open>A state with all that matters of it, and that such a state is reachable.\<close>

definition is_at ::
    "sock_addr \<Rightarrow> bool \<Rightarrow> bool \<Rightarrow> bool \<Rightarrow> bool \<Rightarrow> bytes list \<Rightarrow> frame list \<Rightarrow> engage_state \<Rightarrow> lockdown \<Rightarrow> bool" where
  "is_at peer c p a2 a4 up dn st w \<longleftrightarrow> ld_table w = ctab peer (st \<noteq> Engaged) c p \<and> relay_table w = ctab peer a2 a4 False \<and>
     ld_up w = up \<and> down w = dn \<and> ld_state w = st \<and> ld_relay_buffer w = cb_new \<and> ld_buffer w = cb_new \<and>
     ld_read w \<le> length (sent_of (ld_relay w)) \<and> st_accepts (bx_stream (ld_relay w)) = []"

definition at ::
    "ipnet_api \<Rightarrow> u64 \<Rightarrow> sock_addr \<Rightarrow> bool \<Rightarrow> bool \<Rightarrow> bool \<Rightarrow> bool \<Rightarrow> bytes list \<Rightarrow> frame list \<Rightarrow> engage_state \<Rightarrow> bool" where
  "at api qsid peer c p a2 a4 up dn st \<longleftrightarrow> (\<exists>w. lreach api qsid peer w \<and> is_at peer c p a2 a4 up dn st w)"

lemma atI: "lreach api qsid peer w \<Longrightarrow> is_at peer c p a2 a4 up dn st w \<Longrightarrow> at api qsid peer c p a2 a4 up dn st"
  by (auto simp: at_def)

lemma atE:
  assumes "at api qsid peer c p a2 a4 up dn st"
  obtains w where "lreach api qsid peer w" "is_at peer c p a2 a4 up dn st w"
  using assms by (auto simp: at_def)

definition opened_example :: lockdown where
  "opened_example = (let t = ctab sample_remote True False False in
     \<lparr>ld_table = t, ld_up = [],
      ld_relay = \<lparr>bx_stream = \<lparr>st_id = 0, st_accepts = [], st_sent = []\<rparr>,
        bx_socket = \<lparr>bs_public_addr = SocketAddr (V4 1) 5000, bs_contexts = t, bs_policy = dp_new [] [],
          bs_limiter = sl_new \<lparr>packets_per_sec = 0, bytes_per_sec = 0\<rparr> 0, bs_to_net = [], bs_to_peer = []\<rparr>,
        bx_datagrams = []\<rparr>,
      ld_relay_buffer = cb_new, ld_read = 0, ld_buffer = cb_new, ld_state = NotEngaged\<rparr>)"

lemma at_opened: "at api qsid sample_remote False False True False [] [] NotEngaged"
proof -
  have "opened opened_example"
    by (auto simp: opened_def opened_example_def down_def ctab_def tab_def FIRST_UNCOMPRESSED_CONTEXT_def fun_eq_iff Let_def)
  then show ?thesis
    by (intro atI [of _ _ _ opened_example] lreach_opened) (auto simp: is_at_def opened_example_def down_def Let_def)
qed

lemma at_propose:
  assumes "at api qsid peer False False a2 a4 up dn NotEngaged"
  shows "at api qsid peer False True a2 a4 (up @ [proposal peer]) dn (Engaging 4 2)"
  using assms
proof (rule atE)
  fix w
  assume r: "lreach api qsid peer w" and w: "is_at peer False False a2 a4 up dn NotEngaged w"
  have "engage_propose sorted_iter (\<lambda>_. []) True (Some peer) (ld_table w) =
      (Ok (Awaiting 4 2, [proposal peer]), ctab peer True False True)"
    using w ctab_lookup [OF hash_iter_sorted, of False False peer True]
    by (simp add: is_at_def engage_propose_def ctab_steps proposal_sealed(1))
  moreover have "ld_state w = NotEngaged" using w by (simp add: is_at_def)
  ultimately show ?thesis
    using w by (intro atI [OF lreach_step [OF r lstep_propose [OF hash_iter_sorted]]]) (auto simp: is_at_def down_def)
qed

lemma at_turn:
  assumes "at api qsid peer c p a2 a4 (x # up) dn st" "x = proposal peer \<or> x = closing"
  shows "at api qsid peer c p (a2 \<and> x = proposal peer) (a4 \<or> x = proposal peer) up
    (dn @ (if x = proposal peer \<and> \<not> a4 then [Data acking] else [])) st"
  using assms(1)
proof (rule atE)
  fix w
  assume r: "lreach api qsid peer w" and w: "is_at peer c p a2 a4 (x # up) dn st w"
  have t: "relay_table w = ctab peer a2 a4 False" and up: "ld_up w = x # up" using w by (simp_all add: is_at_def)
  obtain s where s: "bind_turn api qsid (StreamData [x]) cb_new (ld_relay w) = (Ok (Some cb_new), s)"
    "st_accepts (bx_stream s) = []" using turn_runs [OF t, of api qsid] w assms(2) by (auto simp: is_at_def)
  have "table_of s = ctab peer (a2 \<and> x = proposal peer) (a4 \<or> x = proposal peer) False"
    "sent_of s = sent_of (ld_relay w) @ (if x = proposal peer \<and> \<not> a4 then [Data acking] else [])"
    using assms(2) s(1) turn_proposal(2,3) [OF _ t] turn_closing(2,3) [OF _ t] proposal_not_closing [of peer] by auto
  moreover have "ld_relay_buffer w = cb_new" using w by (simp add: is_at_def)
  ultimately show ?thesis using w s
    by (intro atI [OF lreach_step [OF r lstep_relay [OF up, of _ _ cb_new s]]]) (auto simp: is_at_def down_def)
qed

lemma at_pump:
  assumes "at api qsid peer c p a2 a4 up (Data acking # dn) st"
  shows "at api qsid peer (c \<or> p) False a2 a4 up dn st"
  using assms
proof (rule atE)
  fix w
  assume r: "lreach api qsid peer w" and w: "is_at peer c p a2 a4 up (Data acking # dn) st w"
  have d: "down w = Data acking # dn" and "ld_buffer w = cb_new" "ld_table w = ctab peer (st \<noteq> Engaged) c p"
    using w by (simp_all add: is_at_def)
  then have "pump_capsules (cb_push [acking] (ld_buffer w)) (ld_table w) = (cb_new, ctab peer (st \<noteq> Engaged) (c \<or> p) False)"
    using pump_acking [of peer "st \<noteq> Engaged" c p] by (cases p) simp_all
  note r = lreach_step [OF r lstep_pump [OF d this]]
  have "ld_read w < length (sent_of (ld_relay w))" "drop (Suc (ld_read w)) (sent_of (ld_relay w)) = dn"
    using d by (auto simp: down_def drop_Suc tl_drop [symmetric] intro: ccontr)
  with w show ?thesis by (intro atI [OF r]) (auto simp: is_at_def down_def)
qed

lemma at_finish:
  assumes "at api qsid peer True p a2 a4 up dn (Engaging 4 2)"
  shows "at api qsid peer True p a2 a4 (up @ [closing]) dn Engaged" "at api qsid peer True p a2 a4 up dn NotEngaged"
proof -
  obtain w where r: "lreach api qsid peer w" and w: "is_at peer True p a2 a4 up dn (Engaging 4 2) w"
    using assms by (rule atE)
  have st: "ld_state w = Engaging 4 2" "ld_table w = ctab peer True True p" using w by (simp_all add: is_at_def)
  then have b: "ct_binding (ld_table w) 4 \<noteq> None" by (simp add: ct_binding_def ctab_def tab_def)
  have "engage_finish True 2 (ld_table w) = (Ok [closing], ctab peer False True p)"
    "engage_finish False 2 (ld_table w) = (Err (InvalidRequest ''capsule queue''), ld_table w)"
    by (simp_all add: st engage_finish_def closing_sealed(1) ctab_steps)
  note f = this [THEN lstep_finish [OF st(1) b], THEN lreach_step [OF r]]
  show "at api qsid peer True p a2 a4 (up @ [closing]) dn Engaged"
    using w by (intro atI [OF f(1)]) (simp add: is_at_def down_def)
  show "at api qsid peer True p a2 a4 up dn NotEngaged"
    using w by (intro atI [OF f(2)]) (simp add: is_at_def down_def)
qed

lemma at_timeout:
  assumes "at api qsid peer c p a2 a4 up dn (Engaging 4 2)"
  shows "at api qsid peer False False a2 a4 up dn NotEngaged"
  using assms
proof (rule atE)
  fix w
  assume r: "lreach api qsid peer w" and w: "is_at peer c p a2 a4 up dn (Engaging 4 2) w"
  then have "ld_state w = Engaging 4 2" by (simp add: is_at_def)
  from w show ?thesis
    by (intro atI [OF lreach_step [OF r lstep_timeout [OF \<open>ld_state w = Engaging 4 2\<close>]]])
       (simp add: is_at_def down_def engage_timeout_def ctab_steps)
qed

lemma at_turn_proposal:
  "at api qsid peer c p a2 False (proposal peer # up) dn st \<Longrightarrow> at api qsid peer c p a2 True up (dn @ [Data acking]) st"
  using at_turn [of api qsid peer c p a2 False "proposal peer" up dn st] by simp

lemma at_turn_closing: "at api qsid peer c p a2 a4 (closing # up) dn st \<Longrightarrow> at api qsid peer c p False a4 up dn st"
  using at_turn [of api qsid peer c p a2 a4 closing up dn st] proposal_not_closing [of peer] by auto

text \<open>A lockdown with no delays runs to its end.\<close>

lemma at_proposed: "at api qsid sample_remote False True True False [proposal sample_remote] [] (Engaging 4 2)"
  using at_propose [OF at_opened] by simp

lemma at_acknowledged: "at api qsid sample_remote True False True True [] [] (Engaging 4 2)"
  using at_pump [of api qsid sample_remote False True] at_turn_proposal [OF at_proposed] by simp

lemma lockdown_completes: "at api qsid sample_remote True False False True [] [] Engaged"
  using at_finish(1) [OF at_acknowledged] by (intro at_turn_closing) simp

section \<open>Where the code departs from its intent\<close>

text \<open>
  The comment on \<open>engage\<close> says that on a timeout everything is left as it was. Only the client
  gives the proposed context up; the relay, which gets the proposal late, keeps it. From then on
  the relay wraps the packets of the peer in a context the client does not know, and all of them
  are lost, although nothing is in flight any more.
\<close>

lemma timeout_blackhole:
  assumes "hash_iter iter" "qsid \<le> VARINT_MAX"
  shows "\<exists>w. lreach api qsid sample_remote w \<and> ld_up w = [] \<and> down w = [] \<and>
    (\<forall>packet. \<exists>body wire. encapsulate iter (relay_table w) sample_remote packet = Ok (Some body) \<and>
       egress_wire qsid body = Ok wire \<and> pump_datagram qsid (ld_table w) wire = None)"
proof -
  have "at api qsid sample_remote False False True True [] [] NotEngaged"
    using at_pump [of api qsid sample_remote False False] at_turn_proposal [OF at_timeout [OF at_proposed]] by simp
  then obtain w where w: "lreach api qsid sample_remote w" "is_at sample_remote False False True True [] [] NotEngaged w"
    by (rule atE)
  obtain q where q: "write_varint qsid = Ok q" "\<And>rest. read_varint (q @ rest) = (Ok qsid, rest)"
    using write_varint_Ok [OF assms(2)] by auto
  obtain i where i: "write_varint 4 = Ok i" "\<And>rest. read_varint (i @ rest) = (Ok 4, rest)"
    using write_varint_Ok [OF context_ids(1)] by auto
  have "encapsulate iter (ctab sample_remote True True False) sample_remote packet = Ok (Some (i @ packet))" for packet
    using ctab_lookup [OF assms(1), of True False sample_remote True]
    by (simp add: encapsulate_def Let_def encode_datagram_def i(1) ct_binding_def ctab_def tab_def)
  moreover have "pump_datagram qsid (ctab sample_remote True False False) (q @ i @ packet) = None" for packet
    by (simp add: pump_framed [OF q(2)] decode_datagram_def i(2) ct_binding_def ctab_def tab_def)
  ultimately show ?thesis
    using w by (intro exI [of _ w]) (auto simp: is_at_def egress_wire_def q(1))
qed

text \<open>
  When the queue has no room for the closing capsule \<open>engage\<close> fails after the new context became
  active. The next call finds that context and reports success, with the uncompressed one open.
\<close>

lemma engage_succeeds_unlocked:
  assumes "hash_iter iter"
  shows "\<exists>w. lreach api qsid sample_remote w \<and>
    engage_propose iter show_error queue_ok (Some sample_remote) (ld_table w) = (Ok (AlreadyEngaged, []), ld_table w) \<and>
    uncompressed_context iter (ld_table w) = Some 2"
proof -
  have "at api qsid sample_remote True False True True [] [] NotEngaged"
    by (rule at_finish(2) [OF at_acknowledged])
  then show ?thesis using ctab_lookup [OF assms, of True False sample_remote True]
    by (auto simp: at_def is_at_def engage_propose_def)
qed

section \<open>Properties\<close>

text \<open>
  C7: the lockdown. In every state the client and the relay can reach, whatever the order of their
  steps, timeouts and full queues included: a packet for the peer is framed, and the relay reads
  from the datagram that peer and that packet (the fallback to the relay is never without a
  context). Before the lockdown that holds of every destination; after it nothing is framed for
  another one. Once the relay has read the closing capsule it drops the packets of everybody but
  the peer, and those of the peer are read by the client.
\<close>

theorem lockdown_safe:
  assumes "lreach api qsid peer w" "hash_iter iter" "qsid \<le> VARINT_MAX"
  shows "(if ld_state w = Engaged \<and> dst \<noteq> peer then frame_bind iter qsid (ld_table w) dst packet = Ok None
      else \<exists>wire body i. frame_bind iter qsid (ld_table w) dst packet = Ok (Some wire) \<and>
        read_varint wire = (Ok qsid, body) \<and>
        decode_datagram (relay_table w) body = Ok \<lparr>bd_context_id = i, bd_remote = dst, bd_payload = packet\<rparr>) \<and>
    (ld_state w = Engaged \<and> ld_up w = [] \<longrightarrow>
      (if dst \<noteq> peer then encapsulate iter (relay_table w) dst packet = Ok None
       else \<exists>body wire. encapsulate iter (relay_table w) dst packet = Ok (Some body) \<and> egress_wire qsid body = Ok wire \<and>
         pump_datagram qsid (ld_table w) wire = Some (dst, packet)))"
proof -
  obtain c p a2 a4 where "lok peer c p a2 a4 w" using linv_reach [OF assms(1)] by (auto simp: linv_def)
  then have w: "ld_table w = ctab peer (ld_state w \<noteq> Engaged) c p" "relay_table w = ctab peer a2 a4 False" "\<not> (c \<and> p)"
    "c \<longrightarrow> a4" "ld_state w \<noteq> Engaged \<longrightarrow> a2" "ld_state w = Engaged \<longrightarrow> c" "ld_state w = Engaged \<and> ld_up w = [] \<longrightarrow> \<not> a2"
    by (auto simp: lok_def)
  note up = wrapped [OF assms(2) w(3) w(5) w(4) assms(3), where peer = peer and dst = dst and payload = packet and p' = False]
  have "if ld_state w = Engaged \<and> dst \<noteq> peer then frame_bind iter qsid (ld_table w) dst packet = Ok None
      else \<exists>wire body i. frame_bind iter qsid (ld_table w) dst packet = Ok (Some wire) \<and>
        read_varint wire = (Ok qsid, body) \<and>
        decode_datagram (relay_table w) body = Ok \<lparr>bd_context_id = i, bd_remote = dst, bd_payload = packet\<rparr>"
    using up w(6) unfolding w(1,2) by (cases "ld_state w = Engaged"; cases "dst = peer") auto
  moreover have "if dst \<noteq> peer then encapsulate iter (relay_table w) dst packet = Ok None
       else \<exists>body wire. encapsulate iter (relay_table w) dst packet = Ok (Some body) \<and> egress_wire qsid body = Ok wire \<and>
         pump_datagram qsid (ld_table w) wire = Some (dst, packet)" if e: "ld_state w = Engaged \<and> ld_up w = []"
    using wrapped [OF assms(2) _ _ _ assms(3), where peer = peer and dst = dst and payload = packet and u = False and c = True
      and p = False and u' = False and c' = True and p' = p] w(1-4,6,7) e by auto
  ultimately show ?thesis by blast
qed

theorem lockdown_safe_witness:
  "\<exists>w. lreach ref_ipnet 0 sample_remote w \<and> ld_state w = Engaged \<and>
     (\<forall>packet. \<exists>wire. frame_bind sorted_iter 0 (ld_table w) sample_remote packet = Ok (Some wire)) \<and>
     encapsulate sorted_iter (relay_table w) (SocketAddr (V4 1) 53) [1, 2] = Ok None"
proof -
  obtain w where w: "lreach ref_ipnet 0 sample_remote w" "ld_state w = Engaged" "ld_up w = []"
    using lockdown_completes [of ref_ipnet 0] by (auto simp: at_def is_at_def)
  have "SocketAddr (V4 1) 53 \<noteq> sample_remote" by (simp add: sample_remote_def)
  with lockdown_safe [OF w(1) hash_iter_sorted, of sample_remote] lockdown_safe [OF w(1) hash_iter_sorted, of "SocketAddr (V4 1) 53" "[1, 2]"] w
  show ?thesis by (intro exI [of _ w]) auto
qed

end
