(* ===== verification/Bind_Client_Properties.thy ===== *)
theory Bind_Client_Properties
  imports Bind_Properties Lockdown
begin

text \<open>
  The client of the bind relay against the relay, and the socket that joins the relay with a direct
  path: the handshake leaves both sides with the same table, and the tunnel is only used for the
  one peer the session serves.
\<close>

section \<open>The handshake\<close>

lemma drain_next:
  assumes "drain b = (cs, Ok (), b')"
  shows "case cs of [] \<Rightarrow> next_capsule b = (Ok None, b)
    | c # cs' \<Rightarrow> \<exists>b1. next_capsule b = (Ok (Some c), b1) \<and> drain b1 = (cs', Ok (), b')"
proof (cases "envelope (cb_buf b)")
  case None
  then show ?thesis using assms by (simp add: drain_None next_capsule_envelope)
next
  case (Some e)
  obtain t p rest where e: "e = (t, p, rest)" by (cases e)
  from assms show ?thesis
    by (cases "decode_payload t p") (auto simp: drain_Some [OF Some [unfolded e]] next_capsule_envelope Some e split: prod.splits)
qed

text \<open>The report and the acknowledgement, in one piece or cut anywhere.\<close>

lemma ack_capsules_cut:
  assumes "drain b = (cs, Ok (), b')" "decode_observed_address d1 = Ok remote" "decode_context_capsule d2 = Ok u"
    "ct_ack u t = Ok t'"
  shows "cs = [] \<Longrightarrow> ack_capsules u b t observed = Ok (b, t, observed, False)"
    "cs = [CapUnknown CAPSULE_OBSERVED_ADDRESS d1] \<Longrightarrow> ack_capsules u b t observed = Ok (b', t, Some remote, False)"
    "cs = [CapUnknown CAPSULE_COMPRESSION_ACK d2] \<Longrightarrow> \<exists>b1. ack_capsules u b t observed = Ok (b1, t', observed, True)"
    "cs = [CapUnknown CAPSULE_OBSERVED_ADDRESS d1, CapUnknown CAPSULE_COMPRESSION_ACK d2] \<Longrightarrow>
      \<exists>b1. ack_capsules u b t observed = Ok (b1, t', Some remote, True)"
proof -
  have types: "CAPSULE_OBSERVED_ADDRESS \<noteq> CAPSULE_COMPRESSION_ACK"
    by (simp add: CAPSULE_OBSERVED_ADDRESS_def CAPSULE_COMPRESSION_ACK_def)
  have nil: "ack_capsules u b t observed = Ok (b, t, observed, False)" if "next_capsule b = (Ok None, b)" for b observed
    using that by (simp add: ack_capsules.simps [of u b])
  have ack: "\<exists>b1. ack_capsules u b t observed = Ok (b1, t', observed, True)"
    if "drain b = ([CapUnknown CAPSULE_COMPRESSION_ACK d2], Ok (), b')" for b observed
    using drain_next [OF that] assms(3,4) types by (auto simp: ack_capsules.simps [of u b])
  show "cs = [] \<Longrightarrow> ack_capsules u b t observed = Ok (b, t, observed, False)"
    using drain_next [OF assms(1)] nil by simp
  show "ack_capsules u b t observed = Ok (b', t, Some remote, False)" if cs: "cs = [CapUnknown CAPSULE_OBSERVED_ADDRESS d1]"
  proof -
    obtain b1 where b1: "next_capsule b = (Ok (Some (CapUnknown CAPSULE_OBSERVED_ADDRESS d1)), b1)" "drain b1 = ([], Ok (), b')"
      using drain_next [OF assms(1)] cs by auto
    then have "next_capsule b1 = (Ok None, b1)" using drain_next [OF b1(2)] by simp
    then have "b' = b1" using b1(2) by (simp add: drain.simps [of b1])
    then show ?thesis using b1(1) nil \<open>next_capsule b1 = (Ok None, b1)\<close> assms(2) by (simp add: ack_capsules.simps [of u b])
  qed
  show "cs = [CapUnknown CAPSULE_COMPRESSION_ACK d2] \<Longrightarrow> \<exists>b1. ack_capsules u b t observed = Ok (b1, t', observed, True)"
    using ack assms(1) by simp
  show "\<exists>b1. ack_capsules u b t observed = Ok (b1, t', Some remote, True)"
    if cs: "cs = [CapUnknown CAPSULE_OBSERVED_ADDRESS d1, CapUnknown CAPSULE_COMPRESSION_ACK d2]"
  proof -
    obtain b1 where "next_capsule b = (Ok (Some (CapUnknown CAPSULE_OBSERVED_ADDRESS d1)), b1)"
      "drain b1 = ([CapUnknown CAPSULE_COMPRESSION_ACK d2], Ok (), b')"
      using drain_next [OF assms(1)] cs by auto
    then show ?thesis using ack assms(2) by (simp add: ack_capsules.simps [of u b])
  qed
qed

lemma await_ack_cut:
  assumes "recv_chunks chunks b = (cs, Ok (), b')" "decode_observed_address d1 = Ok remote" "decode_context_capsule d2 = Ok u"
    "ct_ack u t = Ok t'"
    "cs = [CapUnknown CAPSULE_OBSERVED_ADDRESS d1, CapUnknown CAPSULE_COMPRESSION_ACK d2] \<or>
     cs = [CapUnknown CAPSULE_COMPRESSION_ACK d2] \<and> observed = Some remote"
  shows "await_ack u (map (\<lambda>c. Ok (Some c)) chunks) b t observed = Some (Ok (t', Some remote))"
  using assms(1,5)
proof (induction chunks arbitrary: b cs observed)
  case (Cons chunk chunks)
  obtain cs1 r b1 where d: "drain (cb_push chunk b) = (cs1, r, b1)" by (metis prod_cases3)
  then obtain cs2 where r: "r = Ok ()" and rest: "recv_chunks chunks b1 = (cs2, Ok (), b')" "cs = cs1 @ cs2"
    using Cons.prems(1) by (cases r) (auto split: prod.splits)
  note cut = ack_capsules_cut [OF d [unfolded r] assms(2-4)]
  consider "cs1 = []" "cs2 = cs" | "cs1 = [CapUnknown CAPSULE_OBSERVED_ADDRESS d1]" "cs2 = [CapUnknown CAPSULE_COMPRESSION_ACK d2]"
    | "cs1 = cs" using Cons.prems(2) rest(2) by (auto simp: append_eq_Cons_conv Cons_eq_append_conv)
  then show ?case
  proof cases
    case 1
    then have "b1 = cb_push chunk b" using d r drain_next [OF d [unfolded r]] by (simp add: drain.simps [of "cb_push chunk b"])
    then show ?thesis using cut(1) [OF 1(1), of observed] Cons.IH [OF rest(1)] 1(2) Cons.prems(2) by simp
  next
    case 2
    then show ?thesis using cut(2) [OF 2(1), of observed] Cons.IH [OF rest(1), of "Some remote"] by simp
  next
    case 3
    then show ?thesis using Cons.prems(2) cut(3) [of observed] cut(4) [of observed] by auto
  qed
qed simp

lemma received_pair:
  assumes "\<And>rest. envelope (x @ rest) = Some (t1, d1, rest)" "envelope y = Some (t2, d2, [])"
    "t1 \<notin> {1, 2, 3}" "t2 \<notin> {1, 2, 3}" "concat (concat chunks) = x @ y"
  shows "recv_chunks chunks cb_new = ([CapUnknown t1 d1, CapUnknown t2 d2], Ok (), cb_new)"
proof -
  have p: "decode_payload t1 d1 = Ok (CapUnknown t1 d1)" "decode_payload t2 d2 = Ok (CapUnknown t2 d2)"
    using unknown_capsule [OF assms(2,4)] unknown_capsule [OF assms(1) [of "[]"] assms(3)]
      decode_capsule_envelope [OF assms(2)] decode_capsule_envelope [OF assms(1) [of "[]"]] by auto
  have e: "envelope [] = None" using envelope_shorter [of "[]"] by (cases "envelope []") auto
  then have "drain (cb_push (concat chunks) cb_new) = ([CapUnknown t1 d1, CapUnknown t2 d2], Ok (), cb_new)"
    using assms(1) [of y] assms(2,5) p
    by (simp add: cb_push_concat cb_new_def drain_Some [where rest = y] drain_Some [where rest = "[]"] drain_None)
  moreover have "envelope (cb_buf cb_new) = None" using e by (simp add: cb_new_def)
  ultimately show ?thesis
    using recv_chunks_drain [of cb_new chunks] by (auto simp: same_run_def prod_eq_iff)
qed

text \<open>The address in the response is the one the client reads.\<close>

lemma set_join: "set (join sep xs) \<subseteq> set sep \<union> (\<Union>x \<in> set xs. set x)"
  by (induction sep xs rule: join.induct) auto

lemma unquote_quoted:
  assumes "CHR 0x22 \<notin> set v" "v \<noteq> []"
  shows "unquote (CHR 0x22 # v @ [CHR 0x22]) = v"
proof -
  have drop: "dropWhile (\<lambda>c. c = CHR 0x22) (w @ rest) = w @ rest" if "CHR 0x22 \<notin> set w" "w \<noteq> []" for w rest
    using that by (cases w) auto
  have "trim (CHR 0x22 # v @ [CHR 0x22]) = CHR 0x22 # v @ [CHR 0x22]" by (simp add: trim_def is_space_def)
  then show ?thesis using assms drop [of v "[CHR 0x22]"] drop [of "rev v" "[]"] by (simp add: unquote_def)
qed

lemma public_addr_read:
  assumes "headers ''proxy-public-address'' = Some (CHR 0x22 # show_socket_addr (SocketAddr (V4 ip) port) @ [CHR 0x22])"
  shows "public_addr_of headers = Ok (SocketAddr (V4 ip) port)"
proof -
  have "CHR 0x22 \<notin> set (show_nat n)" for n
    using show_radix_digits [of 10 n] by (auto simp: show_nat_def list_all_iff digit_val_def)
  then have "CHR 0x22 \<notin> set (show_socket_addr (SocketAddr (V4 ip) port))"
    using set_join [of "''.''" "List.map (\<lambda>b. show_nat (unat b)) (octets4 ip)"] by (auto simp: show_ipv4_def)
  from unquote_quoted [OF this] show ?thesis
    using assms parse_show_socket4 [of ip port] by (simp add: public_addr_of_def ok_or_def)
qed

section \<open>Properties\<close>

text \<open>The relay registers the uncompressed context of a new session and acknowledges it.\<close>

lemma turn_first_context:
  assumes "ca_decode body = Ok \<lparr>ca_context_id = 2, ca_binding = Uncompressed\<rparr>"
    "envelope x = Some (CAPSULE_COMPRESSION_ASSIGN, body, [])" "encode_context_capsule CAPSULE_COMPRESSION_ACK 2 = Ok ack"
    "table_of s = ct_new" "st_accepts (bx_stream s) = []"
  shows "run_capsules api qsid [StreamData [x]] cb_new s = (Ok (Some cb_new),
    s\<lparr>bx_stream := (bx_stream s)\<lparr>st_sent := sent_of s @ [Data ack]\<rparr>,
      bx_socket := (bx_socket s)\<lparr>bs_contexts := \<lparr>ct_contexts = [2 \<mapsto> Uncompressed], ct_pending = Map.empty\<rparr>\<rparr>\<rparr>)"
proof -
  have "bind_turn api qsid (StreamData [x]) cb_new s =
      rbind (handle_context_capsule CAPSULE_COMPRESSION_ASSIGN body) (\<lambda>_. rret (Some cb_new)) s"
    by (rule turn_sealed [OF assms(2)]) (simp add: CAPSULE_COMPRESSION_ASSIGN_def)
  moreover have "register_ack \<lparr>ca_context_id = 2, ca_binding = Uncompressed\<rparr> ct_new =
      (Ok (), \<lparr>ct_contexts = [2 \<mapsto> Uncompressed], ct_pending = Map.empty\<rparr>)"
    by (simp add: register_ack_def ct_register_def ct_ack_def ct_new_def)
  ultimately show ?thesis using assms
    by (simp add: handle_context_capsule_def rbind_def rlift_def rret_def on_contexts_def on_bind_stream_def send_frame_def)
qed

text \<open>The client reads the report and the acknowledgement, however they are cut.\<close>

lemma client_connects:
  assumes "public_addr_of headers = Ok public_addr" "st_accepts stream = []"
    "ca_encode \<lparr>ca_context_id = FIRST_UNCOMPRESSED_CONTEXT, ca_binding = Uncompressed\<rparr> = Ok x"
    "decode_observed_address d1 = Ok remote" "\<And>rest. envelope (obs @ rest) = Some (CAPSULE_OBSERVED_ADDRESS, d1, rest)"
    "decode_context_capsule d2 = Ok 2" "\<And>rest. envelope (ack @ rest) = Some (CAPSULE_COMPRESSION_ACK, d2, rest)"
    "concat (concat chunks) = obs @ ack"
  shows "bc_connect (Ok (200, status_text, headers)) stream (map (\<lambda>c. Ok (Some c)) chunks) =
    Some (Ok \<lparr>bc_stream = stream\<lparr>st_sent := st_sent stream @ [Data x]\<rparr>, bc_qsid = quarter_stream_id (st_id stream),
      bc_contexts = \<lparr>ct_contexts = [2 \<mapsto> Uncompressed], ct_pending = Map.empty\<rparr>,
      bc_uncompressed = FIRST_UNCOMPRESSED_CONTEXT, bc_public_addr = public_addr, bc_observed_addr = Some remote\<rparr>)"
proof -
  let ?pending = "\<lparr>ct_contexts = Map.empty, ct_pending = [2 \<mapsto> Uncompressed]\<rparr>"
  have "recv_chunks chunks cb_new = ([CapUnknown CAPSULE_OBSERVED_ADDRESS d1, CapUnknown CAPSULE_COMPRESSION_ACK d2], Ok (), cb_new)"
    using assms(7) [of "[]"] assms(8)
    by (intro received_pair [OF assms(5)]) (simp_all add: CAPSULE_OBSERVED_ADDRESS_def CAPSULE_COMPRESSION_ACK_def)
  moreover have "ct_ack 2 ?pending = Ok \<lparr>ct_contexts = [2 \<mapsto> Uncompressed], ct_pending = Map.empty\<rparr>"
    by (simp add: ct_ack_def)
  ultimately have "await_ack 2 (map (\<lambda>c. Ok (Some c)) chunks) cb_new ?pending None =
      Some (Ok (\<lparr>ct_contexts = [2 \<mapsto> Uncompressed], ct_pending = Map.empty\<rparr>, Some remote))"
    using await_ack_cut [OF _ assms(4,6)] by blast
  then show ?thesis using assms(1-3)
    by (simp add: bc_connect_def Let_def FIRST_UNCOMPRESSED_CONTEXT_def send_frame_def ct_register_def ct_new_def)
qed


lemma bind_loop_addr:
  "bind_loop (\<lambda>_. Ok) policy limiter n allocator = (Bound addr b, a') \<Longrightarrow> bs_public_addr b = addr"
  by (induction n arbitrary: allocator) (auto simp: bs_bind_def split: prod.splits option.splits res.splits)

lemma bind_admit_addr:
  assumes "bind_admit crypto (\<lambda>_. Ok) now req cert t = (Ok (addr, b), t')"
  shows "bs_public_addr b = addr"
  using assms
  by (auto simp: bind_admit_def rbind_def rlift_def attempt_def peek_def refuse_def rret_def rfail_def upd_def
    dest!: bind_loop_addr split: res.splits prod.splits option.splits if_splits bound.splits)


section \<open>Relay and direct path\<close>

text \<open>A run of the receiving side: what was taken from the tunnel, over all polls, and the socket after them.\<close>

type_synonym mux_poll = "bool \<times> nat list \<times> (string, sock_addr \<times> bytes) res list \<times> (sock_addr \<times> bytes) list"

fun mux_run :: "mux_poll list \<Rightarrow> path_mux \<Rightarrow> (sock_addr \<times> bytes) list \<times> path_mux" where
  "mux_run [] m = ([], m)"
| "mux_run ((closed, caps, ready, rx) # polls) m =
     (let (r, ready', rx', m') = mux_poll_recv closed caps ready rx m; (ds, m'') = mux_run polls m' in
      (take (length rx - length rx') rx @ ds, m''))"

text \<open>The one relay remote: the one given, or else the source of the first datagram from the tunnel.\<close>

definition relay_remote :: "sock_addr option \<Rightarrow> (sock_addr \<times> bytes) list \<Rightarrow> sock_addr option" where
  "relay_remote known ds = (case known of Some p \<Rightarrow> Some p | None \<Rightarrow> (case ds of [] \<Rightarrow> None | d # _ \<Rightarrow> Some (fst d)))"

lemma relay_remote_append: "relay_remote (relay_remote known ds) es = relay_remote known (ds @ es)"
  by (auto simp: relay_remote_def split: option.split list.split)

lemma drain_relay_remote:
  "drain_relay local caps rx (set_option known) = (got, left, rx', remotes) \<Longrightarrow>
   \<exists>ds. rx = ds @ rx' \<and> remotes = set_option (relay_remote known ds)"
proof (induction local caps rx "set_option known" arbitrary: known got left rx' remotes rule: drain_relay.induct)
  case (2 local cap caps rx)
  show ?case
  proof (cases rx)
    case (Cons d rest)
    let ?known = "relay_remote known [d]"
    have k: "learn (fst d) (set_option known) = set_option ?known" by (cases known) (simp_all add: learn_def relay_remote_def)
    obtain got' where "drain_relay local caps rest (set_option ?known) = (got', left, rx', remotes)"
      using 2(2) Cons k by (auto split: prod.splits)
    from 2(1) [OF Cons _ this] obtain ds where "rest = ds @ rx'" "remotes = set_option (relay_remote ?known ds)" using k by auto
    then show ?thesis using Cons relay_remote_append [of known "[d]" ds] by (intro exI [of _ "d # ds"]) simp
  qed (use 2 in \<open>auto simp: relay_remote_def split: option.split\<close>)
qed (auto simp: relay_remote_def split: option.split)

lemma mux_run_remote:
  assumes "mux_run polls m = (ds, m')" "mx_relay_remotes m = set_option known"
  shows "mx_relay_remotes m' = set_option (relay_remote known ds)"
  using assms
proof (induction polls m arbitrary: known ds m' rule: mux_run.induct)
  case (2 closed caps ready rx polls m)
  obtain r ready' rx' m1 where p: "mux_poll_recv closed caps ready rx m = (r, ready', rx', m1)" by (metis prod_cases4)
  obtain ds' where rest: "mux_run polls m1 = (ds', m')" "ds = take (length rx - length rx') rx @ ds'"
    using 2(2) p by (auto split: prod.splits)
  obtain es where es: "rx = es @ rx'" "mx_relay_remotes m1 = set_option (relay_remote known es)"
    using p 2(3) by (auto simp: mux_poll_recv_def Let_def dest!: drain_relay_remote split: prod.splits)
  have "ds = es @ ds'" using rest(2) es(1) by simp
  then show ?case using 2(1) [OF p [symmetric] _ _ _ rest(1) es(2)] by (simp add: relay_remote_append)
qed (auto simp: relay_remote_def split: option.split)

text \<open>
  C22: one peer for the tunnel. Whatever arrives at a socket with a relay and a direct path, from
  whatever sources, the tunnel is used for one address only: the peer the dialer was given, or
  else the source of the very first packet from the tunnel. What is sent anywhere else leaves by
  the direct socket, and what is sent there never does.
\<close>

theorem mux_one_peer:
  assumes "mux_run polls (mux_endpoint qsid local direct_local relay_peer) = (ds, m)"
    "mux_poll_send iter send_datagram send_to table m dst contents = Ready (Ok sent)"
  shows "if relay_remote relay_peer ds = Some dst
    then sent = Dropped \<or> (\<exists>wire. sent = ViaRelay wire \<and> frame_bind iter (mx_qsid m) table dst contents = Ok (Some wire))
    else sent = ViaDirect dst contents \<and> send_to dst contents = Ready (Ok ())"
proof -
  have "mx_relay_remotes m = set_option (relay_remote relay_peer ds)"
    by (rule mux_run_remote [OF assms(1)]) (simp add: mux_endpoint_def)
  then show ?thesis using assms(2)
    by (auto simp: mux_poll_send_def and_then_eq_Ok split: if_splits res.splits option.splits poll.splits)
qed

theorem mux_one_peer_witness:
  "(\<exists>m. mux_run [(False, [4, 4], [], [(sample_remote, [1]), (SocketAddr (V4 9) 9, [2])])]
     (mux_endpoint 0 (SocketAddr (V4 1) 5000) (SocketAddr (V4 2) 7) None) = ([(sample_remote, [1]), (SocketAddr (V4 9) 9, [2])], m) \<and>
   mux_poll_send sorted_iter (\<lambda>_. Ok ()) (\<lambda>_ _. Ready (Ok ())) ct_new m (SocketAddr (V4 9) 9) [3] =
     Ready (Ok (ViaDirect (SocketAddr (V4 9) 9) [3])))"
proof -
  let ?polls = "[(False, [4, 4], [], [(sample_remote, [1]), (SocketAddr (V4 9) 9, [2])])]"
  let ?m = "mux_endpoint 0 (SocketAddr (V4 1) 5000) (SocketAddr (V4 2) 7) None"
  obtain m where m: "mux_run ?polls ?m = ([(sample_remote, [1]), (SocketAddr (V4 9) 9, [2])], m)"
    by (simp add: mux_poll_recv_def Let_def)
  have ne: "sample_remote \<noteq> SocketAddr (V4 9) 9" by (simp add: sample_remote_def)
  have "mx_relay_remotes m = {sample_remote}"
    using mux_run_remote [OF m, of None] by (simp add: mux_endpoint_def relay_remote_def)
  then obtain sent where
    "mux_poll_send sorted_iter (\<lambda>_. Ok ()) (\<lambda>_ _. Ready (Ok ())) ct_new m (SocketAddr (V4 9) 9) [3] = Ready (Ok sent)"
    using ne by (simp add: mux_poll_send_def)
  from this mux_one_peer [OF m this] ne m show ?thesis by (auto simp: relay_remote_def)
qed

end
