(* ===== verification/Spec2Isabelle.thy ===== *)
theory Spec2Isabelle
  imports Capsule_Ranges Datagram Pool_Correct Port_Alloc Context_Table Forwarding Uri_Template Proxy_Properties Bind_Properties
    Port_Map Punch Client_Properties Bind_Client_Properties
begin

text \<open>
  A verification library for straw, a MASQUE proxy in Rust (CONNECT-IP, RFC 9484, and
  CONNECT-UDP with listener binding).
\<close>

end
